(* ===== verification/Octo_Prelude.thy ===== *)
theory Octo_Prelude
  imports Main "HOL-Library.Word" "HOL-Library.Sublist"
begin

text \<open>
  The shared base of the development: bytes, the failure type every component returns, the two
  sequencing combinators (for a fallible result, and for a fallible step over a state), and the
  lemmas on lists that several components use.

  Rust's \<open>Result<T, E>\<close> is the sum \<open>failure + 'a\<close> (\<open>Inl\<close> the error). A panic (an \<open>unwrap\<close> of
  \<open>None\<close>, an index out of range, a failed \<open>assert!\<close>) is the value \<open>Inl (Panic msg)\<close>, so that a
  theorem "the operation returns \<open>Inr\<close>" says that it neither fails nor panics. The strings of the
  program (Rust's \<open>String\<close>, UTF-8) are lists of characters, each a byte of the encoding; the code
  modelled here only ever compares with ASCII characters.
\<close>

section \<open>Types\<close>

type_synonym byte = "8 word"
type_synonym bytes = "byte list"

datatype error_kind = NotFound | InvalidInput | InvalidData | UnexpectedEof | BrokenPipe | OtherKind

datatype failure = Panic string | IoError error_kind string

type_synonym 'a result = "failure + 'a"

text \<open>A byte string literal.\<close>

definition ascii :: "string \<Rightarrow> bytes" where
  "ascii s = map of_char s"

text \<open>Characters of ASCII, and their lower case as \<open>to_ascii_lowercase\<close> gives it.\<close>

definition is_ascii :: "char \<Rightarrow> bool" where
  "is_ascii c \<longleftrightarrow> (of_char c :: nat) < 128"

definition lower_char :: "char \<Rightarrow> char" where
  "lower_char c = (let n = of_char c :: nat in if 65 \<le> n \<and> n \<le> 90 then char_of (n + 32) else c)"

text \<open>Integers printed in decimal, as \<open>{}\<close> does.\<close>

fun show_nat :: "nat \<Rightarrow> string" where
  "show_nat n = (if n < 10 then [char_of (48 + n)] else show_nat (n div 10) @ [char_of (48 + n mod 10)])"

declare show_nat.simps [simp del]

section \<open>Hint collections\<close>

named_theorems result_simps \<open>rewriting of the sequencing combinators\<close>
named_theorems stream_simps \<open>contents of byte streams\<close>

section \<open>Sequencing\<close>

text \<open>\<open>rbind\<close> is the \<open>?\<close> operator: an error is returned as it is.\<close>

definition rbind :: "'e + 'a \<Rightarrow> ('a \<Rightarrow> 'e + 'b) \<Rightarrow> 'e + 'b" where
  "rbind m f = (case m of Inl e \<Rightarrow> Inl e | Inr x \<Rightarrow> f x)"

lemma rbind_Inl [simp, result_simps]: "rbind (Inl e) f = Inl e"
  by (simp add: rbind_def)

lemma rbind_Inr [simp, result_simps]: "rbind (Inr x) f = f x"
  by (simp add: rbind_def)

lemma rbind_cong [fundef_cong]:
  "m = m' \<Longrightarrow> (\<And>x. m' = Inr x \<Longrightarrow> f x = g x) \<Longrightarrow> rbind m f = rbind m' g"
  by (simp add: rbind_def split: sum.split)

lemma rbind_eq_Inr [result_simps]:
  "rbind m f = Inr y \<longleftrightarrow> (\<exists>x. m = Inr x \<and> f x = Inr y)"
  by (simp add: rbind_def split: sum.split)

lemma rbind_eq_Inl [result_simps]:
  "rbind m f = Inl e \<longleftrightarrow> m = Inl e \<or> (\<exists>x. m = Inr x \<and> f x = Inl e)"
  by (auto simp add: rbind_def split: sum.split)

lemma rbind_assoc: "rbind (rbind m f) g = rbind m (\<lambda>x. rbind (f x) g)"
  by (simp add: rbind_def split: sum.split)

text \<open>\<open>sbind\<close> sequences two fallible steps over a state.\<close>

definition sbind :: "('s \<Rightarrow> 'e + ('a \<times> 's)) \<Rightarrow> ('a \<Rightarrow> 's \<Rightarrow> 'e + ('b \<times> 's)) \<Rightarrow> 's \<Rightarrow> 'e + ('b \<times> 's)" where
  "sbind m f s = rbind (m s) (\<lambda>(x, s'). f x s')"

definition sret :: "'a \<Rightarrow> 's \<Rightarrow> 'e + ('a \<times> 's)" where
  "sret x s = Inr (x, s)"

lemma sbind_Inl [simp, result_simps]: "m s = Inl e \<Longrightarrow> sbind m f s = Inl e"
  by (simp add: sbind_def)

lemma sbind_Inr [simp, result_simps]: "m s = Inr (x, s') \<Longrightarrow> sbind m f s = f x s'"
  by (simp add: sbind_def)

lemma sret_apply [simp, result_simps]: "sret x s = Inr (x, s)"
  by (simp add: sret_def)

lemma sbind_eq_Inr [result_simps]:
  "sbind m f s = Inr r \<longleftrightarrow> (\<exists>x s'. m s = Inr (x, s') \<and> f x s' = Inr r)"
  by (auto simp: sbind_def result_simps)

section \<open>Lists\<close>

lemma take_append_drop_slice:
  "i \<le> j \<Longrightarrow> take j xs = take i xs @ take (j - i) (drop i xs)"
  using take_add [of i "j - i" xs] by simp

lemma takeWhile_Nil_iff: "takeWhile P xs = [] \<longleftrightarrow> (xs = [] \<or> \<not> P (hd xs))"
  by (cases xs) auto

lemma length_dropWhile_less_Cons: "length (dropWhile P xs) < Suc (length xs)"
  by (simp add: length_dropWhile_le le_imp_less_Suc)

lemma length_takeWhile_less: "\<exists>x \<in> set xs. \<not> P x \<Longrightarrow> length (takeWhile P xs) < length xs"
  by (induction xs) auto

lemma list_all2_map_eq:
  "list_all2 (\<lambda>x y. P y \<and> f y = g x) xs ys \<Longrightarrow>
     map f ys = map g xs \<and> (\<forall>y \<in> set ys. P y) \<and> (xs \<noteq> [] \<longrightarrow> ys \<noteq> [])"
  by (induction rule: list_all2_induct) auto

lemma list_all2_member: "list_all2 P xs ys \<Longrightarrow> y \<in> set ys \<Longrightarrow> \<exists>x. P x y"
  by (induction rule: list_all2_induct) auto

end
