(* ===== verification/Io_Stream.thy ===== *)
theory Io_Stream
  imports Octo_Prelude
begin

text \<open>
  Byte streams: what the program uses of \<open>std::io::Read\<close> and \<open>std::io::Write\<close>.

  A reader is the list of what its calls of \<open>read\<close> will find: a piece of data, or an error. One
  call takes at most one piece, and at most as many bytes as the buffer holds, so short reads are
  part of the model and a theorem about all readers is a theorem about all ways to cut the input
  into pieces. A call on an exhausted reader returns no bytes, as at the end of a file.

  A writer is any state with a \<open>write_all\<close>; the locale \<open>byte_sink\<close> is the contract the program's
  own writers meet (\<open>MemStream\<close>, \<open>Vec<u8>\<close>): what is written is appended.
\<close>

section \<open>Readers\<close>

datatype read_event = Data bytes | Fail failure

type_synonym reader = "read_event list"

fun reader_read :: "nat \<Rightarrow> reader \<Rightarrow> (bytes \<times> reader) result" where
  "reader_read n [] = Inr ([], [])"
| "reader_read n (Fail e # r) = Inl e"
| "reader_read n (Data d # r) =
     Inr (take n d, if length d \<le> n then r else Data (drop n d) # r)"

fun event_bytes :: "read_event \<Rightarrow> bytes" where
  "event_bytes (Data d) = d"
| "event_bytes (Fail e) = []"

definition reader_bytes :: "reader \<Rightarrow> bytes" where
  "reader_bytes r = concat (map event_bytes r)"

text \<open>A clean reader delivers data until its end: no errors, no empty piece before the end.\<close>

definition clean_event :: "read_event \<Rightarrow> bool" where
  "clean_event e = (case e of Data d \<Rightarrow> d \<noteq> [] | Fail _ \<Rightarrow> False)"

definition clean_reader :: "reader \<Rightarrow> bool" where
  "clean_reader r = list_all clean_event r"

lemma reader_bytes_simps [simp, stream_simps]:
  "reader_bytes [] = []"
  "reader_bytes (Data d # r) = d @ reader_bytes r"
  "reader_bytes (Fail e # r) = reader_bytes r"
  by (simp_all add: reader_bytes_def)

lemma clean_reader_simps [simp]:
  "clean_reader []"
  "clean_reader (Data d # r) \<longleftrightarrow> d \<noteq> [] \<and> clean_reader r"
  "\<not> clean_reader (Fail e # r)"
  by (simp_all add: clean_reader_def clean_event_def)

lemma reader_read_bytes:
  "reader_read n r = Inr (d, r') \<Longrightarrow> reader_bytes r = d @ reader_bytes r'"
  by (cases "(n, r)" rule: reader_read.cases) (auto split: if_splits)

lemma reader_read_length: "reader_read n r = Inr (d, r') \<Longrightarrow> length d \<le> n"
  by (cases "(n, r)" rule: reader_read.cases) auto

lemma reader_read_clean:
  assumes "clean_reader r" "0 < n"
  shows "\<exists>d r'. reader_read n r = Inr (d, r') \<and> clean_reader r' \<and> (d = [] \<longleftrightarrow> reader_bytes r = [])"
  using assms by (cases "(n, r)" rule: reader_read.cases) auto

lemma clean_reader_bytes_Nil: "clean_reader r \<Longrightarrow> reader_bytes r = [] \<longleftrightarrow> r = []"
  by (cases "(0::nat, r)" rule: reader_read.cases) auto

section \<open>Writers\<close>

locale byte_sink =
  fixes wr :: "'w \<Rightarrow> bytes \<Rightarrow> 'w result"
    and contents :: "'w \<Rightarrow> bytes"
    and invar :: "'w \<Rightarrow> bool"
  assumes wr_ok: "invar w \<Longrightarrow> \<exists>w'. wr w b = Inr w'"
    and wr_contents: "invar w \<Longrightarrow> wr w b = Inr w' \<Longrightarrow> contents w' = contents w @ b"
    and wr_invar: "invar w \<Longrightarrow> wr w b = Inr w' \<Longrightarrow> invar w'"
begin

lemma wrE:
  assumes "invar w"
  obtains w' where "wr w b = Inr w'" "invar w'" "contents w' = contents w @ b"
  using assms wr_ok wr_contents wr_invar by blast

end

text \<open>\<open>impl Write for Vec<u8>\<close>: writing appends and never fails.\<close>

definition vec_write :: "bytes \<Rightarrow> bytes \<Rightarrow> bytes result" where
  "vec_write v b = Inr (v @ b)"

interpretation vec_sink: byte_sink vec_write "\<lambda>v. v" "\<lambda>_. True"
  by unfold_locales (auto simp: vec_write_def)

text \<open>Writing a list of slices one after the other.\<close>

fun write_each :: "('w \<Rightarrow> bytes \<Rightarrow> 'w result) \<Rightarrow> bytes list \<Rightarrow> 'w \<Rightarrow> 'w result" where
  "write_each wr [] w = Inr w"
| "write_each wr (b # bs) w = rbind (wr w b) (write_each wr bs)"

context byte_sink
begin

lemma write_each_ok:
  "invar w \<Longrightarrow> \<exists>w'. write_each wr bs w = Inr w' \<and> invar w' \<and> contents w' = contents w @ concat bs"
proof (induction bs arbitrary: w)
  case Nil
  then show ?case by simp
next
  case (Cons b bs)
  obtain w1 where w1: "wr w b = Inr w1" "invar w1" "contents w1 = contents w @ b"
    using Cons.prems by (rule wrE)
  with Cons.IH [OF w1(2)] show ?case by auto
qed

end

end
