(* ===== verification/Postprocess.thy ===== *)
theory Postprocess
  imports Io_Stream
begin

text \<open>
  \<open>src/vs/postprocess.rs\<close>: the scanner that cuts the precompiled header part off a preprocessed
  source. It works on a buffer of \<open>BUF_SIZE\<close> bytes that is refilled from the reader; three pointers
  into the buffer mark what is already copied to the output, what is scanned, and where the data
  ends. Here \<open>sc_buf\<close> is the filled part of the buffer (nothing behind \<open>ptr_end\<close> is ever read) and
  the pointers are offsets into it. \<open>wr\<close> is the writer's \<open>write_all\<close>.

  This theory holds the code: the scanner state, one definition per method in the order of the
  source, and the facts on its measure that the termination of the loops needs. The theory
  \<open>Postprocess_Correct\<close> states what it computes.
\<close>

section \<open>Errors\<close>

datatype postprocess_error =
    LiteralEol | LiteralEof | LiteralTooLong | EscapeEof | MarkerNotFound | InvalidLiteral | TokenTooLong

fun pp_display :: "postprocess_error \<Rightarrow> string" where
  "pp_display LiteralEol = ''unexpected end of line in literal''"
| "pp_display LiteralEof = ''unexpected end of stream in literal''"
| "pp_display LiteralTooLong = ''literal too long''"
| "pp_display EscapeEof = ''unexpected end of escape sequence''"
| "pp_display MarkerNotFound = ''can't find precompiled header marker in preprocessed file''"
| "pp_display InvalidLiteral = ''can't create string from literal''"
| "pp_display TokenTooLong = ''token too long''"

declare pp_display.simps [simp del]

definition pp_error :: "postprocess_error \<Rightarrow> failure" where
  "pp_error e = IoError InvalidInput (pp_display e)"

section \<open>Bytes\<close>

abbreviation b_tab :: byte where "b_tab \<equiv> 9"
abbreviation b_nl :: byte where "b_nl \<equiv> 10"
abbreviation b_ff :: byte where "b_ff \<equiv> 12"
abbreviation b_cr :: byte where "b_cr \<equiv> 13"
abbreviation b_space :: byte where "b_space \<equiv> 32"
abbreviation b_hash :: byte where "b_hash \<equiv> 35"
abbreviation b_slash :: byte where "b_slash \<equiv> 47"
abbreviation b_backslash :: byte where "b_backslash \<equiv> 92"

definition is_space :: "byte \<Rightarrow> bool" where
  "is_space c \<longleftrightarrow> c = b_space \<or> c = b_tab \<or> c = b_ff"

definition is_empty_char :: "byte \<Rightarrow> bool" where
  "is_empty_char c \<longleftrightarrow> is_space c \<or> c = b_nl \<or> c = b_cr"

text \<open>\<open>b'a'..=b'z' | b'A'..=b'Z' | b'0'..=b'9' | b'_'\<close>\<close>

definition is_token_char :: "byte \<Rightarrow> bool" where
  "is_token_char c \<longleftrightarrow> (97 \<le> c \<and> c \<le> 122) \<or> (65 \<le> c \<and> c \<le> 90) \<or> (48 \<le> c \<and> c \<le> 57) \<or> c = 95"

definition to_lower_byte :: "byte \<Rightarrow> byte" where
  "to_lower_byte c = (if 65 \<le> c \<and> c \<le> 90 then c + 32 else c)"

definition eq_ignore_case :: "bytes \<Rightarrow> bytes \<Rightarrow> bool" where
  "eq_ignore_case xs ys \<longleftrightarrow> map to_lower_byte xs = map to_lower_byte ys"

text \<open>A write into a fixed array at the next free index, which panics out of range.\<close>

definition arr_push :: "nat \<Rightarrow> bytes \<Rightarrow> byte \<Rightarrow> bytes result" where
  "arr_push cap xs c = (if length xs < cap then Inr (xs @ [c]) else Inl (Panic ''index out of bounds''))"

definition slice :: "'a list \<Rightarrow> nat \<Rightarrow> nat \<Rightarrow> 'a list" where
  "slice xs i j = take (j - i) (drop i xs)"

section \<open>State\<close>

definition BUF_SIZE :: nat where
  "BUF_SIZE = 0x10000"

lemma BUF_SIZE_pos [simp]: "0 < BUF_SIZE"
  by (simp add: BUF_SIZE_def)

record 'w scanner =
  sc_buf :: bytes
  ptr_copy :: nat
  ptr_read :: nat
  ptr_end :: nat
  sc_reader :: reader
  sc_writer :: 'w
  sc_keep :: bool
  sc_marker :: "bytes option"
  sc_utf8 :: bool
  header_found :: bool
  entry_file :: "bytes option"
  sc_done :: bool

section \<open>Buffer\<close>

definition sc_flush :: "('w \<Rightarrow> bytes \<Rightarrow> 'w result) \<Rightarrow> 'w scanner \<Rightarrow> (unit \<times> 'w scanner) result" where
  "sc_flush wr s =
     (if ptr_copy s \<noteq> ptr_read s then
        (if sc_keep s then
           rbind (wr (sc_writer s) (slice (sc_buf s) (ptr_copy s) (ptr_read s)))
             (\<lambda>w. Inr ((), s\<lparr>sc_writer := w, ptr_copy := ptr_read s\<rparr>))
         else Inr ((), s\<lparr>ptr_copy := ptr_read s\<rparr>))
      else Inr ((), s))"

definition sc_write :: "('w \<Rightarrow> bytes \<Rightarrow> 'w result) \<Rightarrow> bytes \<Rightarrow> 'w scanner \<Rightarrow> (unit \<times> 'w scanner) result" where
  "sc_write wr data =
     sbind (sc_flush wr) (\<lambda>_ s. rbind (wr (sc_writer s) data) (\<lambda>w. Inr ((), s\<lparr>sc_writer := w\<rparr>)))"

definition sc_read :: "('w \<Rightarrow> bytes \<Rightarrow> 'w result) \<Rightarrow> 'w scanner \<Rightarrow> (bool \<times> 'w scanner) result" where
  "sc_read wr =
     sbind (sc_flush wr) (\<lambda>_ s. rbind (reader_read BUF_SIZE (sc_reader s)) (\<lambda>(d, r).
       Inr (length d \<noteq> 0,
         s\<lparr>sc_buf := d, ptr_read := 0, ptr_copy := 0, ptr_end := length d, sc_reader := r\<rparr>)))"

definition sc_cur :: "'w scanner \<Rightarrow> byte" where
  "sc_cur s = sc_buf s ! ptr_read s"

definition sc_peek :: "('w \<Rightarrow> bytes \<Rightarrow> 'w result) \<Rightarrow> 'w scanner \<Rightarrow> (byte option \<times> 'w scanner) result" where
  "sc_peek wr s =
     (if ptr_read s < ptr_end s then Inr (Some (sc_cur s), s)
      else rbind (sc_read wr s) (\<lambda>(got, s'). Inr (if got then Some (sc_cur s') else None, s')))"

definition sc_next :: "'w scanner \<Rightarrow> 'w scanner" where
  "sc_next s = s\<lparr>ptr_read := ptr_read s + 1\<rparr>"

text \<open>The loops stop because every refill moves at least one byte from the reader to the buffer.\<close>

definition sc_measure :: "'w scanner \<Rightarrow> nat" where
  "sc_measure s = 2 * length (reader_bytes (sc_reader s)) + (ptr_end s - ptr_read s)"

lemma sc_flush_frame:
  "sc_flush wr s = Inr (x, s') \<Longrightarrow>
     sc_buf s' = sc_buf s \<and> ptr_read s' = ptr_read s \<and> ptr_end s' = ptr_end s \<and> sc_reader s' = sc_reader s"
  by (auto simp: sc_flush_def result_simps split: if_splits)

lemma sc_read_measure:
  assumes "sc_read wr s = Inr (got, s')"
  shows "sc_measure s' + (if got then 1 else 0) \<le> 2 * length (reader_bytes (sc_reader s))"
proof -
  from assms obtain s1 d r where f: "sc_flush wr s = Inr ((), s1)"
    and r: "reader_read BUF_SIZE (sc_reader s1) = Inr (d, r)"
    and s': "s' = s1\<lparr>sc_buf := d, ptr_read := 0, ptr_copy := 0, ptr_end := length d, sc_reader := r\<rparr>"
    and got: "got = (length d \<noteq> 0)"
    by (auto simp: sc_read_def result_simps)
  have "reader_bytes (sc_reader s) = d @ reader_bytes r"
    using reader_read_bytes [OF r] sc_flush_frame [OF f] by simp
  with s' got show ?thesis by (cases d) (simp_all add: sc_measure_def)
qed

lemma sc_read_more: "sc_read wr s = Inr (got, s') \<Longrightarrow> got \<longleftrightarrow> ptr_read s' < ptr_end s'"
  by (auto simp: sc_read_def result_simps)

lemma sc_next_measure: "ptr_read s < ptr_end s \<Longrightarrow> sc_measure (sc_next s) < sc_measure s"
  by (simp add: sc_measure_def sc_next_def)

lemma sc_measure_reader: "2 * length (reader_bytes (sc_reader s)) \<le> sc_measure s"
  by (simp add: sc_measure_def)

lemma sc_read_measure_less:
  "sc_read wr s = Inr (True, s') \<Longrightarrow> sc_measure s' < sc_measure s"
  using sc_read_measure [of wr s True s'] sc_measure_reader [of s] by simp

lemma sc_read_measure_le: "sc_read wr s = Inr (got, s') \<Longrightarrow> sc_measure s' \<le> sc_measure s"
  using sc_read_measure [of wr s got s'] sc_measure_reader [of s] by simp

lemma sc_peek_measure:
  "sc_peek wr s = Inr (c, s') \<Longrightarrow> sc_measure s' \<le> sc_measure s \<and> (c \<noteq> None \<longrightarrow> ptr_read s' < ptr_end s')"
  by (auto simp: sc_peek_def result_simps dest: sc_read_measure_le sc_read_more split: if_splits)

lemma sc_read_measure_fst:
  "sc_read wr s = Inr r \<Longrightarrow>
     sc_measure (snd r) + (if fst r then 1 else 0) \<le> 2 * length (reader_bytes (sc_reader s))"
  using sc_read_measure [of wr s "fst r" "snd r"] by simp

text \<open>The rest of the input, read and written to the end after the header is done.\<close>

function copy_rest :: "('w \<Rightarrow> bytes \<Rightarrow> 'w result) \<Rightarrow> reader \<Rightarrow> 'w \<Rightarrow> 'w result" where
  "copy_rest wr r w =
     rbind (reader_read BUF_SIZE r) (\<lambda>x.
       if fst x = [] then Inr w
       else rbind (wr w (fst x)) (\<lambda>w'. copy_rest wr (snd x) w'))"
  by pat_completeness auto
termination
  by (relation "measure (\<lambda>(wr, r, w). length (reader_bytes r))") (auto dest: reader_read_bytes)

declare copy_rest.simps [simp del]

definition copy_to_end :: "('w \<Rightarrow> bytes \<Rightarrow> 'w result) \<Rightarrow> 'w scanner \<Rightarrow> 'w result" where
  "copy_to_end wr s =
     rbind (wr (sc_writer s) (slice (sc_buf s) (ptr_copy s) (ptr_end s)))
       (copy_rest wr (sc_reader s))"

section \<open>Skipping and matching\<close>

text \<open>The common loop of \<open>parse_spaces\<close> and \<open>parse_empty\<close>. The code compares \<open>ptr_read != ptr_end\<close>;
  \<open>ptr_read\<close> never passes \<open>ptr_end\<close>, so this is \<open>ptr_read < ptr_end\<close>.\<close>

function skip_class ::
    "(byte \<Rightarrow> bool) \<Rightarrow> ('w \<Rightarrow> bytes \<Rightarrow> 'w result) \<Rightarrow> 'w scanner \<Rightarrow> (unit \<times> 'w scanner) result" where
  "skip_class P wr s =
     (if ptr_read s < ptr_end s then
        (if P (sc_cur s) then skip_class P wr (sc_next s) else Inr ((), s))
      else rbind (sc_read wr s) (\<lambda>r. if fst r then skip_class P wr (snd r) else Inr ((), snd r)))"
  by pat_completeness auto
termination
  by (relation "measure (\<lambda>(P, wr, s). sc_measure s)")
    (auto dest: sc_read_measure_less sc_next_measure)

declare skip_class.simps [simp del]

definition parse_spaces :: "('w \<Rightarrow> bytes \<Rightarrow> 'w result) \<Rightarrow> 'w scanner \<Rightarrow> (unit \<times> 'w scanner) result" where
  "parse_spaces wr = skip_class is_space wr"

definition parse_empty :: "('w \<Rightarrow> bytes \<Rightarrow> 'w result) \<Rightarrow> 'w scanner \<Rightarrow> (unit \<times> 'w scanner) result" where
  "parse_empty wr = skip_class is_empty_char wr"

text \<open>\<open>memchr\<close> for a line feed between \<open>ptr_read\<close> and \<open>ptr_end\<close>: its offset in the buffer.\<close>

definition memchr_nl :: "'w scanner \<Rightarrow> nat option" where
  "memchr_nl s =
     (let t = slice (sc_buf s) (ptr_read s) (ptr_end s);
          n = length (takeWhile (\<lambda>c. c \<noteq> b_nl) t)
      in if n < length t then Some (ptr_read s + n) else None)"

function next_line :: "('w \<Rightarrow> bytes \<Rightarrow> 'w result) \<Rightarrow> 'w scanner \<Rightarrow> (unit \<times> 'w scanner) result" where
  "next_line wr s =
     (case memchr_nl s of
        Some e \<Rightarrow> Inr ((), s\<lparr>ptr_read := e + 1\<rparr>)
      | None \<Rightarrow> rbind (sc_read wr (s\<lparr>ptr_read := ptr_end s\<rparr>))
                  (\<lambda>r. if fst r then next_line wr (snd r) else Inr ((), snd r)))"
  by pat_completeness auto

lemma sc_read_end_measure:
  "sc_read wr (s\<lparr>ptr_read := ptr_end s\<rparr>) = Inr (got, s') \<Longrightarrow>
     sc_measure s' + (if got then 1 else 0) \<le> 2 * length (reader_bytes (sc_reader s))"
  by (drule sc_read_measure) simp

lemma sc_read_end_measure_less:
  "sc_read wr (s\<lparr>ptr_read := ptr_end s\<rparr>) = Inr (True, s') \<Longrightarrow> sc_measure s' < sc_measure s"
  using sc_read_end_measure [of wr s True s'] sc_measure_reader [of s] by simp

termination next_line
  by (relation "measure (\<lambda>(wr, s). sc_measure s)") (auto dest: sc_read_end_measure_less)

declare next_line.simps [simp del]

text \<open>\<open>next_line_eol\<close>: as \<open>next_line\<close>, and the line end found. \<open>last\<close> is the byte before the one
  searched for, kept across refills.\<close>

function next_line_eol_loop ::
    "('w \<Rightarrow> bytes \<Rightarrow> 'w result) \<Rightarrow> byte \<Rightarrow> 'w scanner \<Rightarrow> (bytes \<times> 'w scanner) result" where
  "next_line_eol_loop wr prev s =
     (case memchr_nl s of
        Some e \<Rightarrow>
          let prev' = (if e \<noteq> 0 then sc_buf s ! (e - 1) else prev)
          in Inr (if prev' = b_cr then [b_cr, b_nl] else [b_nl], s\<lparr>ptr_read := e + 1\<rparr>)
      | None \<Rightarrow>
          let prev' = (if ptr_end s \<noteq> 0 then sc_buf s ! (ptr_end s - 1) else 0)
          in rbind (sc_read wr (s\<lparr>ptr_read := ptr_end s\<rparr>))
               (\<lambda>r. if fst r then next_line_eol_loop wr prev' (snd r) else Inr ([], snd r)))"
  by pat_completeness auto
termination
  by (relation "measure (\<lambda>(wr, prev, s). sc_measure s)") (auto dest: sc_read_end_measure_less)

declare next_line_eol_loop.simps [simp del]

definition next_line_eol :: "('w \<Rightarrow> bytes \<Rightarrow> 'w result) \<Rightarrow> 'w scanner \<Rightarrow> (bytes \<times> 'w scanner) result" where
  "next_line_eol wr = next_line_eol_loop wr 0"

text \<open>\<open>parse_token\<close> into an array of \<open>cap\<close> zero bytes, of which \<open>token\<close> is filled. At the end of the
  stream the code returns the whole array, the unfilled zero bytes included.\<close>

function parse_token_loop ::
    "('w \<Rightarrow> bytes \<Rightarrow> 'w result) \<Rightarrow> nat \<Rightarrow> bytes \<Rightarrow> 'w scanner \<Rightarrow> (bytes \<times> 'w scanner) result" where
  "parse_token_loop wr cap token s =
     (if ptr_read s < ptr_end s then
        (if is_token_char (sc_cur s) then
           (if cap \<le> length token then Inl (pp_error TokenTooLong)
            else parse_token_loop wr cap (token @ [sc_cur s]) (sc_next s))
         else Inr (token, s))
      else rbind (sc_read wr s)
             (\<lambda>r. if fst r then parse_token_loop wr cap token (snd r)
                  else Inr (token @ replicate (cap - length token) 0, snd r)))"
  by pat_completeness auto
termination
  by (relation "measure (\<lambda>(wr, cap, token, s). sc_measure s)")
    (auto dest: sc_read_measure_less sc_next_measure)

declare parse_token_loop.simps [simp del]

definition parse_token ::
    "('w \<Rightarrow> bytes \<Rightarrow> 'w result) \<Rightarrow> nat \<Rightarrow> 'w scanner \<Rightarrow> (bytes \<times> 'w scanner) result" where
  "parse_token wr cap = parse_token_loop wr cap []"

section \<open>Paths\<close>

definition unescape :: "byte \<Rightarrow> byte" where
  "unescape c = (if c = 110 then b_nl else if c = 114 then b_cr else if c = 116 then b_tab else c)"

definition parse_escape :: "('w \<Rightarrow> bytes \<Rightarrow> 'w result) \<Rightarrow> 'w scanner \<Rightarrow> (byte \<times> 'w scanner) result" where
  "parse_escape wr s =
     rbind (sc_peek wr (sc_next s)) (\<lambda>(p, s1). case p of
         Some c \<Rightarrow> Inr (unescape c, sc_next s1)
       | None \<Rightarrow> Inl (pp_error EscapeEof))"

lemma parse_escape_measure:
  assumes "parse_escape wr s = Inr (c, s')" "ptr_read s < ptr_end s"
  shows "sc_measure s' < sc_measure s"
proof -
  from assms(1) obtain c' s1 where p: "sc_peek wr (sc_next s) = Inr (Some c', s1)" "s' = sc_next s1"
    by (auto simp: parse_escape_def result_simps split: option.splits)
  with sc_peek_measure [OF p(1)] sc_next_measure [of s1] sc_next_measure [OF assms(2)]
  show ?thesis by simp
qed

definition PATH_SIZE :: nat where
  "PATH_SIZE = 0x400"

text \<open>The check at the end of the loop body of \<open>parse_path\<close>.\<close>

definition path_too_long :: "bytes \<Rightarrow> bytes \<Rightarrow> bool" where
  "path_too_long token raw \<longleftrightarrow> PATH_SIZE - 2 \<le> length raw \<or> PATH_SIZE - 1 \<le> length token"

function parse_path_loop ::
    "('w \<Rightarrow> bytes \<Rightarrow> 'w result) \<Rightarrow> byte \<Rightarrow> bytes \<Rightarrow> bytes \<Rightarrow> 'w scanner \<Rightarrow> ((bytes \<times> bytes) \<times> 'w scanner) result" where
  "parse_path_loop wr quote token raw s =
     (if ptr_read s < ptr_end s then
        (let c = sc_cur s in
         if c = b_nl \<or> c = b_cr then Inl (pp_error LiteralEol)
         else if c = b_backslash then
           rbind (arr_push PATH_SIZE raw b_backslash) (\<lambda>raw1.
           rbind (arr_push PATH_SIZE raw1 c) (\<lambda>raw2.
           rbind (parse_escape wr s) (\<lambda>v.
           rbind (arr_push PATH_SIZE token (if fst v = b_backslash then b_slash else fst v)) (\<lambda>token1.
             if path_too_long token1 raw2 then Inl (pp_error LiteralTooLong)
             else parse_path_loop wr quote token1 raw2 (snd v)))))
         else
           rbind (arr_push PATH_SIZE raw c) (\<lambda>raw1.
             if c = quote then Inr ((token, raw1), sc_next s)
             else rbind (arr_push PATH_SIZE token c) (\<lambda>token1.
               if path_too_long token1 raw1 then Inl (pp_error LiteralTooLong)
               else parse_path_loop wr quote token1 raw1 (sc_next s))))
      else rbind (sc_read wr s)
             (\<lambda>r. if fst r then parse_path_loop wr quote token raw (snd r)
                  else Inl (pp_error LiteralEof)))"
  by pat_completeness auto
termination
  by (relation "measure (\<lambda>(wr, quote, token, raw, s). sc_measure s)")
    (auto dest: sc_read_measure_less sc_next_measure parse_escape_measure)

declare parse_path_loop.simps [simp del]

definition parse_path :: "('w \<Rightarrow> bytes \<Rightarrow> 'w result) \<Rightarrow> 'w scanner \<Rightarrow> ((bytes \<times> bytes) \<times> 'w scanner) result" where
  "parse_path wr =
     sbind (sc_peek wr) (\<lambda>p s. case p of
         None \<Rightarrow> Inl (Panic ''called Option::unwrap() on a None value'')
       | Some quote \<Rightarrow> rbind (arr_push PATH_SIZE [] quote) (\<lambda>raw. parse_path_loop wr quote [] raw (sc_next s)))"

section \<open>Directives\<close>

definition is_subpath :: "bytes \<Rightarrow> bytes \<Rightarrow> bool" where
  "is_subpath parent child \<longleftrightarrow>
     (if length parent < length child then False
      else if length parent \<noteq> length child \<and> parent ! (length parent - length child - 1) \<noteq> b_slash then False
      else eq_ignore_case child (drop (length parent - length child) parent))"

text \<open>The lines written where the precompiled header ends.\<close>

definition hdrstop_mark :: "bytes \<Rightarrow> bytes \<Rightarrow> bytes \<Rightarrow> bytes" where
  "hdrstop_mark line raw eol =
     ascii ''#pragma hdrstop'' @ eol @ ascii ''#line '' @ line @ ascii '' '' @ raw @ eol"

text \<open>The second half of \<open>parse_directive_line\<close>, once the directive is read.\<close>

definition line_update ::
    "('w \<Rightarrow> bytes \<Rightarrow> 'w result) \<Rightarrow> bytes \<Rightarrow> bytes \<Rightarrow> bytes \<Rightarrow> bytes \<Rightarrow> 'w scanner \<Rightarrow> (unit \<times> 'w scanner) result" where
  "line_update wr line file raw eol s =
     (case entry_file s of
        None \<Rightarrow> Inr ((), s\<lparr>entry_file := Some file\<rparr>)
      | Some path \<Rightarrow>
          rbind (if header_found s \<and> path = file
                 then sc_write wr (hdrstop_mark line raw eol) (s\<lparr>entry_file := None, sc_done := True\<rparr>)
                 else Inr ((), s\<lparr>entry_file := None\<rparr>))
            (\<lambda>r. let s1 = snd r in
               Inr ((), (case sc_marker s1 of
                           Some m \<Rightarrow> if is_subpath file m then s1\<lparr>header_found := True\<rparr> else s1
                         | None \<Rightarrow> s1)\<lparr>entry_file := Some path\<rparr>)))"

definition parse_directive_line ::
    "('w \<Rightarrow> bytes \<Rightarrow> 'w result) \<Rightarrow> 'w scanner \<Rightarrow> (unit \<times> 'w scanner) result" where
  "parse_directive_line wr =
     sbind (parse_spaces wr) (\<lambda>_.
     sbind (parse_token wr 0x10) (\<lambda>line.
     sbind (parse_spaces wr) (\<lambda>_.
     sbind (parse_path wr) (\<lambda>(file, raw).
     sbind (next_line_eol wr) (\<lambda>eol.
       line_update wr line file raw eol)))))"

definition parse_directive_pragma ::
    "('w \<Rightarrow> bytes \<Rightarrow> 'w result) \<Rightarrow> 'w scanner \<Rightarrow> (unit \<times> 'w scanner) result" where
  "parse_directive_pragma wr =
     sbind (parse_spaces wr) (\<lambda>_.
     sbind (parse_token wr 0x20) (\<lambda>token.
       if token = ascii ''hdrstop'' then
         (\<lambda>s. rbind (if \<not> sc_keep s then sc_write wr (ascii ''#pragma hdrstop'') s else Inr ((), s))
                (\<lambda>r. Inr ((), (snd r)\<lparr>sc_done := True\<rparr>)))
       else next_line wr))"

definition parse_directive ::
    "('w \<Rightarrow> bytes \<Rightarrow> 'w result) \<Rightarrow> 'w scanner \<Rightarrow> (unit \<times> 'w scanner) result" where
  "parse_directive wr =
     sbind (parse_spaces wr) (\<lambda>_.
     sbind (parse_token wr 0x10) (\<lambda>token.
       if token = ascii ''line'' then parse_directive_line wr
       else if token = ascii ''pragma'' then parse_directive_pragma wr
       else next_line wr))"

definition parse_line :: "('w \<Rightarrow> bytes \<Rightarrow> 'w result) \<Rightarrow> 'w scanner \<Rightarrow> (unit \<times> 'w scanner) result" where
  "parse_line wr =
     sbind (parse_empty wr) (\<lambda>_.
     sbind (sc_peek wr) (\<lambda>p. case p of
         Some c \<Rightarrow> if c = b_hash then (\<lambda>s. parse_directive wr (sc_next s)) else next_line wr
       | None \<Rightarrow> sret ()))"

text \<open>\<open>parse_bom\<close> consumes as much of the byte order mark as is there.\<close>

fun parse_bom_loop :: "('w \<Rightarrow> bytes \<Rightarrow> 'w result) \<Rightarrow> bytes \<Rightarrow> 'w scanner \<Rightarrow> (unit \<times> 'w scanner) result" where
  "parse_bom_loop wr [] s = Inr ((), s\<lparr>sc_utf8 := True\<rparr>)"
| "parse_bom_loop wr (bom_char # bom) s =
     rbind (sc_peek wr s) (\<lambda>(p, s1). case p of
         Some c \<Rightarrow> if c = bom_char then parse_bom_loop wr bom (sc_next s1) else Inr ((), s1)
       | None \<Rightarrow> Inr ((), s1))"

definition parse_bom :: "('w \<Rightarrow> bytes \<Rightarrow> 'w result) \<Rightarrow> 'w scanner \<Rightarrow> (unit \<times> 'w scanner) result" where
  "parse_bom wr = parse_bom_loop wr [0xEF, 0xBB, 0xBF]"

section \<open>Progress of the line loop\<close>

definition measure_le :: "('w scanner \<Rightarrow> ('a \<times> 'w scanner) result) \<Rightarrow> bool" where
  "measure_le m \<longleftrightarrow> (\<forall>s x s'. m s = Inr (x, s') \<longrightarrow> sc_measure s' \<le> sc_measure s)"

named_theorems scan_measure \<open>scanner operations never lengthen what is left to scan\<close>

lemma measure_leI: "(\<And>s x s'. m s = Inr (x, s') \<Longrightarrow> sc_measure s' \<le> sc_measure s) \<Longrightarrow> measure_le m"
  by (auto simp: measure_le_def)

lemma measure_leD: "measure_le m \<Longrightarrow> m s = Inr (x, s') \<Longrightarrow> sc_measure s' \<le> sc_measure s"
  by (auto simp: measure_le_def)

lemma measure_le_sbind [scan_measure]:
  assumes "measure_le m" "\<And>x. measure_le (f x)"
  shows "measure_le (sbind m f)"
proof (rule measure_leI)
  fix s y s' assume "sbind m f s = Inr (y, s')"
  then obtain x s1 where "m s = Inr (x, s1)" "f x s1 = Inr (y, s')" by (auto simp: sbind_eq_Inr)
  with measure_leD [OF assms(1)] measure_leD [OF assms(2)] show "sc_measure s' \<le> sc_measure s"
    by (meson order_trans)
qed

lemma measure_le_sret [scan_measure]: "measure_le (sret x)"
  by (auto simp: measure_le_def)

lemma measure_le_flush [scan_measure]: "measure_le (sc_flush wr)"
  by (rule measure_leI) (auto dest: sc_flush_frame simp: sc_measure_def)

lemma measure_le_write [scan_measure]: "measure_le (sc_write wr d)"
  unfolding sc_write_def
  by (intro scan_measure) (auto simp: measure_le_def result_simps sc_measure_def)

lemma measure_le_peek [scan_measure]: "measure_le (sc_peek wr)"
  by (rule measure_leI) (auto dest: sc_peek_measure)

lemma skip_class_measure:
  "skip_class P wr s = Inr (x, s') \<Longrightarrow>
     sc_measure s' \<le> sc_measure s \<and> (s' = s \<and> ptr_read s < ptr_end s \<or> sc_measure s' < sc_measure s \<or> ptr_end s \<le> ptr_read s)"
proof (induction P wr s rule: skip_class.induct)
  case (1 P wr s)
  show ?case
  proof (cases "ptr_read s < ptr_end s")
    case True
    then show ?thesis
      using 1 sc_next_measure [OF True]
      by (fastforce simp: skip_class.simps [of P wr s] split: if_splits)
  next
    case False
    with "1.prems" obtain r where r: "sc_read wr s = Inr r"
      "(if fst r then skip_class P wr (snd r) else Inr ((), snd r)) = Inr (x, s')"
      by (auto simp: skip_class.simps [of P wr s] rbind_eq_Inr)
    then show ?thesis
      using "1.IH"(2) [OF False r(1)] False sc_read_measure_fst [OF r(1)] sc_measure_reader [of s]
      by (auto split: if_splits)
  qed
qed

lemma measure_le_skip [scan_measure]: "measure_le (parse_spaces wr)" "measure_le (parse_empty wr)"
  by (auto simp: measure_le_def parse_spaces_def parse_empty_def dest: skip_class_measure)

lemma memchr_nl_bound: "memchr_nl s = Some e \<Longrightarrow> ptr_read s \<le> e \<and> (e < ptr_end s)"
  by (auto simp: memchr_nl_def slice_def Let_def split: if_splits)

lemma next_line_measure:
  "next_line wr s = Inr (x, s') \<Longrightarrow>
     sc_measure s' \<le> sc_measure s \<and> (ptr_read s < ptr_end s \<longrightarrow> sc_measure s' < sc_measure s)"
proof (induction wr s rule: next_line.induct)
  case (1 wr s)
  show ?case
  proof (cases "memchr_nl s")
    case None
    with "1.prems" obtain r where r: "sc_read wr (s\<lparr>ptr_read := ptr_end s\<rparr>) = Inr r"
      "(if fst r then next_line wr (snd r) else Inr ((), snd r)) = Inr (x, s')"
      by (auto simp: next_line.simps [of wr s] rbind_eq_Inr)
    have "sc_measure (snd r) \<le> 2 * length (reader_bytes (sc_reader s))"
      using sc_read_measure_fst [OF r(1)] by simp
    moreover have "sc_measure s' \<le> sc_measure (snd r)"
      using "1.IH" [OF None r(1)] r(2) by (auto split: if_splits)
    ultimately show ?thesis by (auto simp: sc_measure_def)
  next
    case (Some e)
    then show ?thesis
      using "1.prems" memchr_nl_bound [OF Some] by (auto simp: next_line.simps [of wr s] sc_measure_def)
  qed
qed

lemma measure_le_next_line [scan_measure]: "measure_le (next_line wr)"
  by (auto simp: measure_le_def dest: next_line_measure)

lemma next_line_eol_loop_measure:
  "next_line_eol_loop wr prev s = Inr (x, s') \<Longrightarrow> sc_measure s' \<le> sc_measure s"
proof (induction wr prev s rule: next_line_eol_loop.induct)
  case (1 wr prev s)
  show ?case
  proof (cases "memchr_nl s")
    case None
    define prev' where "prev' = (if ptr_end s \<noteq> 0 then sc_buf s ! (ptr_end s - 1) else 0)"
    from None "1.prems" obtain r where r: "sc_read wr (s\<lparr>ptr_read := ptr_end s\<rparr>) = Inr r"
      "(if fst r then next_line_eol_loop wr prev' (snd r) else Inr ([], snd r)) = Inr (x, s')"
      by (auto simp: next_line_eol_loop.simps [of wr prev s] rbind_eq_Inr prev'_def Let_def
          cong del: if_weak_cong)
    have "sc_measure (snd r) \<le> sc_measure s"
      using sc_read_measure_fst [OF r(1)] sc_measure_reader [of s] by simp
    moreover have "sc_measure s' \<le> sc_measure (snd r)"
      using "1.IH" [OF None prev'_def r(1)] r(2) by (auto split: if_splits)
    ultimately show ?thesis by simp
  next
    case (Some e)
    then show ?thesis
      using "1.prems" memchr_nl_bound [OF Some]
      by (auto simp: next_line_eol_loop.simps [of wr prev s] sc_measure_def Let_def)
  qed
qed

lemma measure_le_next_line_eol [scan_measure]: "measure_le (next_line_eol wr)"
  by (auto simp: measure_le_def next_line_eol_def dest: next_line_eol_loop_measure)

lemma parse_token_loop_measure:
  "parse_token_loop wr cap token s = Inr (x, s') \<Longrightarrow> sc_measure s' \<le> sc_measure s"
proof (induction wr cap token s rule: parse_token_loop.induct)
  case (1 wr cap token s)
  show ?case
  proof (cases "ptr_read s < ptr_end s")
    case True
    then show ?thesis
      using 1 sc_next_measure [OF True]
      by (fastforce simp: parse_token_loop.simps [of wr cap token s] split: if_splits)
  next
    case False
    with "1.prems" obtain r where r: "sc_read wr s = Inr r"
      "(if fst r then parse_token_loop wr cap token (snd r)
        else Inr (token @ replicate (cap - length token) 0, snd r)) = Inr (x, s')"
      by (auto simp: parse_token_loop.simps [of wr cap token s] rbind_eq_Inr)
    then show ?thesis
      using "1.IH"(2) [OF False r(1)] sc_read_measure_fst [OF r(1)] sc_measure_reader [of s]
      by (auto split: if_splits)
  qed
qed

lemma measure_le_token [scan_measure]: "measure_le (parse_token wr cap)"
  by (auto simp: measure_le_def parse_token_def dest: parse_token_loop_measure)

lemma parse_path_loop_measure:
  "parse_path_loop wr quote token raw s = Inr (x, s') \<Longrightarrow> sc_measure s' \<le> sc_measure s"
proof (induction wr quote token raw s rule: parse_path_loop.induct)
  case (1 wr quote token raw s)
  show ?case
  proof (cases "ptr_read s < ptr_end s")
    case True
    consider "sc_cur s = b_backslash" | "sc_cur s \<noteq> b_backslash" by blast
    then show ?thesis
    proof cases
      case 1
      with "1.prems" True obtain raw1 raw2 v token1 where *: "arr_push PATH_SIZE raw b_backslash = Inr raw1"
        "arr_push PATH_SIZE raw1 (sc_cur s) = Inr raw2" "parse_escape wr s = Inr v"
        "arr_push PATH_SIZE token (if fst v = b_backslash then b_slash else fst v) = Inr token1"
        "\<not> path_too_long token1 raw2" "parse_path_loop wr quote token1 raw2 (snd v) = Inr (x, s')"
        by (auto simp: parse_path_loop.simps [of wr quote token raw s] rbind_eq_Inr Let_def split: if_splits)
      have "sc_measure (snd v) < sc_measure s"
        using parse_escape_measure [of wr s "fst v" "snd v"] *(3) True by simp
      moreover have "sc_measure s' \<le> sc_measure (snd v)"
        using "1.IH"(1) [OF True refl _ 1 *(1-4) *(5,6)] 1 by simp
      ultimately show ?thesis by simp
    next
      case 2
      with "1.prems" True sc_next_measure [OF True] "1.IH"(2) [OF True refl _ 2] show ?thesis
        by (fastforce simp: parse_path_loop.simps [of wr quote token raw s] rbind_eq_Inr Let_def split: if_splits)
    qed
  next
    case False
    with "1.prems" obtain r where r: "sc_read wr s = Inr r"
      "(if fst r then parse_path_loop wr quote token raw (snd r) else Inl (pp_error LiteralEof)) = Inr (x, s')"
      by (auto simp: parse_path_loop.simps [of wr quote token raw s] rbind_eq_Inr)
    then show ?thesis
      using "1.IH"(3) [OF False r(1)] sc_read_measure_fst [OF r(1)] sc_measure_reader [of s]
      by (auto split: if_splits)
  qed
qed

lemma measure_le_path [scan_measure]: "measure_le (parse_path wr)"
proof (rule measure_leI)
  fix s x s' assume "parse_path wr s = Inr (x, s')"
  then obtain q s1 raw where p: "sc_peek wr s = Inr (Some q, s1)"
    and l: "parse_path_loop wr q [] raw (sc_next s1) = Inr (x, s')"
    by (auto simp: parse_path_def sbind_eq_Inr rbind_eq_Inr split: option.splits)
  have "sc_measure s1 \<le> sc_measure s" "ptr_read s1 < ptr_end s1" using sc_peek_measure [OF p] by auto
  with parse_path_loop_measure [OF l] sc_next_measure [of s1] show "sc_measure s' \<le> sc_measure s" by simp
qed

lemma measure_le_update [scan_measure]: "measure_le (line_update wr line file raw eol)"
proof (rule measure_leI)
  fix s x s' assume *: "line_update wr line file raw eol s = Inr (x, s')"
  have w: "sc_write wr d s1 = Inr r \<Longrightarrow> sc_measure (snd r) \<le> sc_measure s1" for d s1 and r :: "unit \<times> 'a scanner"
    using measure_leD [OF measure_le_write, of wr d s1 "fst r" "snd r"] by (cases r) simp
  show "sc_measure s' \<le> sc_measure s"
  proof (cases "entry_file s")
    case None
    with * show ?thesis by (auto simp: line_update_def sc_measure_def)
  next
    case (Some path)
    with * obtain r where "(if header_found s \<and> path = file
                 then sc_write wr (hdrstop_mark line raw eol) (s\<lparr>entry_file := None, sc_done := True\<rparr>)
                 else Inr ((), s\<lparr>entry_file := None\<rparr>)) = Inr r"
      "sc_measure s' = sc_measure (snd r)"
      by (auto simp: line_update_def rbind_eq_Inr Let_def sc_measure_def split: option.splits if_splits)
    then show ?thesis using w by (fastforce simp: sc_measure_def split: if_splits)
  qed
qed

lemma measure_le_directive [scan_measure]: "measure_le (parse_directive wr)"
proof -
  have line: "measure_le (parse_directive_line wr)"
    unfolding parse_directive_line_def by (intro scan_measure) (auto intro!: scan_measure)
  have "measure_le (\<lambda>s. rbind (if \<not> sc_keep s then sc_write wr (ascii ''#pragma hdrstop'') s else Inr ((), s))
          (\<lambda>r. Inr ((), (snd r)\<lparr>sc_done := True\<rparr>)))"
    by (rule measure_leI)
      (auto simp: rbind_eq_Inr sc_measure_def [of "sc_done_update _ _"] simp flip: sc_measure_def
        split: if_splits dest: measure_leD [OF measure_le_write])
  then have pragma: "measure_le (parse_directive_pragma wr)"
    unfolding parse_directive_pragma_def by (auto intro!: scan_measure)
  show ?thesis
    unfolding parse_directive_def using line pragma by (auto intro!: scan_measure)
qed

lemma parse_line_measure:
  assumes "parse_line wr s = Inr (x, s')" "ptr_read s < ptr_end s"
  shows "sc_measure s' < sc_measure s"
proof -
  from assms(1) obtain s1 p s2 where e: "parse_empty wr s = Inr ((), s1)"
    and p: "sc_peek wr s1 = Inr (p, s2)"
    and r: "(case p of Some c \<Rightarrow> if c = b_hash then (\<lambda>s. parse_directive wr (sc_next s)) else next_line wr
             | None \<Rightarrow> sret ()) s2 = Inr (x, s')"
    by (auto simp: parse_line_def sbind_eq_Inr)
  have e': "sc_measure s1 \<le> sc_measure s"
    "s1 = s \<or> sc_measure s1 < sc_measure s"
    using skip_class_measure [OF e [unfolded parse_empty_def]] assms(2) by auto
  show ?thesis
  proof (cases p)
    case None
    with p r e' assms(2) sc_peek_measure [OF p] show ?thesis
      by (auto simp: sc_peek_def split: if_splits)
  next
    case (Some c)
    then have a: "ptr_read s2 < ptr_end s2" "sc_measure s2 \<le> sc_measure s1"
      using sc_peek_measure [OF p] by auto
    have "sc_measure s' < sc_measure s2"
    proof (cases "c = b_hash")
      case True
      with r Some measure_leD [OF measure_le_directive, of wr "sc_next s2" x s'] sc_next_measure [OF a(1)]
      show ?thesis by simp
    next
      case False
      with r Some next_line_measure [of wr s2 x s'] a(1) show ?thesis by simp
    qed
    with a e' show ?thesis by simp
  qed
qed

section \<open>The filter\<close>

text \<open>The loop of \<open>filter_preprocessed\<close>: \<open>ptr_read == ptr_end && !self.read()?\<close> leaves it.\<close>

definition at_end :: "('w \<Rightarrow> bytes \<Rightarrow> 'w result) \<Rightarrow> 'w scanner \<Rightarrow> (bool \<times> 'w scanner) result" where
  "at_end wr s =
     (if ptr_read s < ptr_end s then Inr (False, s)
      else rbind (sc_read wr s) (\<lambda>r. Inr (\<not> fst r, snd r)))"

lemma at_end_measure:
  "at_end wr s = Inr r \<Longrightarrow> sc_measure (snd r) \<le> sc_measure s \<and> (\<not> fst r \<longrightarrow> ptr_read (snd r) < ptr_end (snd r))"
  by (auto simp: at_end_def rbind_eq_Inr dest: sc_read_measure_le sc_read_more split: if_splits)

lemma at_end_line_measure:
  assumes "at_end wr s = Inr r" "\<not> fst r" "parse_line wr (snd r) = Inr v"
  shows "sc_measure (snd v) < sc_measure s"
  using parse_line_measure [of wr "snd r" "fst v" "snd v"] at_end_measure [OF assms(1)] assms
  by (cases v) simp

function filter_loop :: "('w \<Rightarrow> bytes \<Rightarrow> 'w result) \<Rightarrow> 'w scanner \<Rightarrow> 'w result" where
  "filter_loop wr s =
     rbind (at_end wr s) (\<lambda>r.
       if fst r then Inl (pp_error MarkerNotFound)
       else rbind (parse_line wr (snd r)) (\<lambda>v.
              if sc_done (snd v) then copy_to_end wr (snd v) else filter_loop wr (snd v)))"
  by pat_completeness auto
termination
  by (relation "measure (\<lambda>(wr, s). sc_measure s)") (use at_end_line_measure in \<open>fastforce+\<close>)

declare filter_loop.simps [simp del]

definition scanner_init :: "reader \<Rightarrow> 'w \<Rightarrow> bool \<Rightarrow> 'w scanner" where
  "scanner_init r w keep =
     \<lparr>sc_buf = [], ptr_copy = 0, ptr_read = 0, ptr_end = 0, sc_reader = r, sc_writer = w,
      sc_keep = keep, sc_marker = None, sc_utf8 = False, header_found = False, entry_file = None,
      sc_done = False\<rparr>"

text \<open>\<open>v.replace("\\", "/")\<close>\<close>

definition replace_backslash :: "bytes \<Rightarrow> bytes" where
  "replace_backslash v = map (\<lambda>c. if c = b_backslash then b_slash else c) v"

text \<open>The marker as the scanner compares it. \<open>ansi\<close> is \<open>Encoding::ANSI.to_bytes\<close> of the crate
  \<open>local_encoding\<close>, which is not part of the program.\<close>

definition marker_bytes :: "(bytes \<Rightarrow> bytes result) \<Rightarrow> bool \<Rightarrow> bytes option \<Rightarrow> bytes option result" where
  "marker_bytes ansi utf8 marker =
     (case marker of
        None \<Rightarrow> Inr None
      | Some v \<Rightarrow> if utf8 then Inr (Some v) else rbind (ansi (replace_backslash v)) (\<lambda>b. Inr (Some b)))"

definition filter_preprocessed ::
    "('w \<Rightarrow> bytes \<Rightarrow> 'w result) \<Rightarrow> (bytes \<Rightarrow> bytes result) \<Rightarrow> reader \<Rightarrow> 'w \<Rightarrow> bytes option \<Rightarrow> bool \<Rightarrow> 'w result" where
  "filter_preprocessed wr ansi r w marker keep_headers =
     rbind (parse_bom wr (scanner_init r w keep_headers)) (\<lambda>(_, s).
     rbind (marker_bytes ansi (sc_utf8 s) marker) (\<lambda>m.
       filter_loop wr (s\<lparr>sc_marker := m\<rparr>)))"

end
