(* ===== verification/MemStream.thy ===== *)
theory MemStream
  imports Io_Stream
begin

text \<open>
  \<open>src/io/memstream.rs\<close>: the in-memory stream of fixed-size blocks that holds preprocessed
  sources. The state is the number of bytes written and the queue of blocks; a new block is
  uninitialised memory (\<open>MaybeUninit::uninit().assume_init()\<close>), so its bytes are a parameter
  \<open>junk\<close> of the writing operations and every theorem holds for all of them.

  What is shown: writing appends to the content and never panics, the block slices of the
  iterator concatenate to the content, and a reader delivers the content whatever the sizes of
  the buffers it is asked to fill.
\<close>

section \<open>State\<close>

definition BLOCK_SIZE :: nat where
  "BLOCK_SIZE = 0x10000 - 0x100"

lemma BLOCK_SIZE_pos [simp]: "0 < BLOCK_SIZE"
  by (simp add: BLOCK_SIZE_def)

record mem_stream =
  ms_size :: nat
  ms_blocks :: "bytes list"

definition ms_new :: mem_stream where
  "ms_new = \<lparr>ms_size = 0, ms_blocks = []\<rparr>"

definition ms_len :: "mem_stream \<Rightarrow> nat" where
  "ms_len ms = ms_size ms"

definition ms_is_empty :: "mem_stream \<Rightarrow> bool" where
  "ms_is_empty ms \<longleftrightarrow> ms_size ms = 0"

section \<open>Writing\<close>

text \<open>\<open>memcpy\<close>: it asserts equal lengths and takes the address of the first element of both
  slices, which panics on empty ones. The destination is the slice of \<open>dst\<close> at \<open>off\<close>.\<close>

definition memcpy :: "bytes \<Rightarrow> bytes \<Rightarrow> nat \<Rightarrow> nat \<Rightarrow> bytes result" where
  "memcpy src dst off len =
     (if length dst < off + len then Inl (Panic ''slice index out of range'')
      else if length src \<noteq> len then Inl (Panic ''assertion failed: src.len() == dst.len()'')
      else if src = [] then Inl (Panic ''index out of bounds'')
      else Inr (take off dst @ src @ drop (off + len) dst))"

definition uninit_block :: "(nat \<Rightarrow> byte) \<Rightarrow> bytes" where
  "uninit_block junk = map junk [0..<BLOCK_SIZE]"

text \<open>One iteration of the loop of \<open>write_data\<close>, at source offset \<open>src\<close>.\<close>

definition write_data_step ::
    "(nat \<Rightarrow> byte) \<Rightarrow> bytes \<Rightarrow> nat \<Rightarrow> mem_stream \<Rightarrow> (nat \<times> mem_stream) result" where
  "write_data_step junk buf src ms =
     (let dst = ms_size ms mod BLOCK_SIZE;
          blocks = (if dst = 0 then ms_blocks ms @ [uninit_block junk] else ms_blocks ms)
      in if blocks = [] then Inl (Panic ''called Option::unwrap() on a None value'')
         else let n = min (length buf - src) (BLOCK_SIZE - dst)
              in rbind (memcpy (take n (drop src buf)) (last blocks) dst n)
                   (\<lambda>block. Inr (src + n,
                      ms\<lparr>ms_size := ms_size ms + n, ms_blocks := butlast blocks @ [block]\<rparr>)))"

text \<open>The loop stops because every iteration copies at least one byte.\<close>

lemma write_data_step_progress:
  "write_data_step junk buf src ms = Inr (src', ms') \<Longrightarrow> src < length buf \<Longrightarrow>
     src < src' \<and> src' \<le> length buf"
  by (auto simp: write_data_step_def Let_def result_simps split: if_splits)

function write_data_loop ::
    "(nat \<Rightarrow> byte) \<Rightarrow> bytes \<Rightarrow> nat \<Rightarrow> mem_stream \<Rightarrow> (nat \<times> mem_stream) result" where
  "write_data_loop junk buf src ms =
     (if src < length buf
      then rbind (write_data_step junk buf src ms) (\<lambda>r. write_data_loop junk buf (fst r) (snd r))
      else Inr (src, ms))"
  by pat_completeness auto
termination
  by (relation "measure (\<lambda>(junk, buf, src, ms). length buf - src)")
    (auto dest: write_data_step_progress)

declare write_data_loop.simps [simp del]

definition write_data :: "(nat \<Rightarrow> byte) \<Rightarrow> mem_stream \<Rightarrow> bytes \<Rightarrow> (nat \<times> mem_stream) result" where
  "write_data junk ms buf = write_data_loop junk buf 0 ms"

text \<open>\<open>impl Write\<close>: one \<open>write\<close> takes the whole buffer, so \<open>write_all\<close> is one \<open>write\<close>.\<close>

definition ms_write :: "(nat \<Rightarrow> byte) \<Rightarrow> mem_stream \<Rightarrow> bytes \<Rightarrow> mem_stream result" where
  "ms_write junk ms buf = rbind (write_data junk ms buf) (\<lambda>r. Inr (snd r))"

text \<open>\<open>impl From<&[u8]>\<close> (and \<open>From<Vec<u8>>\<close>).\<close>

definition ms_from :: "(nat \<Rightarrow> byte) \<Rightarrow> bytes \<Rightarrow> mem_stream result" where
  "ms_from junk data = rbind (write_data junk ms_new data) (\<lambda>r. Inr (snd r))"

section \<open>Iterating and copying\<close>

text \<open>The iterator: what is left of the size, and the blocks not yet visited.\<close>

type_synonym block_iter = "nat \<times> bytes list"

definition ms_iter :: "mem_stream \<Rightarrow> block_iter" where
  "ms_iter ms = (ms_size ms, ms_blocks ms)"

text \<open>\<open>Iterator::next\<close> for \<open>Iter\<close>: the slice of the next block that holds data.\<close>

definition iter_next :: "block_iter \<Rightarrow> (bytes option \<times> block_iter) result" where
  "iter_next it =
     (if 0 < fst it then
        (case snd it of
           [] \<Rightarrow> Inl (Panic ''called Option::unwrap() on a None value'')
         | block # rest \<Rightarrow>
             let n = min (fst it) (length block)
             in Inr (Some (take n block), (fst it - n, rest)))
      else Inr (None, it))"

lemma iter_next_length:
  "iter_next it = Inr r \<Longrightarrow>
     length (snd (snd r)) + (if fst r = None then 0 else 1) = length (snd it)"
  by (auto simp: iter_next_def Let_def split: if_splits list.splits)

lemma iter_next_None: "iter_next it = Inr (None, it') \<Longrightarrow> it' = it \<and> fst it = 0"
  by (auto simp: iter_next_def Let_def split: if_splits list.splits)

text \<open>The iterator run to its end, as a \<open>for\<close> loop does.\<close>

function iter_slices :: "block_iter \<Rightarrow> bytes list result" where
  "iter_slices it =
     rbind (iter_next it) (\<lambda>r. case fst r of
         None \<Rightarrow> Inr []
       | Some b \<Rightarrow> rbind (iter_slices (snd r)) (\<lambda>bs. Inr (b # bs)))"
  by pat_completeness auto
termination
  by (relation "measure (\<lambda>it. length (snd it))") (fastforce dest: iter_next_length)+

declare iter_slices.simps [simp del]

definition ms_copy :: "('w \<Rightarrow> bytes \<Rightarrow> 'w result) \<Rightarrow> mem_stream \<Rightarrow> 'w \<Rightarrow> (nat \<times> 'w) result" where
  "ms_copy wr ms w =
     rbind (iter_slices (ms_iter ms)) (\<lambda>ss. rbind (write_each wr ss w) (\<lambda>w'. Inr (ms_size ms, w')))"

text \<open>\<open>impl Into<Vec<u8>>\<close>.\<close>

definition ms_into_vec :: "mem_stream \<Rightarrow> bytes result" where
  "ms_into_vec ms = rbind (ms_copy vec_write ms []) (\<lambda>r. Inr (snd r))"

section \<open>Invariant and content\<close>

text \<open>All blocks are full-size arrays, and there are exactly as many as the size needs.\<close>

definition ms_inv :: "mem_stream \<Rightarrow> bool" where
  "ms_inv ms \<longleftrightarrow>
     (\<forall>b \<in> set (ms_blocks ms). length b = BLOCK_SIZE) \<and>
     ms_size ms \<le> BLOCK_SIZE * length (ms_blocks ms) \<and>
     BLOCK_SIZE * length (ms_blocks ms) < ms_size ms + BLOCK_SIZE"

definition ms_content :: "mem_stream \<Rightarrow> bytes" where
  "ms_content ms = take (ms_size ms) (concat (ms_blocks ms))"

lemma length_concat_blocks:
  "\<forall>b \<in> set bs. length b = BLOCK_SIZE \<Longrightarrow> length (concat bs) = BLOCK_SIZE * length bs"
  by (induction bs) auto

lemma ms_new_ok [simp]: "ms_inv ms_new" "ms_content ms_new = []"
  by (simp_all add: ms_inv_def ms_content_def ms_new_def)

lemma length_ms_content: "ms_inv ms \<Longrightarrow> length (ms_content ms) = ms_size ms"
  by (simp add: ms_content_def ms_inv_def length_concat_blocks)

section \<open>Writing appends\<close>

text \<open>The block list the loop body works on: a last block with room from \<open>dst\<close> on.\<close>

lemma write_target:
  assumes inv: "ms_inv ms"
    and blocks: "blocks = (if ms_size ms mod BLOCK_SIZE = 0
                   then ms_blocks ms @ [uninit_block junk] else ms_blocks ms)"
  obtains front l where "blocks = front @ [l]" "\<forall>b \<in> set (front @ [l]). length b = BLOCK_SIZE"
    "ms_size ms = BLOCK_SIZE * length front + ms_size ms mod BLOCK_SIZE"
    "ms_content ms = concat front @ take (ms_size ms mod BLOCK_SIZE) l"
proof (cases "ms_size ms mod BLOCK_SIZE = 0")
  case True
  then obtain q where q: "ms_size ms = BLOCK_SIZE * q" by (auto simp: mod_eq_0_iff_dvd dvd_def)
  have "q \<le> length (ms_blocks ms)" "length (ms_blocks ms) < Suc q"
    using inv q by (auto simp: ms_inv_def) (metis BLOCK_SIZE_pos add.commute mult_Suc_right nat_mult_less_cancel1)
  then have k: "ms_size ms = BLOCK_SIZE * length (ms_blocks ms)" using q by simp
  show ?thesis
    using inv True k blocks
    by (intro that [of "ms_blocks ms" "uninit_block junk"])
      (auto simp: ms_inv_def ms_content_def uninit_block_def length_concat_blocks)
next
  case False
  then have ne: "ms_blocks ms \<noteq> []" using inv by (auto simp: ms_inv_def)
  then obtain front l where fl: "ms_blocks ms = front @ [l]" by (metis append_butlast_last_id)
  have lens: "\<forall>b \<in> set front. length b = BLOCK_SIZE" "length l = BLOCK_SIZE"
    using inv fl by (auto simp: ms_inv_def)
  have "BLOCK_SIZE * length front < ms_size ms" "ms_size ms \<le> BLOCK_SIZE * length front + BLOCK_SIZE"
    using inv fl by (auto simp: ms_inv_def)
  moreover have "ms_size ms \<noteq> BLOCK_SIZE * length front + BLOCK_SIZE"
    using False by (metis add.commute mod_mult_self2 mod_self)
  ultimately obtain d where d: "ms_size ms = BLOCK_SIZE * length front + d" "d < BLOCK_SIZE"
    by (metis add_less_cancel_left le_Suc_ex le_neq_implies_less less_imp_le_nat)
  then have m: "ms_size ms mod BLOCK_SIZE = d" by simp
  show ?thesis
    using that [of front l] fl lens d m False blocks
    by (simp add: ms_content_def length_concat_blocks)
qed

lemma write_data_step_ok:
  assumes inv: "ms_inv ms" and src: "src < length buf"
  shows "\<exists>n ms'. write_data_step junk buf src ms = Inr (src + n, ms') \<and> 0 < n \<and> ms_inv ms' \<and>
           ms_content ms' = ms_content ms @ take n (drop src buf)"
proof -
  define d where "d = ms_size ms mod BLOCK_SIZE"
  define n where "n = min (length buf - src) (BLOCK_SIZE - d)"
  have d: "d < BLOCK_SIZE" by (simp add: d_def)
  have n: "0 < n" "n \<le> length buf - src" "d + n \<le> BLOCK_SIZE"
    using src d by (auto simp: n_def)
  obtain front l where fl: "(if d = 0 then ms_blocks ms @ [uninit_block junk] else ms_blocks ms) = front @ [l]"
    and lens: "\<forall>b \<in> set (front @ [l]). length b = BLOCK_SIZE"
    and sz: "ms_size ms = BLOCK_SIZE * length front + d"
    and con: "ms_content ms = concat front @ take d l"
    unfolding d_def by (rule write_target [OF inv refl])
  define block where "block = take d l @ take n (drop src buf) @ drop (d + n) l"
  define ms' where "ms' = ms\<lparr>ms_size := ms_size ms + n, ms_blocks := front @ [block]\<rparr>"
  have lb: "length block = BLOCK_SIZE" using lens n by (simp add: block_def)
  have "write_data_step junk buf src ms = Inr (src + n, ms')"
    using fl lens n src
    by (auto simp: write_data_step_def Let_def memcpy_def d_def [symmetric] n_def [symmetric]
        block_def ms'_def)
  moreover have "ms_inv ms'" using lens lb sz n by (auto simp: ms_inv_def ms'_def)
  moreover have "ms_content ms' = ms_content ms @ take n (drop src buf)"
    using lens n sz con
    by (simp add: ms_content_def ms'_def block_def length_concat_blocks)
  ultimately show ?thesis using n(1) by blast
qed

lemma write_data_loop_ok:
  assumes "ms_inv ms" "src \<le> length buf"
  shows "\<exists>ms'. write_data_loop junk buf src ms = Inr (length buf, ms') \<and> ms_inv ms' \<and>
           ms_content ms' = ms_content ms @ drop src buf"
  using assms
proof (induction "length buf - src" arbitrary: src ms rule: less_induct)
  case less
  show ?case
  proof (cases "src < length buf")
    case True
    obtain n ms1 where step: "write_data_step junk buf src ms = Inr (src + n, ms1)" "0 < n"
      "ms_inv ms1" "ms_content ms1 = ms_content ms @ take n (drop src buf)"
      using write_data_step_ok [OF less.prems(1) True] by blast
    have le: "src + n \<le> length buf" using write_data_step_progress [OF step(1) True] by simp
    have "length buf - (src + n) < length buf - src" using True step(2) by simp
    from less.hyps [OF this step(3) le] obtain ms' where
      "write_data_loop junk buf (src + n) ms1 = Inr (length buf, ms')" "ms_inv ms'"
      "ms_content ms' = ms_content ms1 @ drop (src + n) buf" by blast
    moreover have "take n (drop src buf) @ drop (src + n) buf = drop src buf"
      by (metis add.commute append_take_drop_id drop_drop)
    ultimately show ?thesis
      using True step by (simp add: write_data_loop.simps [of junk buf src])
  next
    case False
    with less.prems have "src = length buf" by simp
    then show ?thesis
      using less.prems by (auto simp: write_data_loop.simps [of junk buf "length buf"])
  qed
qed

lemma write_data_ok:
  "ms_inv ms \<Longrightarrow> \<exists>ms'. write_data junk ms buf = Inr (length buf, ms') \<and> ms_inv ms' \<and>
     ms_content ms' = ms_content ms @ buf"
  using write_data_loop_ok [of ms 0 buf junk] by (simp add: write_data_def)

lemma ms_write_ok:
  assumes "ms_inv ms"
  obtains ms' where "ms_write junk ms buf = Inr ms'" "ms_inv ms'" "ms_content ms' = ms_content ms @ buf"
  using write_data_ok [OF assms, of junk buf] by (auto simp: ms_write_def)

interpretation mem_sink: byte_sink "ms_write junk" ms_content ms_inv for junk
proof unfold_locales
  fix w b w'
  assume inv: "ms_inv w"
  obtain ms' where *: "ms_write junk w b = Inr ms'" "ms_inv ms'" "ms_content ms' = ms_content w @ b"
    using inv by (rule ms_write_ok)
  then show "\<exists>w'. ms_write junk w b = Inr w'" by blast
  assume "ms_write junk w b = Inr w'"
  with * show "ms_content w' = ms_content w @ b" "ms_inv w'" by auto
qed

section \<open>Iterating and copying deliver the content\<close>

definition iter_inv :: "block_iter \<Rightarrow> bool" where
  "iter_inv it \<longleftrightarrow> (\<forall>b \<in> set (snd it). length b = BLOCK_SIZE) \<and> fst it \<le> BLOCK_SIZE * length (snd it)"

definition iter_rest :: "block_iter \<Rightarrow> bytes" where
  "iter_rest it = take (fst it) (concat (snd it))"

lemma iter_next_ok:
  assumes "iter_inv it"
  shows "\<exists>r it'. iter_next it = Inr (r, it') \<and> iter_inv it' \<and>
     (case r of None \<Rightarrow> iter_rest it = [] \<and> it' = it \<and> fst it = 0
              | Some b \<Rightarrow> iter_rest it = b @ iter_rest it' \<and> b \<noteq> [])"
proof (cases "0 < fst it")
  case True
  with assms obtain block rest where sb: "snd it = block # rest" "length block = BLOCK_SIZE"
    by (cases "snd it") (auto simp: iter_inv_def)
  then show ?thesis
    using True assms by (auto simp: iter_next_def iter_inv_def iter_rest_def Let_def min_def)
next
  case False
  then show ?thesis using assms by (simp add: iter_next_def iter_rest_def)
qed

lemma iter_slices_ok:
  "iter_inv it \<Longrightarrow> \<exists>bs. iter_slices it = Inr bs \<and> concat bs = iter_rest it"
proof (induction "length (snd it)" arbitrary: it rule: less_induct)
  case less
  from iter_next_ok [OF less.prems] obtain r it' where r: "iter_next it = Inr (r, it')" "iter_inv it'"
    "case r of None \<Rightarrow> iter_rest it = [] \<and> it' = it \<and> fst it = 0
             | Some b \<Rightarrow> iter_rest it = b @ iter_rest it' \<and> b \<noteq> []" by blast
  show ?case
  proof (cases r)
    case None
    with r show ?thesis by (simp add: iter_slices.simps [of it])
  next
    case (Some b)
    with r(1) have "length (snd it') < length (snd it)" by (fastforce dest: iter_next_length)
    from less.hyps [OF this r(2)] show ?thesis
      using Some r by (auto simp: iter_slices.simps [of it])
  qed
qed

lemma ms_iter_ok: "ms_inv ms \<Longrightarrow> iter_inv (ms_iter ms) \<and> iter_rest (ms_iter ms) = ms_content ms"
  by (simp add: ms_inv_def iter_inv_def ms_iter_def iter_rest_def ms_content_def)

context byte_sink
begin

lemma ms_copy_ok:
  assumes "ms_inv ms" "invar w"
  shows "\<exists>w'. ms_copy wr ms w = Inr (ms_len ms, w') \<and> invar w' \<and>
           contents w' = contents w @ ms_content ms"
proof -
  obtain bs where bs: "iter_slices (ms_iter ms) = Inr bs" "concat bs = ms_content ms"
    using iter_slices_ok ms_iter_ok [OF assms(1)] by metis
  from write_each_ok [OF assms(2), of bs] bs show ?thesis by (auto simp: ms_copy_def ms_len_def)
qed

end

lemma ms_into_vec_ok: "ms_inv ms \<Longrightarrow> ms_into_vec ms = Inr (ms_content ms)"
  using vec_sink.ms_copy_ok [of ms "[]"] by (auto simp: ms_into_vec_def)

section \<open>Reading\<close>

record mem_reader =
  mr_offset :: nat
  mr_iter :: block_iter
  mr_last :: "bytes option"

definition ms_reader :: "mem_stream \<Rightarrow> mem_reader result" where
  "ms_reader ms =
     rbind (iter_next (ms_iter ms))
       (\<lambda>r. Inr \<lparr>mr_offset = 0, mr_iter = snd r, mr_last = fst r\<rparr>)"

text \<open>One iteration of the loop of \<open>impl Read for MemReader\<close>, on the buffer \<open>buf\<close> filled up to
  \<open>dst\<close>; \<open>None\<close> is the \<open>break\<close> at the end of the stream.\<close>

definition mem_read_step :: "bytes \<Rightarrow> nat \<Rightarrow> mem_reader \<Rightarrow> (nat \<times> bytes \<times> mem_reader) option result" where
  "mem_read_step buf dst mr =
     (case mr_last mr of
        None \<Rightarrow> Inr None
      | Some block \<Rightarrow>
          if mr_offset mr = length block then
            rbind (iter_next (mr_iter mr))
              (\<lambda>r. Inr (Some (dst, buf, mr\<lparr>mr_last := fst r, mr_iter := snd r, mr_offset := 0\<rparr>)))
          else if length block < mr_offset mr then Inl (Panic ''attempt to subtract with overflow'')
          else
            let n = min (length buf - dst) (length block - mr_offset mr)
            in rbind (memcpy (take n (drop (mr_offset mr) block)) buf dst n)
                 (\<lambda>buf'. Inr (Some (dst + n, buf', mr\<lparr>mr_offset := mr_offset mr + n\<rparr>))))"

definition mem_read_measure :: "bytes \<Rightarrow> nat \<Rightarrow> mem_reader \<Rightarrow> nat" where
  "mem_read_measure buf dst mr =
     (length buf - dst) + length (snd (mr_iter mr)) + (if mr_last mr = None then 0 else 1)"

lemma mem_read_step_measure:
  assumes "mem_read_step buf dst mr = Inr (Some (dst', buf', mr'))" "dst < length buf"
  shows "mem_read_measure buf' dst' mr' < mem_read_measure buf dst mr"
proof -
  from assms(1) obtain block where last: "mr_last mr = Some block"
    by (auto simp: mem_read_step_def split: option.splits)
  show ?thesis
  proof (cases "mr_offset mr = length block")
    case True
    with assms last obtain r where "iter_next (mr_iter mr) = Inr r" "dst' = dst" "buf' = buf"
      "mr' = mr\<lparr>mr_last := fst r, mr_iter := snd r, mr_offset := 0\<rparr>"
      by (auto simp: mem_read_step_def result_simps)
    with last iter_next_length [OF this(1)] show ?thesis
      by (auto simp: mem_read_measure_def split: if_splits)
  next
    case False
    with assms last show ?thesis
      by (auto simp: mem_read_step_def mem_read_measure_def memcpy_def Let_def result_simps min_def
          split: if_splits)
  qed
qed

function mem_read_loop :: "bytes \<Rightarrow> nat \<Rightarrow> mem_reader \<Rightarrow> (nat \<times> bytes \<times> mem_reader) result" where
  "mem_read_loop buf dst mr =
     (if dst < length buf then
        rbind (mem_read_step buf dst mr) (\<lambda>o'. case o' of
            None \<Rightarrow> Inr (dst, buf, mr)
          | Some (dst', buf', mr') \<Rightarrow> mem_read_loop buf' dst' mr')
      else Inr (dst, buf, mr))"
  by pat_completeness auto
termination
  by (relation "measure (\<lambda>(buf, dst, mr). mem_read_measure buf dst mr)")
    (auto dest: mem_read_step_measure)

declare mem_read_loop.simps [simp del]

text \<open>\<open>MemReader::read\<close>: the number of bytes read, the buffer afterwards, the new state.\<close>

definition mem_read :: "bytes \<Rightarrow> mem_reader \<Rightarrow> (nat \<times> bytes \<times> mem_reader) result" where
  "mem_read buf mr = mem_read_loop buf 0 mr"

section \<open>Reading delivers the content\<close>

definition mr_inv :: "mem_reader \<Rightarrow> bool" where
  "mr_inv mr \<longleftrightarrow> iter_inv (mr_iter mr) \<and>
     (case mr_last mr of None \<Rightarrow> fst (mr_iter mr) = 0 | Some b \<Rightarrow> mr_offset mr \<le> length b)"

definition mr_rest :: "mem_reader \<Rightarrow> bytes" where
  "mr_rest mr =
     (case mr_last mr of None \<Rightarrow> [] | Some b \<Rightarrow> drop (mr_offset mr) b) @ iter_rest (mr_iter mr)"

lemma ms_reader_ok:
  assumes "ms_inv ms"
  shows "\<exists>mr. ms_reader ms = Inr mr \<and> mr_inv mr \<and> mr_rest mr = ms_content ms"
proof -
  have it: "iter_inv (ms_iter ms)" "iter_rest (ms_iter ms) = ms_content ms"
    using ms_iter_ok [OF assms] by simp_all
  from iter_next_ok [OF it(1)] obtain r it' where "iter_next (ms_iter ms) = Inr (r, it')" "iter_inv it'"
    "case r of None \<Rightarrow> iter_rest (ms_iter ms) = [] \<and> it' = ms_iter ms \<and> fst (ms_iter ms) = 0
             | Some b \<Rightarrow> iter_rest (ms_iter ms) = b @ iter_rest it' \<and> b \<noteq> []" by blast
  with it(2) show ?thesis
    by (cases r) (auto simp: ms_reader_def mr_inv_def mr_rest_def iter_rest_def)
qed

text \<open>One iteration moves the next \<open>n\<close> bytes of the rest into the buffer.\<close>

definition moved :: "bytes \<Rightarrow> nat \<Rightarrow> mem_reader \<Rightarrow> nat \<Rightarrow> bytes \<Rightarrow> mem_reader \<Rightarrow> bool" where
  "moved buf dst mr n buf' mr' \<longleftrightarrow>
     mr_inv mr' \<and> mr_rest mr = take n (mr_rest mr) @ mr_rest mr' \<and> n \<le> length (mr_rest mr) \<and>
     dst + n \<le> length buf \<and>
     buf' = take dst buf @ take n (mr_rest mr) @ drop (dst + n) buf"

lemma moved_length: "moved buf dst mr n buf' mr' \<Longrightarrow> length buf' = length buf"
  by (simp add: moved_def)

lemma moved_refl: "mr_inv mr \<Longrightarrow> dst \<le> length buf \<Longrightarrow> moved buf dst mr 0 buf mr"
  by (simp add: moved_def)

lemma moved_trans:
  assumes "moved buf dst mr n buf1 mr1" "moved buf1 (dst + n) mr1 m buf2 mr2"
  shows "moved buf dst mr (n + m) buf2 mr2"
proof -
  have r: "mr_rest mr = take n (mr_rest mr) @ mr_rest mr1" "n \<le> length (mr_rest mr)"
    "mr_rest mr1 = take m (mr_rest mr1) @ mr_rest mr2" "m \<le> length (mr_rest mr1)"
    using assms by (auto simp: moved_def)
  have d: "mr_rest mr1 = drop n (mr_rest mr)" by (metis r(1,2) append_eq_conv_conj length_take min.absorb2)
  have "take (n + m) (mr_rest mr) = take n (mr_rest mr) @ take m (mr_rest mr1)"
    by (simp add: d take_add)
  moreover have "n + m \<le> length (mr_rest mr)" using r(2,4) by (simp add: d)
  ultimately show ?thesis
    using assms r by (auto simp: moved_def add_ac)
qed

lemma mem_read_step_ok:
  assumes inv: "mr_inv mr" and dst: "dst < length buf"
  shows "(mem_read_step buf dst mr = Inr None \<and> mr_rest mr = []) \<or>
    (\<exists>n buf' mr'. mem_read_step buf dst mr = Inr (Some (dst + n, buf', mr')) \<and>
       moved buf dst mr n buf' mr')"
proof (cases "mr_last mr")
  case None
  then show ?thesis using inv by (simp add: mem_read_step_def mr_rest_def mr_inv_def iter_rest_def)
next
  case (Some block)
  have off: "mr_offset mr \<le> length block" and it: "iter_inv (mr_iter mr)"
    using inv Some by (auto simp: mr_inv_def)
  show ?thesis
  proof (cases "mr_offset mr = length block")
    case True
    from iter_next_ok [OF it] obtain r it' where "iter_next (mr_iter mr) = Inr (r, it')" "iter_inv it'"
      "case r of None \<Rightarrow> iter_rest (mr_iter mr) = [] \<and> it' = mr_iter mr \<and> fst (mr_iter mr) = 0
               | Some b \<Rightarrow> iter_rest (mr_iter mr) = b @ iter_rest it' \<and> b \<noteq> []" by blast
    then show ?thesis
      using True Some dst
      by (intro disjI2 exI [of _ 0]) (cases r; simp add: mem_read_step_def moved_def mr_inv_def mr_rest_def)
  next
    case False
    define n where "n = min (length buf - dst) (length block - mr_offset mr)"
    have n: "n \<le> length block - mr_offset mr" "0 < n" "dst + n \<le> length buf"
      "n + mr_offset mr \<le> length block" "n \<le> length block + length (iter_rest (mr_iter mr)) - mr_offset mr"
      using off False dst by (auto simp: n_def)
    then show ?thesis
      using Some off False it
      by (intro disjI2 exI [of _ n])
        (simp add: mem_read_step_def moved_def mr_inv_def mr_rest_def memcpy_def Let_def
          n_def [symmetric] add.commute [of _ n] flip: drop_drop)
  qed
qed

lemma mem_read_loop_ok:
  assumes "mr_inv mr" "dst \<le> length buf"
  shows "\<exists>n buf' mr'. mem_read_loop buf dst mr = Inr (dst + n, buf', mr') \<and> moved buf dst mr n buf' mr' \<and>
           (dst + n < length buf \<longrightarrow> mr_rest mr' = [])"
  using assms
proof (induction "mem_read_measure buf dst mr" arbitrary: buf dst mr rule: less_induct)
  case less
  show ?case
  proof (cases "dst < length buf")
    case False
    then have "mem_read_loop buf dst mr = Inr (dst, buf, mr)"
      by (simp add: mem_read_loop.simps [of buf dst mr])
    then show ?thesis
      using less.prems False moved_refl [of mr dst buf]
      by (intro exI [of _ 0] exI [of _ buf] exI [of _ mr]) simp
  next
    case True
    from mem_read_step_ok [OF less.prems(1) True] show ?thesis
    proof (elim disjE exE conjE)
      assume "mem_read_step buf dst mr = Inr None" "mr_rest mr = []"
      then show ?thesis
        using True less.prems moved_refl [of mr dst buf]
        by (intro exI [of _ 0]) (auto simp: mem_read_loop.simps [of buf dst mr])
    next
      fix n buf1 mr1
      assume step: "mem_read_step buf dst mr = Inr (Some (dst + n, buf1, mr1))"
        and mv: "moved buf dst mr n buf1 mr1"
      have "mr_inv mr1" "dst + n \<le> length buf1" using mv moved_length [OF mv] by (auto simp: moved_def)
      from less.hyps [OF mem_read_step_measure [OF step True] this] obtain m buf2 mr2 where
        *: "mem_read_loop buf1 (dst + n) mr1 = Inr (dst + n + m, buf2, mr2)"
        "moved buf1 (dst + n) mr1 m buf2 mr2" "dst + n + m < length buf1 \<longrightarrow> mr_rest mr2 = []" by blast
      with step True moved_trans [OF mv *(2)] moved_length [OF mv] show ?thesis
        by (intro exI [of _ "n + m"]) (simp add: mem_read_loop.simps [of buf dst mr] add.assoc)
    qed
  qed
qed

lemma mem_read_ok:
  assumes "mr_inv mr"
  shows "\<exists>mr'. mem_read buf mr =
           Inr (min (length buf) (length (mr_rest mr)),
             take (length buf) (mr_rest mr) @ drop (length (mr_rest mr)) buf, mr') \<and>
           mr_inv mr' \<and> mr_rest mr' = drop (length buf) (mr_rest mr)"
proof -
  obtain n buf' mr' where r: "mem_read buf mr = Inr (n, buf', mr')" "moved buf 0 mr n buf' mr'"
    "n < length buf \<longrightarrow> mr_rest mr' = []"
    using mem_read_loop_ok [OF assms, of 0 buf] by (auto simp: mem_read_def)
  from r(2) have m: "mr_rest mr = take n (mr_rest mr) @ mr_rest mr'" "n \<le> length (mr_rest mr)"
    "n \<le> length buf" "buf' = take n (mr_rest mr) @ drop n buf" "mr_inv mr'"
    by (auto simp: moved_def)
  have rest: "mr_rest mr' = drop n (mr_rest mr)"
    by (metis m(1,2) append_eq_conv_conj length_take min.absorb2)
  show ?thesis
  proof (cases "n < length buf")
    case True
    with r(3) rest m(2) have "n = length (mr_rest mr)" by simp
    then show ?thesis using r(1) m True rest by auto
  next
    case False
    then show ?thesis using r(1) m rest by auto
  qed
qed

text \<open>A sequence of calls of \<open>read\<close> with buffers of any sizes, the bytes each delivered appended.\<close>

fun read_seq :: "bytes list \<Rightarrow> mem_reader \<Rightarrow> bytes result" where
  "read_seq [] mr = Inr []"
| "read_seq (buf # bufs) mr =
     rbind (mem_read buf mr) (\<lambda>(n, buf', mr').
       rbind (read_seq bufs mr') (\<lambda>out. Inr (take n buf' @ out)))"

lemma read_seq_ok:
  "mr_inv mr \<Longrightarrow> read_seq bufs mr = Inr (take (sum_list (map length bufs)) (mr_rest mr))"
proof (induction bufs arbitrary: mr)
  case Nil
  then show ?case by simp
next
  case (Cons buf bufs)
  obtain mr' where r: "mem_read buf mr = Inr (min (length buf) (length (mr_rest mr)),
      take (length buf) (mr_rest mr) @ drop (length (mr_rest mr)) buf, mr')" "mr_inv mr'"
    "mr_rest mr' = drop (length buf) (mr_rest mr)"
    using mem_read_ok [OF Cons.prems] by blast
  have "take (min (length buf) (length (mr_rest mr)))
      (take (length buf) (mr_rest mr) @ drop (length (mr_rest mr)) buf) = take (length buf) (mr_rest mr)"
    by (simp add: min_def)
  with r Cons.IH [OF r(2)] show ?case by (simp add: take_add)
qed

section \<open>Properties\<close>

text \<open>C13: whatever pieces are written to a new stream, in whatever order and sizes, and
  whatever the memory of new blocks holds, no write panics, the length is the number of bytes
  written, and copying the stream out gives the concatenation of the pieces.\<close>

theorem mem_stream_writes_roundtrip:
  "\<exists>ms. write_each (ms_write junk) pieces ms_new = Inr ms \<and>
        ms_len ms = length (concat pieces) \<and> ms_into_vec ms = Inr (concat pieces)"
proof -
  obtain ms where "write_each (ms_write junk) pieces ms_new = Inr ms" "ms_inv ms"
    "ms_content ms = concat pieces"
    using mem_sink.write_each_ok [of ms_new junk pieces] by auto
  then show ?thesis using ms_into_vec_ok [of ms] length_ms_content [of ms] by (auto simp: ms_len_def)
qed

text \<open>reading a stream back with buffers of any sizes delivers its bytes in order:
  the calls together return the prefix of the content as long as the buffers together.\<close>

theorem mem_stream_reads_content:
  "\<exists>ms mr. ms_from junk data = Inr ms \<and> ms_reader ms = Inr mr \<and>
     read_seq bufs mr = Inr (take (sum_list (map length bufs)) data)"
proof -
  obtain ms where ms: "ms_from junk data = Inr ms" "ms_inv ms" "ms_content ms = data"
    using write_data_ok [of ms_new junk data] by (auto simp: ms_from_def)
  then obtain mr where "ms_reader ms = Inr mr" "mr_inv mr" "mr_rest mr = data"
    using ms_reader_ok [OF ms(2)] by auto
  with ms read_seq_ok [of mr bufs] show ?thesis by auto
qed

end
