(* ===== verification/Postprocess_Correct.thy ===== *)
theory Postprocess_Correct
  imports Postprocess MemStream
begin

text \<open>
  What the scanner of \<open>src/vs/postprocess.rs\<close> computes, stated on the whole input: a specification
  without buffer, pointers, refills or output (\<open>filter_spec\<close> over the list of input bytes), and the
  proof that the code refines it for every reader, however it cuts its data into pieces, and every
  writer that meets the contract \<open>byte_sink\<close>.

  The refinement is layered: \<open>sc_rest\<close> is the input not yet scanned (the unread part of the buffer
  and what the reader still holds), \<open>sc_out\<close> the output including what \<open>flush\<close> will still write,
  \<open>advanced\<close> relates two states of which the second has consumed more input, and \<open>sims\<close> says that an
  operation does what a function on the rest of the input says.
\<close>

section \<open>The specification\<close>

text \<open>A specification step takes the rest of the input and returns a result and the new rest.\<close>

type_synonym 'a spec = "bytes \<Rightarrow> ('a \<times> bytes) result"

definition sp_skip :: "(byte \<Rightarrow> bool) \<Rightarrow> unit spec" where
  "sp_skip P xs = Inr ((), dropWhile P xs)"

definition sp_line :: "unit spec" where
  "sp_line xs = Inr ((), drop 1 (dropWhile (\<lambda>c. c \<noteq> b_nl) xs))"

text \<open>The line end is \<open>\r\n\<close> when the line's last byte is a carriage return; at the end of the
  input there is none.\<close>

definition sp_eol :: "bytes spec" where
  "sp_eol xs =
     (case dropWhile (\<lambda>c. c \<noteq> b_nl) xs of
        [] \<Rightarrow> Inr ([], [])
      | _ # rest \<Rightarrow>
          let l = takeWhile (\<lambda>c. c \<noteq> b_nl) xs
          in Inr (if l \<noteq> [] \<and> last l = b_cr then [b_cr, b_nl] else [b_nl], rest))"

definition sp_token :: "nat \<Rightarrow> bytes spec" where
  "sp_token cap xs =
     (let t = takeWhile is_token_char xs; rest = dropWhile is_token_char xs
      in if cap < length t then Inl (pp_error TokenTooLong)
         else if rest = [] then Inr (t @ replicate (cap - length t) 0, [])
         else Inr (t, rest))"

fun sp_path_loop :: "byte \<Rightarrow> bytes \<Rightarrow> bytes \<Rightarrow> (bytes \<times> bytes) spec" where
  "sp_path_loop quote token raw [] = Inl (pp_error LiteralEof)"
| "sp_path_loop quote token raw (c # xs) =
     (if c = b_nl \<or> c = b_cr then Inl (pp_error LiteralEol)
      else if c = b_backslash then
        (case xs of
           [] \<Rightarrow> Inl (pp_error EscapeEof)
         | e # ys \<Rightarrow>
             let token1 = token @ [if unescape e = b_backslash then b_slash else unescape e];
                 raw1 = raw @ [b_backslash, b_backslash]
             in if path_too_long token1 raw1 then Inl (pp_error LiteralTooLong)
                else sp_path_loop quote token1 raw1 ys)
      else if c = quote then Inr ((token, raw @ [c]), xs)
      else if path_too_long (token @ [c]) (raw @ [c]) then Inl (pp_error LiteralTooLong)
      else sp_path_loop quote (token @ [c]) (raw @ [c]) xs)"

definition sp_path :: "(bytes \<times> bytes) spec" where
  "sp_path xs =
     (case xs of
        [] \<Rightarrow> Inl (Panic ''called Option::unwrap() on a None value'')
      | q # ys \<Rightarrow> sp_path_loop q [] [q] ys)"

text \<open>What a line of the input means to the filter.\<close>

datatype line_effect = Plain | LineMark bytes bytes bytes bytes | HdrStop

definition sp_other :: "line_effect spec" where
  "sp_other = sbind sp_line (\<lambda>_. sret Plain)"

definition sp_directive_line :: "line_effect spec" where
  "sp_directive_line =
     sbind (sp_skip is_space) (\<lambda>_. sbind (sp_token 0x10) (\<lambda>line.
     sbind (sp_skip is_space) (\<lambda>_. sbind sp_path (\<lambda>(file, raw). sbind sp_eol (\<lambda>eol.
       sret (LineMark line file raw eol))))))"

definition sp_directive_pragma :: "line_effect spec" where
  "sp_directive_pragma =
     sbind (sp_skip is_space) (\<lambda>_. sbind (sp_token 0x20) (\<lambda>token.
       if token = ascii ''hdrstop'' then sret HdrStop else sp_other))"

definition sp_directive :: "line_effect spec" where
  "sp_directive =
     sbind (sp_skip is_space) (\<lambda>_. sbind (sp_token 0x10) (\<lambda>token.
       if token = ascii ''line'' then sp_directive_line
       else if token = ascii ''pragma'' then sp_directive_pragma else sp_other))"

text \<open>One line: blank bytes and line ends before it are skipped.\<close>

definition sp_parse_line :: "line_effect spec" where
  "sp_parse_line xs =
     (case dropWhile is_empty_char xs of
        [] \<Rightarrow> Inr (Plain, [])
      | c # ys \<Rightarrow> if c = b_hash then sp_directive ys else sp_other (c # ys))"

text \<open>The effect of a line on the two things the filter remembers, the entry file (the first
  \<open>#line\<close> file) and whether the marker header was entered. The first component is what is written
  when the header part ends with this line.\<close>

fun effect_step ::
    "bool \<Rightarrow> bytes option \<Rightarrow> line_effect \<Rightarrow> bytes option \<times> bool \<Rightarrow> bytes option \<times> bytes option \<times> bool" where
  "effect_step keep marker Plain ctl = (None, ctl)"
| "effect_step keep marker HdrStop ctl = (Some (if keep then [] else ascii ''#pragma hdrstop''), ctl)"
| "effect_step keep marker (LineMark line file raw eol) (entry, found) =
     (case entry of
        None \<Rightarrow> (None, Some file, found)
      | Some path \<Rightarrow>
          (if found \<and> path = file then Some (hdrstop_mark line raw eol) else None,
           Some path, found \<or> (\<exists>m. marker = Some m \<and> is_subpath file m)))"

section \<open>Consumption of the specification\<close>

named_theorems spec_suffix \<open>specification steps return a suffix of their input\<close>

definition suffixing :: "'a spec \<Rightarrow> bool" where
  "suffixing f \<longleftrightarrow> (\<forall>xs x rest. f xs = Inr (x, rest) \<longrightarrow> suffix rest xs)"

lemma suffixingI: "(\<And>xs x rest. f xs = Inr (x, rest) \<Longrightarrow> suffix rest xs) \<Longrightarrow> suffixing f"
  by (auto simp: suffixing_def)

lemma suffixingD: "suffixing f \<Longrightarrow> f xs = Inr (x, rest) \<Longrightarrow> suffix rest xs"
  by (auto simp: suffixing_def)

lemma suffixing_sbind [spec_suffix]:
  assumes "suffixing f" "\<And>x. suffixing (g x)"
  shows "suffixing (sbind f g)"
proof (rule suffixingI)
  fix xs y rest assume "sbind f g xs = Inr (y, rest)"
  then obtain x ys where "f xs = Inr (x, ys)" "g x ys = Inr (y, rest)" by (auto simp: sbind_eq_Inr)
  with suffixingD [OF assms(1)] suffixingD [OF assms(2)] show "suffix rest xs"
    by (blast intro: suffix_order.order_trans)
qed

lemma suffixing_sret [spec_suffix]: "suffixing (sret x)"
  by (auto simp: suffixing_def)

lemma suffixing_skip [spec_suffix]: "suffixing (sp_skip P)"
  by (auto simp: suffixing_def sp_skip_def suffix_dropWhile)

lemma suffixing_line [spec_suffix]: "suffixing sp_line"
  by (auto simp: suffixing_def sp_line_def) (meson suffix_drop suffix_dropWhile suffix_order.order_trans)

lemma suffixing_eol [spec_suffix]: "suffixing sp_eol"
proof (rule suffixingI)
  fix xs x rest assume *: "sp_eol xs = Inr (x, rest)"
  have "suffix rest (dropWhile (\<lambda>c. c \<noteq> b_nl) xs)"
    using * by (auto simp: sp_eol_def Let_def suffix_ConsI split: list.splits)
  then show "suffix rest xs" by (meson suffix_dropWhile suffix_order.order_trans)
qed

lemma suffixing_token [spec_suffix]: "suffixing (sp_token cap)"
  by (auto simp: suffixing_def sp_token_def Let_def suffix_dropWhile split: if_splits)

lemma sp_path_loop_suffix: "sp_path_loop quote token raw xs = Inr (x, rest) \<Longrightarrow> suffix rest xs"
  by (induction quote token raw xs rule: sp_path_loop.induct)
    (auto simp: Let_def suffix_ConsI split: if_splits list.splits)

lemma suffixing_path [spec_suffix]: "suffixing sp_path"
  by (auto simp: suffixing_def sp_path_def suffix_ConsI dest: sp_path_loop_suffix split: list.splits)

lemma suffixing_other [spec_suffix]: "suffixing sp_other"
  unfolding sp_other_def by (intro spec_suffix)

lemma suffixing_directive [spec_suffix]: "suffixing sp_directive"
proof -
  have "suffixing sp_directive_line" "suffixing sp_directive_pragma"
    unfolding sp_directive_line_def sp_directive_pragma_def by (auto intro!: spec_suffix)
  then show ?thesis unfolding sp_directive_def by (auto intro!: spec_suffix)
qed

lemma sp_other_shorter: "sp_other (c # ys) = Inr (x, rest) \<Longrightarrow> length rest \<le> length ys"
  using length_dropWhile_le [of "\<lambda>c. c \<noteq> b_nl" ys]
  by (auto simp: sp_other_def sbind_eq_Inr sp_line_def)

lemma sp_parse_line_shorter:
  assumes "sp_parse_line xs = Inr (x, rest)" "xs \<noteq> []"
  shows "length rest < length xs"
proof (cases "dropWhile is_empty_char xs")
  case Nil
  with assms show ?thesis by (simp add: sp_parse_line_def)
next
  case (Cons c ys)
  have "length ys < length xs"
    using length_dropWhile_le [of is_empty_char xs] Cons by simp
  moreover have "length rest \<le> length ys"
    using assms(1) Cons sp_other_shorter suffixingD [OF suffixing_directive]
    by (fastforce simp: sp_parse_line_def split: if_splits dest: suffix_length_le)
  ultimately show ?thesis by simp
qed

lemma suffixing_parse_line [spec_suffix]: "suffixing sp_parse_line"
proof (rule suffixingI)
  fix xs x rest assume *: "sp_parse_line xs = Inr (x, rest)"
  have "suffix rest (dropWhile is_empty_char xs)"
    using * suffixingD [OF suffixing_other] suffixingD [OF suffixing_directive]
    by (auto simp: sp_parse_line_def suffix_ConsI split: list.splits if_splits)
  then show "suffix rest xs" by (meson suffix_dropWhile suffix_order.order_trans)
qed

text \<open>The filter on the whole input: the bytes to insert, and the input behind the header.\<close>

function filter_spec ::
    "bool \<Rightarrow> bytes option \<Rightarrow> bytes option \<times> bool \<Rightarrow> bytes spec" where
  "filter_spec keep marker ctl xs =
     (if xs = [] then Inl (pp_error MarkerNotFound)
      else rbind (sp_parse_line xs) (\<lambda>r.
             case effect_step keep marker (fst r) ctl of
               (Some ins, _) \<Rightarrow> Inr (ins, snd r)
             | (None, ctl') \<Rightarrow> filter_spec keep marker ctl' (snd r)))"
  by pat_completeness auto
termination
  by (relation "measure (\<lambda>(keep, marker, ctl, xs). length xs)") (auto dest: sp_parse_line_shorter)

declare filter_spec.simps [simp del]

text \<open>The byte order mark: whether it is there, and the input behind what of it is there.\<close>

fun sp_bom_loop :: "bytes \<Rightarrow> bytes \<Rightarrow> bool \<times> bytes" where
  "sp_bom_loop [] xs = (True, xs)"
| "sp_bom_loop (b # bom) [] = (False, [])"
| "sp_bom_loop (b # bom) (x # xs) = (if x = b then sp_bom_loop bom xs else (False, x # xs))"

definition sp_bom :: "bytes \<Rightarrow> bool \<times> bytes" where
  "sp_bom = sp_bom_loop [0xEF, 0xBB, 0xBF]"

text \<open>The output of the filter: the header (when it is kept), the inserted lines, the rest.\<close>

definition filter_output ::
    "(bytes \<Rightarrow> bytes result) \<Rightarrow> bytes option \<Rightarrow> bool \<Rightarrow> bytes \<Rightarrow> bytes result" where
  "filter_output ansi marker keep xs =
     rbind (marker_bytes ansi (fst (sp_bom xs)) marker) (\<lambda>m.
     rbind (filter_spec keep m (None, False) (snd (sp_bom xs))) (\<lambda>(ins, rest).
       Inr ((if keep then take (length xs - length rest) xs else []) @ ins @ rest)))"

section \<open>Abstraction of the scanner state\<close>

definition sc_inv :: "('w \<Rightarrow> bool) \<Rightarrow> 'w scanner \<Rightarrow> bool" where
  "sc_inv invar s \<longleftrightarrow>
     ptr_copy s \<le> ptr_read s \<and> ptr_read s \<le> ptr_end s \<and> ptr_end s = length (sc_buf s) \<and>
     clean_reader (sc_reader s) \<and> invar (sc_writer s)"

definition sc_rest :: "'w scanner \<Rightarrow> bytes" where
  "sc_rest s = slice (sc_buf s) (ptr_read s) (ptr_end s) @ reader_bytes (sc_reader s)"

definition sc_out :: "('w \<Rightarrow> bytes) \<Rightarrow> 'w scanner \<Rightarrow> bytes" where
  "sc_out contents s =
     contents (sc_writer s) @ (if sc_keep s then slice (sc_buf s) (ptr_copy s) (ptr_read s) else [])"

text \<open>The fields only the directives change.\<close>

definition same_control :: "'w scanner \<Rightarrow> 'w scanner \<Rightarrow> bool" where
  "same_control s s' \<longleftrightarrow>
     sc_keep s' = sc_keep s \<and> sc_marker s' = sc_marker s \<and> sc_utf8 s' = sc_utf8 s \<and>
     header_found s' = header_found s \<and> entry_file s' = entry_file s \<and> sc_done s' = sc_done s"

lemma same_control_refl [simp]: "same_control s s"
  by (simp add: same_control_def)

lemma same_control_trans: "same_control s t \<Longrightarrow> same_control t u \<Longrightarrow> same_control s u"
  by (simp add: same_control_def)

definition advanced :: "('w \<Rightarrow> bytes) \<Rightarrow> ('w \<Rightarrow> bool) \<Rightarrow> 'w scanner \<Rightarrow> 'w scanner \<Rightarrow> bool" where
  "advanced contents invar s s' \<longleftrightarrow>
     sc_inv invar s' \<and> same_control s s' \<and>
     (\<exists>xs. sc_rest s = xs @ sc_rest s' \<and>
           sc_out contents s' = sc_out contents s @ (if sc_keep s then xs else []))"

lemma advanced_refl: "sc_inv invar s \<Longrightarrow> advanced contents invar s s"
  by (auto simp: advanced_def)

lemma advanced_trans:
  "advanced contents invar s t \<Longrightarrow> advanced contents invar t u \<Longrightarrow> advanced contents invar s u"
  unfolding advanced_def by (fastforce simp: same_control_def)

lemma advanced_inv: "advanced contents invar s s' \<Longrightarrow> sc_inv invar s'"
  by (simp add: advanced_def)

lemma slice_split: "i \<le> j \<Longrightarrow> j \<le> k \<Longrightarrow> slice xs i j @ slice xs j k = slice xs i k"
  by (auto simp: slice_def take_add add.commute dest!: le_Suc_ex)

lemma slice_same [simp]: "slice xs i i = []"
  by (simp add: slice_def)

lemma slice_Suc: "i < j \<Longrightarrow> j \<le> length xs \<Longrightarrow> slice xs i j = xs ! i # slice xs (Suc i) j"
  by (simp add: slice_def Cons_nth_drop_Suc [symmetric] take_Cons' Suc_diff_Suc)

lemma length_slice: "j \<le> length xs \<Longrightarrow> length (slice xs i j) = j - i"
  by (simp add: slice_def)

text \<open>Moving \<open>ptr_read\<close> forward inside the buffer.\<close>

lemma advanced_ptr:
  assumes "sc_inv invar s" "ptr_read s \<le> k" "k \<le> ptr_end s"
  shows "advanced contents invar s (s\<lparr>ptr_read := k\<rparr>)"
    and "sc_rest s = slice (sc_buf s) (ptr_read s) k @ sc_rest (s\<lparr>ptr_read := k\<rparr>)"
proof -
  show r: "sc_rest s = slice (sc_buf s) (ptr_read s) k @ sc_rest (s\<lparr>ptr_read := k\<rparr>)"
    using slice_split [OF assms(2,3), of "sc_buf s"] by (simp add: sc_rest_def)
  have "sc_out contents (s\<lparr>ptr_read := k\<rparr>) =
      sc_out contents s @ (if sc_keep s then slice (sc_buf s) (ptr_read s) k else [])"
    using assms slice_split [of "ptr_copy s" "ptr_read s" k "sc_buf s"] by (simp add: sc_out_def sc_inv_def)
  with r show "advanced contents invar s (s\<lparr>ptr_read := k\<rparr>)"
    using assms by (auto simp: advanced_def sc_inv_def same_control_def)
qed

lemma next_ok:
  assumes "sc_inv invar s" "ptr_read s < ptr_end s"
  shows "advanced contents invar s (sc_next s)" "sc_rest s = sc_cur s # sc_rest (sc_next s)"
  using advanced_ptr [OF assms(1), of "Suc (ptr_read s)"] assms
  by (simp_all add: sc_next_def sc_cur_def sc_inv_def slice_Suc)

section \<open>Refilling the buffer\<close>

context byte_sink
begin

lemma flush_ok:
  assumes "sc_inv invar s"
  shows "\<exists>s'. sc_flush wr s = Inr ((), s') \<and> sc_inv invar s' \<and> same_control s s' \<and>
     ptr_copy s' = ptr_read s' \<and> sc_rest s' = sc_rest s \<and> sc_out contents s' = sc_out contents s \<and>
     contents (sc_writer s') = sc_out contents s"
proof (cases "ptr_copy s \<noteq> ptr_read s \<and> sc_keep s")
  case True
  have "invar (sc_writer s)" using assms by (simp add: sc_inv_def)
  then obtain w where "wr (sc_writer s) (slice (sc_buf s) (ptr_copy s) (ptr_read s)) = Inr w" "invar w"
    "contents w = contents (sc_writer s) @ slice (sc_buf s) (ptr_copy s) (ptr_read s)" by (rule wrE)
  then show ?thesis
    using True assms by (simp add: sc_flush_def sc_inv_def same_control_def sc_rest_def sc_out_def)
next
  case False
  then show ?thesis
    using assms by (auto simp: sc_flush_def sc_inv_def same_control_def sc_rest_def sc_out_def)
qed

lemma write_ok:
  assumes "sc_inv invar s"
  shows "\<exists>s'. sc_write wr d s = Inr ((), s') \<and> sc_inv invar s' \<and> same_control s s' \<and>
     ptr_copy s' = ptr_read s' \<and> sc_rest s' = sc_rest s \<and> sc_out contents s' = sc_out contents s @ d"
proof -
  obtain s1 where s1: "sc_flush wr s = Inr ((), s1)" "sc_inv invar s1" "same_control s s1"
    "ptr_copy s1 = ptr_read s1" "sc_rest s1 = sc_rest s" "contents (sc_writer s1) = sc_out contents s"
    using flush_ok [OF assms] by blast
  then have "invar (sc_writer s1)" by (simp add: sc_inv_def)
  then obtain w where "wr (sc_writer s1) d = Inr w" "invar w" "contents w = contents (sc_writer s1) @ d"
    by (rule wrE)
  then show ?thesis
    using s1 by (auto simp: sc_write_def sc_inv_def same_control_def sc_rest_def sc_out_def)
qed

lemma read_ok:
  assumes inv: "sc_inv invar s" and e: "ptr_read s = ptr_end s"
  shows "\<exists>s'. sc_read wr s = Inr (sc_rest s \<noteq> [], s') \<and> advanced contents invar s s' \<and>
     sc_rest s' = sc_rest s \<and> ptr_read s' = 0 \<and> (sc_rest s \<noteq> [] \<longrightarrow> 0 < ptr_end s')"
proof -
  obtain s1 where s1: "sc_flush wr s = Inr ((), s1)" "sc_inv invar s1" "same_control s s1"
    "ptr_copy s1 = ptr_read s1" "sc_out contents s1 = sc_out contents s"
    "contents (sc_writer s1) = sc_out contents s"
    using flush_ok [OF inv] by blast
  have f: "sc_reader s1 = sc_reader s" using sc_flush_frame [OF s1(1)] by simp
  have rest: "sc_rest s = reader_bytes (sc_reader s)" using e by (simp add: sc_rest_def)
  obtain d r where r: "reader_read BUF_SIZE (sc_reader s) = Inr (d, r)" "clean_reader r"
    "d = [] \<longleftrightarrow> reader_bytes (sc_reader s) = []"
    using reader_read_clean [of "sc_reader s" BUF_SIZE] inv by (auto simp: sc_inv_def)
  have b: "reader_bytes (sc_reader s) = d @ reader_bytes r" using reader_read_bytes [OF r(1)] .
  define s' where "s' = s1\<lparr>sc_buf := d, ptr_read := 0, ptr_copy := 0, ptr_end := length d, sc_reader := r\<rparr>"
  have "sc_read wr s = Inr (sc_rest s \<noteq> [], s')"
    using s1(1) f r rest by (simp add: sc_read_def s'_def)
  moreover have s'_rest: "sc_rest s' = sc_rest s" using b rest by (simp add: sc_rest_def s'_def slice_def)
  moreover have "sc_out contents s' = sc_out contents s" using s1(6) by (simp add: sc_out_def s'_def)
  moreover have "sc_inv invar s'" "same_control s s'"
    using s1(2,3) r(2) by (simp_all add: sc_inv_def s'_def same_control_def)
  ultimately show ?thesis using r(3) rest by (auto simp: advanced_def s'_def)
qed

text \<open>Every scanning loop has this shape: work on the current byte, or refill and go on, or stop at
  the end of the input. One unfolding of it, seen on the rest of the input:\<close>

lemma refill_cases:
  assumes unfold: "\<And>s. m s =
      (if ptr_read s < ptr_end s then A s
       else rbind (sc_read wr s) (\<lambda>r. if fst r then m (snd r) else B (snd r)))"
    and inv: "sc_inv invar s"
  obtains (End) s1 where "sc_rest s = []" "advanced contents invar s s1" "sc_rest s1 = []" "m s = B s1"
  | (Byte) c cs s1 where "sc_rest s = c # cs" "advanced contents invar s s1" "sc_rest s1 = c # cs"
      "ptr_read s1 < ptr_end s1" "sc_cur s1 = c" "advanced contents invar s1 (sc_next s1)"
      "sc_rest (sc_next s1) = cs" "m s = A s1"
proof (cases "ptr_read s < ptr_end s")
  case True
  note n = next_ok(1) [OF inv True, where contents = contents] next_ok(2) [OF inv True]
  show ?thesis
    using Byte [OF n(2) advanced_refl [OF inv] n(2) True refl n(1) refl] unfold [of s] True by simp
next
  case False
  then have "ptr_read s = ptr_end s" using inv by (simp add: sc_inv_def)
  then obtain s' where r: "sc_read wr s = Inr (sc_rest s \<noteq> [], s')" "advanced contents invar s s'"
    "sc_rest s' = sc_rest s" "ptr_read s' = 0" "sc_rest s \<noteq> [] \<longrightarrow> 0 < ptr_end s'"
    using read_ok [OF inv] by blast
  show ?thesis
  proof (cases "sc_rest s = []")
    case True
    then show ?thesis using End [OF True r(2)] r(1,3) unfold [of s] False by simp
  next
    case ne: False
    then have a: "ptr_read s' < ptr_end s'" using r(4,5) by simp
    note n = next_ok(1) [OF advanced_inv [OF r(2)] a, where contents = contents]
      next_ok(2) [OF advanced_inv [OF r(2)] a]
    have "m s = A s'" using unfold [of s] unfold [of s'] r(1) False ne a by simp
    then show ?thesis using Byte [OF _ r(2) n(2) a refl n(1) refl] n(2) r(3) by simp
  qed
qed

end

section \<open>Simulation\<close>

text \<open>\<open>op\<close> does on the state what \<open>spec\<close> says of the rest of the input: it fails with the same
  error, or it is \<open>cont\<close> of the result, in a state that has advanced to the new rest.\<close>

definition sims ::
    "('w \<Rightarrow> bytes) \<Rightarrow> ('w \<Rightarrow> bool) \<Rightarrow> ('w scanner \<Rightarrow> bool) \<Rightarrow> ('a \<Rightarrow> 'w scanner \<Rightarrow> ('b \<times> 'w scanner) result) \<Rightarrow>
     ('w scanner \<Rightarrow> ('b \<times> 'w scanner) result) \<Rightarrow> 'a spec \<Rightarrow> 'w scanner \<Rightarrow> bool" where
  "sims contents invar Q cont op spec s \<longleftrightarrow>
     (case spec (sc_rest s) of
        Inl e \<Rightarrow> op s = Inl e
      | Inr (x, rest) \<Rightarrow>
          \<exists>s1. advanced contents invar s s1 \<and> sc_rest s1 = rest \<and> Q s1 \<and> op s = cont x s1)"

abbreviation anywhere :: "'w scanner \<Rightarrow> bool" where
  "anywhere \<equiv> \<lambda>_. True"

lemma sims_bind:
  assumes "sims contents invar Q sret op spec s"
    and "\<And>x s1. advanced contents invar s s1 \<Longrightarrow> Q s1 \<Longrightarrow> sims contents invar Q' cont (f x) (g x) s1"
  shows "sims contents invar Q' cont (sbind op f) (sbind spec g) s"
proof (cases "spec (sc_rest s)")
  case (Inl e)
  then show ?thesis using assms(1) by (simp add: sims_def)
next
  case (Inr r)
  then obtain x rest where r: "spec (sc_rest s) = Inr (x, rest)" by (cases r) auto
  with assms(1) obtain s1 where s1: "advanced contents invar s s1" "sc_rest s1 = rest" "Q s1"
    "op s = Inr (x, s1)" by (auto simp: sims_def)
  from assms(2) [OF s1(1,3), of x] s1 r show ?thesis
    by (auto simp: sims_def intro: advanced_trans split: sum.splits prod.splits)
qed

lemma sims_ret: "sc_inv invar s \<Longrightarrow> Q s \<Longrightarrow> sims contents invar Q cont (cont x) (sret x) s"
  by (auto simp: sims_def intro: advanced_refl)

lemma sims_mono: "sims contents invar Q cont op spec s \<Longrightarrow> sims contents invar anywhere cont op spec s"
  by (auto simp: sims_def split: sum.splits prod.splits)

lemma sims_advanced:
  assumes "advanced contents invar s t" "sims contents invar Q cont op spec t"
    "spec' (sc_rest s) = spec (sc_rest t)" "op' s = op t"
  shows "sims contents invar Q cont op' spec' s"
  using assms by (auto simp: sims_def intro: advanced_trans split: sum.splits prod.splits)

context byte_sink
begin

lemma peek_ok:
  assumes "sc_inv invar s"
  obtains (End) s1 where "sc_rest s = []" "advanced contents invar s s1" "sc_rest s1 = []"
      "sc_peek wr s = Inr (None, s1)"
  | (Byte) c cs s1 where "sc_rest s = c # cs" "advanced contents invar s s1" "sc_rest s1 = c # cs"
      "ptr_read s1 < ptr_end s1" "sc_cur s1 = c" "advanced contents invar s1 (sc_next s1)"
      "sc_rest (sc_next s1) = cs" "sc_peek wr s = Inr (Some c, s1)"
proof (cases "ptr_read s < ptr_end s")
  case True
  note n = next_ok(1) [OF assms True, where contents = contents] next_ok(2) [OF assms True]
  show ?thesis
    using Byte [OF n(2) advanced_refl [OF assms] n(2) True refl n(1) refl] True by (simp add: sc_peek_def)
next
  case False
  then have "ptr_read s = ptr_end s" using assms by (simp add: sc_inv_def)
  then obtain s' where r: "sc_read wr s = Inr (sc_rest s \<noteq> [], s')" "advanced contents invar s s'"
    "sc_rest s' = sc_rest s" "ptr_read s' = 0" "sc_rest s \<noteq> [] \<longrightarrow> 0 < ptr_end s'"
    using read_ok [OF assms] by blast
  show ?thesis
  proof (cases "sc_rest s = []")
    case True
    then show ?thesis using End [OF True r(2)] r(1,3) False by (simp add: sc_peek_def)
  next
    case ne: False
    then have a: "ptr_read s' < ptr_end s'" using r(4,5) by simp
    note n = next_ok(1) [OF advanced_inv [OF r(2)] a, where contents = contents]
      next_ok(2) [OF advanced_inv [OF r(2)] a]
    have p: "sc_peek wr s = Inr (Some (sc_cur s'), s')" using r(1) ne False by (simp add: sc_peek_def)
    show ?thesis using Byte [OF _ r(2) n(2) a refl n(1) refl p] n(2) r(3) by simp
  qed
qed

lemma sims_skip: "sc_inv invar s \<Longrightarrow> sims contents invar anywhere sret (skip_class P wr) (sp_skip P) s"
proof (induction "sc_rest s" arbitrary: s)
  case Nil
  show ?case
    by (rule refill_cases [OF skip_class.simps [of P wr] Nil.prems]) (use Nil.hyps in \<open>auto simp: sims_def sp_skip_def\<close>)
next
  case (Cons c cs)
  show ?case
  proof (rule refill_cases [OF skip_class.simps [of P wr] Cons.prems])
    fix c' cs' s1 assume *: "sc_rest s = c' # cs'" "advanced contents invar s s1" "sc_rest s1 = c' # cs'"
      "sc_cur s1 = c'" "advanced contents invar s1 (sc_next s1)" "sc_rest (sc_next s1) = cs'"
      "skip_class P wr s = (if P (sc_cur s1) then skip_class P wr (sc_next s1) else Inr ((), s1))"
    show ?thesis
    proof (cases "P c'")
      case True
      have "sims contents invar anywhere sret (skip_class P wr) (sp_skip P) (sc_next s1)"
        using Cons.hyps(1) [of "sc_next s1"] Cons.hyps(2) * advanced_inv by auto
      then show ?thesis
        by (rule sims_advanced [OF advanced_trans [OF *(2,5)]]) (use * True in \<open>simp_all add: sp_skip_def\<close>)
    next
      case False
      then show ?thesis using * by (auto simp: sims_def sp_skip_def)
    qed
  qed (use Cons.hyps in simp)
qed

lemma sims_token_loop:
  assumes "sc_inv invar s" "length token \<le> cap"
  shows "sims contents invar anywhere sret (parse_token_loop wr cap token)
    (\<lambda>xs. rbind (sp_token (cap - length token) xs) (\<lambda>(t, rest). Inr (token @ t, rest))) s"
  using assms
proof (induction "sc_rest s" arbitrary: s token)
  case Nil
  show ?case
    by (rule refill_cases [OF parse_token_loop.simps [of wr cap token] Nil.prems(1)])
      (use Nil in \<open>auto simp: sims_def sp_token_def\<close>)
next
  case (Cons c cs)
  show ?case
  proof (rule refill_cases [OF parse_token_loop.simps [of wr cap token] Cons.prems(1)])
    fix c' cs' s1 assume *: "sc_rest s = c' # cs'" "advanced contents invar s s1" "sc_rest s1 = c' # cs'"
      "sc_cur s1 = c'" "advanced contents invar s1 (sc_next s1)" "sc_rest (sc_next s1) = cs'"
      "parse_token_loop wr cap token s = (if is_token_char (sc_cur s1) then
           (if cap \<le> length token then Inl (pp_error TokenTooLong)
            else parse_token_loop wr cap (token @ [sc_cur s1]) (sc_next s1))
         else Inr (token, s1))"
    consider "\<not> is_token_char c'" | "is_token_char c'" "cap \<le> length token"
      | "is_token_char c'" "length token < cap" by linarith
    then show ?thesis
    proof cases
      case 1
      then show ?thesis using * by (auto simp: sims_def sp_token_def)
    next
      case 2
      then show ?thesis using * by (auto simp: sims_def sp_token_def)
    next
      case 3
      have "sims contents invar anywhere sret (parse_token_loop wr cap (token @ [c']))
        (\<lambda>xs. rbind (sp_token (cap - length (token @ [c'])) xs) (\<lambda>(t, rest). Inr ((token @ [c']) @ t, rest)))
        (sc_next s1)"
        using Cons.hyps(1) [of "sc_next s1" "token @ [c']"] Cons.hyps(2) * 3 advanced_inv by auto
      then show ?thesis
        by (rule sims_advanced [OF advanced_trans [OF *(2,5)]])
          (use * 3 in \<open>auto simp: sp_token_def Let_def Suc_diff_Suc\<close>)
    qed
  qed (use Cons.hyps in simp)
qed

lemma sims_token: "sc_inv invar s \<Longrightarrow> sims contents invar anywhere sret (parse_token wr cap) (sp_token cap) s"
  using sims_token_loop [of s "[]" cap]
  by (auto simp: parse_token_def sims_def split: sum.splits prod.splits)

end

section \<open>Line ends\<close>

lemma memchr_Some:
  assumes "memchr_nl s = Some e" "sc_inv invar s"
  shows "ptr_read s \<le> e \<and> e < ptr_end s \<and>
    slice (sc_buf s) (ptr_read s) e = takeWhile (\<lambda>c. c \<noteq> b_nl) (sc_rest s) \<and>
    dropWhile (\<lambda>c. c \<noteq> b_nl) (sc_rest s) = b_nl # sc_rest (s\<lparr>ptr_read := Suc e\<rparr>)"
proof -
  define t where "t = slice (sc_buf s) (ptr_read s) (ptr_end s)"
  define l where "l = takeWhile (\<lambda>c. c \<noteq> b_nl) t"
  have e: "length l < length t" "e = ptr_read s + length l"
    using assms(1) by (auto simp: memchr_nl_def t_def l_def Let_def split: if_splits)
  have lt: "length t = ptr_end s - ptr_read s" using assms(2) by (simp add: t_def length_slice sc_inv_def)
  have dw: "dropWhile (\<lambda>c. c \<noteq> b_nl) t \<noteq> []" using e(1) takeWhile_dropWhile_id [of "\<lambda>c. c \<noteq> b_nl" t]
    by (metis append_Nil2 l_def less_irrefl)
  have t: "t = l @ b_nl # drop (Suc (length l)) t"
    using dw hd_dropWhile [OF dw] takeWhile_dropWhile_id [of "\<lambda>c. c \<noteq> b_nl" t]
    by (metis (no_types, lifting) append_eq_conv_conj drop_Suc l_def list.collapse tl_drop)
  have take: "slice (sc_buf s) (ptr_read s) e = l"
    using e lt t by (simp add: slice_def t_def) (metis append_eq_conv_conj min.absorb1 nat_less_le take_take)
  have "drop (Suc (length l)) t = slice (sc_buf s) (Suc e) (ptr_end s)"
    using e lt by (simp add: t_def slice_def drop_take add.commute)
  then have rest: "sc_rest s = l @ b_nl # sc_rest (s\<lparr>ptr_read := Suc e\<rparr>)"
    using t by (simp add: sc_rest_def t_def)
  have "\<forall>c \<in> set l. c \<noteq> b_nl" by (auto simp: l_def dest: set_takeWhileD)
  then have "takeWhile (\<lambda>c. c \<noteq> b_nl) (sc_rest s) = l"
    "dropWhile (\<lambda>c. c \<noteq> b_nl) (sc_rest s) = b_nl # sc_rest (s\<lparr>ptr_read := Suc e\<rparr>)"
    by (simp_all add: rest takeWhile_append2 dropWhile_append2)
  then show ?thesis using e lt take by auto
qed

lemma memchr_None:
  assumes "memchr_nl s = None"
  shows "\<forall>c \<in> set (slice (sc_buf s) (ptr_read s) (ptr_end s)). c \<noteq> b_nl"
  using assms length_takeWhile_less [of "slice (sc_buf s) (ptr_read s) (ptr_end s)" "\<lambda>c. c \<noteq> b_nl"]
  by (auto simp: memchr_nl_def Let_def split: if_splits)

text \<open>The byte before \<open>ptr_read\<close>, or \<open>prev\<close> at the start of the buffer.\<close>

definition sc_prev :: "byte \<Rightarrow> 'w scanner \<Rightarrow> byte" where
  "sc_prev prev s = (if ptr_read s \<noteq> 0 then sc_buf s ! (ptr_read s - 1) else prev)"

definition not_after_cr :: "'w scanner \<Rightarrow> bool" where
  "not_after_cr s \<longleftrightarrow> sc_prev 0 s \<noteq> b_cr"

lemma last_slice:
  "i \<le> j \<Longrightarrow> j \<le> length xs \<Longrightarrow> 0 < j \<Longrightarrow> last ((if i \<noteq> 0 then xs ! (i - 1) else p) # slice xs i j) = xs ! (j - 1)"
  by (cases "i = j") (auto simp: slice_def last_conv_nth)

lemma last_sc_prev:
  assumes "sc_inv invar s" "ptr_read s \<le> j" "j \<le> ptr_end s" "0 < j"
  shows "last (sc_prev prev s # slice (sc_buf s) (ptr_read s) j) = sc_buf s ! (j - 1)"
  unfolding sc_prev_def by (rule last_slice) (use assms in \<open>auto simp: sc_inv_def\<close>)

definition sp_eol_after :: "byte \<Rightarrow> bytes spec" where
  "sp_eol_after prev xs =
     (case dropWhile (\<lambda>c. c \<noteq> b_nl) xs of
        [] \<Rightarrow> Inr ([], [])
      | _ # rest \<Rightarrow>
          Inr (if last (prev # takeWhile (\<lambda>c. c \<noteq> b_nl) xs) = b_cr then [b_cr, b_nl] else [b_nl], rest))"

lemma sp_eol_after_append:
  assumes "\<forall>c \<in> set l. c \<noteq> b_nl"
  shows "sp_eol_after prev (l @ xs) = sp_eol_after (last (prev # l)) xs"
proof -
  have "last (prev # l @ t) = last (last (prev # l) # t)" for t by (cases t) auto
  then show ?thesis
    using assms by (simp add: sp_eol_after_def dropWhile_append2 takeWhile_append2 del: last.simps)
qed

lemma sp_eol_after:
  assumes "prev \<noteq> b_cr"
  shows "sp_eol_after prev xs = sp_eol xs"
proof -
  obtain l where l: "takeWhile (\<lambda>c. c \<noteq> b_nl) xs = l" by blast
  show ?thesis
    unfolding sp_eol_after_def sp_eol_def Let_def l using assms by (cases l) simp_all
qed

context byte_sink
begin

text \<open>Skipping to the end of the buffer and refilling, when it holds no line feed.\<close>

lemma skip_buffer:
  assumes "sc_inv invar s"
  obtains s2 where "sc_read wr (s\<lparr>ptr_read := ptr_end s\<rparr>) = Inr (sc_rest s2 \<noteq> [], s2)"
    "advanced contents invar s s2" "ptr_read s2 = 0" "sc_rest s2 \<noteq> [] \<longrightarrow> 0 < ptr_end s2"
    "sc_rest s = slice (sc_buf s) (ptr_read s) (ptr_end s) @ sc_rest s2"
proof -
  have le: "ptr_read s \<le> ptr_end s" using assms by (simp add: sc_inv_def)
  note a = advanced_ptr(1) [OF assms le le_refl, where contents = contents]
    advanced_ptr(2) [OF assms le le_refl]
  from read_ok [OF advanced_inv [OF a(1)]] obtain s2 where
    "sc_read wr (s\<lparr>ptr_read := ptr_end s\<rparr>) = Inr (sc_rest (s\<lparr>ptr_read := ptr_end s\<rparr>) \<noteq> [], s2)"
    "advanced contents invar (s\<lparr>ptr_read := ptr_end s\<rparr>) s2"
    "sc_rest s2 = sc_rest (s\<lparr>ptr_read := ptr_end s\<rparr>)" "ptr_read s2 = 0"
    "sc_rest (s\<lparr>ptr_read := ptr_end s\<rparr>) \<noteq> [] \<longrightarrow> 0 < ptr_end s2" by auto
  then show ?thesis using that [of s2] a advanced_trans [OF a(1)] by simp
qed

lemma sims_next_line: "sc_inv invar s \<Longrightarrow> sims contents invar anywhere sret (next_line wr) sp_line s"
proof (induction "sc_measure s" arbitrary: s rule: less_induct)
  case less
  show ?case
  proof (cases "memchr_nl s")
    case (Some e)
    note m = memchr_Some [OF Some less.prems]
    with advanced_ptr(1) [OF less.prems, of "Suc e" contents] Some show ?thesis
      by (auto simp: sims_def sp_line_def next_line.simps [of wr s])
  next
    case None
    obtain s2 where s2: "sc_read wr (s\<lparr>ptr_read := ptr_end s\<rparr>) = Inr (sc_rest s2 \<noteq> [], s2)"
      "advanced contents invar s s2"
      "sc_rest s = slice (sc_buf s) (ptr_read s) (ptr_end s) @ sc_rest s2"
      by (rule skip_buffer [OF less.prems])
    have l: "sp_line (sc_rest s) = sp_line (sc_rest s2)"
      using memchr_None [OF None] by (simp add: sp_line_def s2(3) dropWhile_append2)
    show ?thesis
    proof (cases "sc_rest s2 = []")
      case True
      then show ?thesis
        using s2(1,2) l None by (auto simp: sims_def next_line.simps [of wr s] sp_line_def)
    next
      case False
      then have "sc_measure s2 < sc_measure s" using sc_read_end_measure_less s2(1) by auto
      then have "sims contents invar anywhere sret (next_line wr) sp_line s2"
        using less.hyps advanced_inv [OF s2(2)] by blast
      then show ?thesis
        by (rule sims_advanced [OF s2(2)]) (use l False None s2(1) in \<open>simp_all add: next_line.simps [of wr s]\<close>)
    qed
  qed
qed

lemma sims_next_line_eol_loop:
  assumes "sc_inv invar s" "ptr_end s = 0 \<Longrightarrow> prev = 0"
  shows "sims contents invar anywhere sret (next_line_eol_loop wr prev) (sp_eol_after (sc_prev prev s)) s"
  using assms
proof (induction "sc_measure s" arbitrary: s prev rule: less_induct)
  case less
  show ?case
  proof (cases "memchr_nl s")
    case (Some e)
    note m = memchr_Some [OF Some less.prems(1)]
    define prev' where "prev' = (if e \<noteq> 0 then sc_buf s ! (e - 1) else prev)"
    have "prev' = last (sc_prev prev s # takeWhile (\<lambda>c. c \<noteq> b_nl) (sc_rest s))"
    proof (cases "e = 0")
      case True
      then show ?thesis using m by (simp add: prev'_def sc_prev_def flip: m [THEN conjunct2, THEN conjunct2, THEN conjunct1])
    next
      case False
      then have "prev' = last (sc_prev prev s # slice (sc_buf s) (ptr_read s) e)"
        using last_sc_prev [OF less.prems(1), of e prev] m by (simp add: prev'_def)
      then show ?thesis using m by simp
    qed
    then show ?thesis
      using m advanced_ptr(1) [OF less.prems(1), of "Suc e" contents] Some
      by (auto simp: sims_def sp_eol_after_def next_line_eol_loop.simps [of wr prev s] Let_def prev'_def)
  next
    case None
    define prev' where "prev' = (if ptr_end s \<noteq> 0 then sc_buf s ! (ptr_end s - 1) else 0)"
    define l where "l = slice (sc_buf s) (ptr_read s) (ptr_end s)"
    obtain s2 where s2: "sc_read wr (s\<lparr>ptr_read := ptr_end s\<rparr>) = Inr (sc_rest s2 \<noteq> [], s2)"
      "advanced contents invar s s2" "ptr_read s2 = 0" "sc_rest s2 \<noteq> [] \<longrightarrow> 0 < ptr_end s2"
      "sc_rest s = l @ sc_rest s2"
      unfolding l_def by (rule skip_buffer [OF less.prems(1)])
    have p: "prev' = last (sc_prev prev s # l)"
    proof (cases "ptr_end s = 0")
      case True
      then show ?thesis
        using less.prems by (simp add: prev'_def sc_prev_def l_def slice_def sc_inv_def)
    next
      case False
      then have "last (sc_prev prev s # l) = sc_buf s ! (ptr_end s - 1)"
        unfolding l_def by (intro last_sc_prev [OF less.prems(1)]) (use less.prems(1) in \<open>auto simp: sc_inv_def\<close>)
      then show ?thesis by (simp only: prev'_def if_P [OF False])
    qed
    have e: "sp_eol_after (sc_prev prev s) (sc_rest s) = sp_eol_after prev' (sc_rest s2)"
      unfolding s2(5) p by (rule sp_eol_after_append) (use memchr_None [OF None] in \<open>simp add: l_def\<close>)
    have loop: "next_line_eol_loop wr prev s =
        (if sc_rest s2 \<noteq> [] then next_line_eol_loop wr prev' s2 else Inr ([], s2))"
      using None s2(1) by (simp add: next_line_eol_loop.simps [of wr prev s] Let_def prev'_def)
    show ?thesis
    proof (cases "sc_rest s2 = []")
      case True
      then show ?thesis using s2(2) e loop by (auto simp: sims_def sp_eol_after_def)
    next
      case False
      then have "sc_measure s2 < sc_measure s" using sc_read_end_measure_less s2(1) by auto
      then have "sims contents invar anywhere sret (next_line_eol_loop wr prev') (sp_eol_after (sc_prev prev' s2)) s2"
        by (rule less.hyps) (use advanced_inv [OF s2(2)] s2(4) False in auto)
      moreover have "sc_prev prev' s2 = prev'" using s2(3) by (simp add: sc_prev_def)
      ultimately show ?thesis
        using e loop False by (intro sims_advanced [OF s2(2)]) simp_all
    qed
  qed
qed

lemma sims_next_line_eol:
  "sc_inv invar s \<Longrightarrow> not_after_cr s \<Longrightarrow> sims contents invar anywhere sret (next_line_eol wr) sp_eol s"
  using sims_next_line_eol_loop [of s 0] sp_eol_after [of "sc_prev 0 s"]
  by (simp add: next_line_eol_def not_after_cr_def sims_def)

end

section \<open>Paths\<close>

lemma arr_push_ok: "length xs < cap \<Longrightarrow> arr_push cap xs c = Inr (xs @ [c])"
  by (simp add: arr_push_def)

lemma not_too_long: "\<not> path_too_long token raw \<longleftrightarrow> length raw < PATH_SIZE - 2 \<and> length token < PATH_SIZE - 1"
  by (auto simp: path_too_long_def)

lemma path_room:
  assumes "\<not> path_too_long token raw"
  shows "length token < PATH_SIZE" "length raw < PATH_SIZE" "Suc (length raw) < PATH_SIZE"
  using assms by (simp_all add: not_too_long PATH_SIZE_def)

lemma not_after_cr_next: "sc_cur s \<noteq> b_cr \<Longrightarrow> not_after_cr (sc_next s)"
  by (simp add: not_after_cr_def sc_prev_def sc_next_def sc_cur_def)

context byte_sink
begin

text \<open>An escape, seen at the backslash.\<close>

lemma escape_ok:
  assumes "sc_inv invar s" "ptr_read s < ptr_end s" "sc_rest s = c # cs"
  obtains (End) "cs = []" "parse_escape wr s = Inl (pp_error EscapeEof)"
  | (Byte) e ys s1 where "cs = e # ys" "advanced contents invar s s1" "sc_rest s1 = ys"
      "parse_escape wr s = Inr (unescape e, s1)"
proof -
  note n = next_ok(1) [OF assms(1,2), where contents = contents] next_ok(2) [OF assms(1,2)]
  have cs: "sc_rest (sc_next s) = cs" using n(2) assms(3) by simp
  show ?thesis
  proof (rule peek_ok [OF advanced_inv [OF n(1)]])
    fix s1 assume "sc_rest (sc_next s) = []" "sc_peek wr (sc_next s) = Inr (None, s1)"
    then show ?thesis using End cs by (simp add: parse_escape_def)
  next
    fix e ys s1 assume *: "sc_rest (sc_next s) = e # ys" "advanced contents invar (sc_next s) s1"
      "advanced contents invar s1 (sc_next s1)" "sc_rest (sc_next s1) = ys"
      "sc_peek wr (sc_next s) = Inr (Some e, s1)"
    have "advanced contents invar s (sc_next s1)"
      using n(1) *(2,3) by (blast intro: advanced_trans)
    with * show ?thesis using Byte [of e ys "sc_next s1"] cs by (simp add: parse_escape_def)
  qed
qed

lemma sims_path_loop:
  assumes "sc_inv invar s" "\<not> path_too_long token raw"
  shows "sims contents invar not_after_cr sret (parse_path_loop wr quote token raw) (sp_path_loop quote token raw) s"
  using assms
proof (induction "length (sc_rest s)" arbitrary: s token raw rule: less_induct)
  case less
  note room = path_room [OF less.prems(2)]
  show ?case
  proof (rule refill_cases [OF parse_path_loop.simps [of wr quote token raw] less.prems(1)])
    fix s1 assume "sc_rest s = []" "parse_path_loop wr quote token raw s = Inl (pp_error LiteralEof)"
    then show ?thesis by (simp add: sims_def)
  next
    fix c cs s1 assume *: "sc_rest s = c # cs" "advanced contents invar s s1" "sc_rest s1 = c # cs"
      "ptr_read s1 < ptr_end s1" "sc_cur s1 = c" "advanced contents invar s1 (sc_next s1)"
      "sc_rest (sc_next s1) = cs" and
      loop: "parse_path_loop wr quote token raw s =
        (let c = sc_cur s1 in
         if c = b_nl \<or> c = b_cr then Inl (pp_error LiteralEol)
         else if c = b_backslash then
           rbind (arr_push PATH_SIZE raw b_backslash) (\<lambda>raw1.
           rbind (arr_push PATH_SIZE raw1 c) (\<lambda>raw2.
           rbind (parse_escape wr s1) (\<lambda>v.
           rbind (arr_push PATH_SIZE token (if fst v = b_backslash then b_slash else fst v)) (\<lambda>token1.
             if path_too_long token1 raw2 then Inl (pp_error LiteralTooLong)
             else parse_path_loop wr quote token1 raw2 (snd v)))))
         else
           rbind (arr_push PATH_SIZE raw c) (\<lambda>raw1.
             if c = quote then Inr ((token, raw1), sc_next s1)
             else rbind (arr_push PATH_SIZE token c) (\<lambda>token1.
               if path_too_long token1 raw1 then Inl (pp_error LiteralTooLong)
               else parse_path_loop wr quote token1 raw1 (sc_next s1))))"
    consider (eol) "c = b_nl \<or> c = b_cr" | (esc) "c = b_backslash"
      | (quote) "c \<noteq> b_nl" "c \<noteq> b_cr" "c \<noteq> b_backslash" "c = quote"
      | (plain) "c \<noteq> b_nl" "c \<noteq> b_cr" "c \<noteq> b_backslash" "c \<noteq> quote" by blast
    then show ?thesis
    proof cases
      case eol
      then show ?thesis using * loop by (auto simp: sims_def)
    next
      case quote
      have "not_after_cr (sc_next s1)" using quote * by (intro not_after_cr_next) simp
      then show ?thesis
        using quote * loop room advanced_trans [OF *(2,6)] by (auto simp: sims_def arr_push_ok)
    next
      case plain
      let ?t = "token @ [c]" and ?r = "raw @ [c]"
      show ?thesis
      proof (cases "path_too_long ?t ?r")
        case True
        then show ?thesis using plain * loop room by (simp add: sims_def arr_push_ok)
      next
        case False
        have "sims contents invar not_after_cr sret (parse_path_loop wr quote ?t ?r) (sp_path_loop quote ?t ?r) (sc_next s1)"
          by (rule less.hyps) (use * False advanced_inv in auto)
        then show ?thesis
          by (rule sims_advanced [OF advanced_trans [OF *(2,6)]])
            (use plain False * loop room in \<open>simp_all add: arr_push_ok\<close>)
      qed
    next
      case esc
      show ?thesis
      proof (rule escape_ok [OF advanced_inv [OF *(2)] *(4,3)])
        assume "cs = []" "parse_escape wr s1 = Inl (pp_error EscapeEof)"
        then show ?thesis using esc * loop room by (simp add: sims_def arr_push_ok)
      next
        fix e ys s2 assume e: "cs = e # ys" "advanced contents invar s1 s2" "sc_rest s2 = ys"
          "parse_escape wr s1 = Inr (unescape e, s2)"
        let ?t = "token @ [if unescape e = b_backslash then b_slash else unescape e]"
        let ?r = "raw @ [b_backslash, b_backslash]"
        show ?thesis
        proof (cases "path_too_long ?t ?r")
          case True
          then show ?thesis using esc * loop room e by (simp add: sims_def arr_push_ok cong del: if_weak_cong)
        next
          case False
          have "sims contents invar not_after_cr sret (parse_path_loop wr quote ?t ?r) (sp_path_loop quote ?t ?r) s2"
            by (rule less.hyps) (use * e False advanced_inv in auto)
          then show ?thesis
            by (rule sims_advanced [OF advanced_trans [OF *(2) e(2)]])
              (use esc False * loop room e in \<open>simp_all add: arr_push_ok cong del: if_weak_cong\<close>)
        qed
      qed
    qed
  qed
qed

lemma sims_path: "sc_inv invar s \<Longrightarrow> sims contents invar not_after_cr sret (parse_path wr) sp_path s"
proof -
  assume inv: "sc_inv invar s"
  show ?thesis
  proof (rule peek_ok [OF inv])
    fix s1 assume "sc_rest s = []" "sc_peek wr s = Inr (None, s1)"
    then show ?thesis by (simp add: sims_def parse_path_def sp_path_def)
  next
    fix c cs s1 assume *: "sc_rest s = c # cs" "advanced contents invar s s1"
      "advanced contents invar s1 (sc_next s1)" "sc_rest (sc_next s1) = cs" "sc_peek wr s = Inr (Some c, s1)"
    have "\<not> path_too_long [] [c]" by (simp add: path_too_long_def PATH_SIZE_def)
    then have "sims contents invar not_after_cr sret (parse_path_loop wr c [] [c]) (sp_path_loop c [] [c]) (sc_next s1)"
      using sims_path_loop advanced_inv [OF *(3)] by blast
    then show ?thesis
      by (rule sims_advanced [OF advanced_trans [OF *(2,3)]])
        (use * in \<open>simp_all add: parse_path_def sp_path_def arr_push_def PATH_SIZE_def\<close>)
  qed
qed

end

end
