(* ===== verification/Postprocess_Filter.thy ===== *)
theory Postprocess_Filter
  imports Postprocess_Correct
begin

text \<open>
  The whole of \<open>filter_preprocessed\<close>: the directives, the loop over the lines and the copy of the
  rest refine \<open>filter_spec\<close>, so that the output is the function \<open>filter_output\<close> of the input bytes.
  From this follow the properties of the filter: it does not depend on how the input is cut into
  reads, what it writes is the input with one insertion, and where it fails.
\<close>

section \<open>Lines\<close>

text \<open>What the code does for each effect, as the continuation of the scanning.\<close>

fun apply_effect ::
    "('w \<Rightarrow> bytes \<Rightarrow> 'w result) \<Rightarrow> line_effect \<Rightarrow> 'w scanner \<Rightarrow> (unit \<times> 'w scanner) result" where
  "apply_effect wr Plain s = Inr ((), s)"
| "apply_effect wr (LineMark line file raw eol) s = line_update wr line file raw eol s"
| "apply_effect wr HdrStop s =
     rbind (if \<not> sc_keep s then sc_write wr (ascii ''#pragma hdrstop'') s else Inr ((), s))
       (\<lambda>r. Inr ((), (snd r)\<lparr>sc_done := True\<rparr>))"

context byte_sink
begin

lemma sims_other: "sc_inv invar s \<Longrightarrow> sims contents invar anywhere (apply_effect wr) (next_line wr) sp_other s"
  using sims_next_line [of s] by (auto simp: sims_def sp_other_def sbind_def sp_line_def)

lemma sims_spaces: "sc_inv invar s \<Longrightarrow> sims contents invar anywhere sret (parse_spaces wr) (sp_skip is_space) s"
  by (simp add: parse_spaces_def sims_skip)

lemma sims_directive_line:
  assumes "sc_inv invar s"
  shows "sims contents invar anywhere (apply_effect wr) (parse_directive_line wr) sp_directive_line s"
proof -
  have last: "sims contents invar anywhere (apply_effect wr) (line_update wr line f raw eol)
      (sret (LineMark line f raw eol)) t" if "sc_inv invar t" for line f raw eol t
    using sims_ret [OF that, of anywhere contents "apply_effect wr" "LineMark line f raw eol"]
    by (simp add: sims_def)
  show ?thesis
    unfolding parse_directive_line_def sp_directive_line_def
    by (rule sims_bind [OF sims_spaces [OF assms]], rule sims_bind [OF sims_token [OF advanced_inv]],
        assumption, rule sims_bind [OF sims_spaces [OF advanced_inv]], assumption,
        rule sims_bind [OF sims_path [OF advanced_inv]], assumption)
      (auto split: prod.split intro!: sims_bind [OF sims_next_line_eol] last intro: advanced_inv)
qed

lemma sims_directive_pragma:
  assumes "sc_inv invar s"
  shows "sims contents invar anywhere (apply_effect wr) (parse_directive_pragma wr) sp_directive_pragma s"
proof -
  have last: "sims contents invar anywhere (apply_effect wr) (apply_effect wr HdrStop) (sret HdrStop) t"
    if "sc_inv invar t" for t by (rule sims_ret [OF that]) simp
  have op: "apply_effect wr HdrStop = (\<lambda>s. rbind (if \<not> sc_keep s then sc_write wr (ascii ''#pragma hdrstop'') s else Inr ((), s))
                (\<lambda>r. Inr ((), (snd r)\<lparr>sc_done := True\<rparr>)))" by (rule ext) simp
  show ?thesis
    unfolding parse_directive_pragma_def sp_directive_pragma_def op [symmetric]
    by (rule sims_bind [OF sims_spaces [OF assms]], rule sims_bind [OF sims_token])
      (auto intro: advanced_inv last sims_other)
qed

lemma sims_directive:
  assumes "sc_inv invar s"
  shows "sims contents invar anywhere (apply_effect wr) (parse_directive wr) sp_directive s"
  unfolding parse_directive_def sp_directive_def
  by (rule sims_bind [OF sims_spaces [OF assms]], rule sims_bind [OF sims_token])
    (auto intro: advanced_inv sims_directive_line sims_directive_pragma sims_other)

lemma sims_parse_line:
  assumes "sc_inv invar s"
  shows "sims contents invar anywhere (apply_effect wr) (parse_line wr) sp_parse_line s"
proof -
  have spec: "sp_parse_line = sbind (sp_skip is_empty_char) (\<lambda>_ xs. case xs of [] \<Rightarrow> Inr (Plain, [])
      | c # ys \<Rightarrow> if c = b_hash then sp_directive ys else sp_other xs)"
    by (rule ext) (simp only: sp_parse_line_def sbind_def sp_skip_def rbind_Inr prod.case if_distrib [of "\<lambda>f. f _"] refl cong: list.case_cong)
  have first: "sims contents invar anywhere sret (parse_empty wr) (sp_skip is_empty_char) s"
    using assms by (simp add: parse_empty_def sims_skip)
  show ?thesis
    unfolding parse_line_def spec
  proof (rule sims_bind [OF first])
    fix x t assume "advanced contents invar s t"
    then have inv: "sc_inv invar t" by (rule advanced_inv)
    show "sims contents invar anywhere (apply_effect wr)
      (sbind (sc_peek wr) (\<lambda>p. case p of
         Some c \<Rightarrow> if c = b_hash then (\<lambda>s. parse_directive wr (sc_next s)) else next_line wr
       | None \<Rightarrow> sret ()))
      (\<lambda>xs. case xs of [] \<Rightarrow> Inr (Plain, [])
      | c # ys \<Rightarrow> if c = b_hash then sp_directive ys else sp_other xs) t"
    proof (rule peek_ok [OF inv])
      fix s1 assume "sc_rest t = []" "advanced contents invar t s1" "sc_rest s1 = []"
        "sc_peek wr t = Inr (None, s1)"
      then show ?thesis by (auto simp: sims_def)
    next
      fix c cs s1 assume *: "sc_rest t = c # cs" "advanced contents invar t s1" "sc_rest s1 = c # cs"
        "advanced contents invar s1 (sc_next s1)" "sc_rest (sc_next s1) = cs" "sc_peek wr t = Inr (Some c, s1)"
      show ?thesis
      proof (cases "c = b_hash")
        case True
        show ?thesis
          by (rule sims_advanced [OF advanced_trans [OF *(2,4)] sims_directive [OF advanced_inv [OF *(4)]]])
            (use True * in simp_all)
      next
        case False
        show ?thesis
          by (rule sims_advanced [OF *(2) sims_other [OF advanced_inv [OF *(2)]]]) (use False * in simp_all)
      qed
    qed
  qed
qed

end

section \<open>Effects\<close>

text \<open>What the filter remembers between lines, and the outcome of a line on state and output.\<close>

definition sc_control :: "'w scanner \<Rightarrow> bytes option \<times> bool" where
  "sc_control s = (entry_file s, header_found s)"

definition effect_done :: "('w \<Rightarrow> bytes) \<Rightarrow> bytes option \<times> bytes option \<times> bool \<Rightarrow> 'w scanner \<Rightarrow> 'w scanner \<Rightarrow> bool" where
  "effect_done contents e s s' \<longleftrightarrow>
     sc_keep s' = sc_keep s \<and> sc_marker s' = sc_marker s \<and> sc_rest s' = sc_rest s \<and>
     (case e of
        (Some ins, _) \<Rightarrow> sc_done s' \<and> (sc_keep s' \<or> ptr_copy s' = ptr_read s') \<and>
          sc_out contents s' = sc_out contents s @ ins
      | (None, ctl) \<Rightarrow> \<not> sc_done s' \<and> sc_control s' = ctl \<and> sc_out contents s' = sc_out contents s)"

context byte_sink
begin

lemma effect_ok:
  assumes "sc_inv invar s" "\<not> sc_done s"
  shows "\<exists>s'. apply_effect wr eff s = Inr ((), s') \<and> sc_inv invar s' \<and>
    effect_done contents (effect_step (sc_keep s) (sc_marker s) eff (sc_control s)) s s'"
proof (cases eff)
  case Plain
  then show ?thesis using assms by (simp add: effect_done_def)
next
  case HdrStop
  obtain s' where "sc_write wr (ascii ''#pragma hdrstop'') s = Inr ((), s')" "sc_inv invar s'"
    "same_control s s'" "ptr_copy s' = ptr_read s'" "sc_rest s' = sc_rest s"
    "sc_out contents s' = sc_out contents s @ ascii ''#pragma hdrstop''"
    using write_ok [OF assms(1)] by blast
  then show ?thesis
    using HdrStop assms by (cases "sc_keep s")
      (auto simp: effect_done_def same_control_def sc_inv_def sc_rest_def sc_out_def)
next
  case (LineMark line f raw eol)
  show ?thesis
  proof (cases "entry_file s")
    case None
    then show ?thesis
      using LineMark assms
      by (auto simp: effect_done_def line_update_def sc_control_def sc_inv_def sc_rest_def sc_out_def)
  next
    case (Some path)
    show ?thesis
    proof (cases "header_found s \<and> path = f")
      case True
      let ?t = "s\<lparr>entry_file := None, sc_done := True\<rparr>"
      have "sc_inv invar ?t" using assms by (simp add: sc_inv_def)
      from write_ok [OF this, of "hdrstop_mark line raw eol"] obtain s' where
        "sc_write wr (hdrstop_mark line raw eol) ?t = Inr ((), s')" "sc_inv invar s'"
        "same_control ?t s'" "ptr_copy s' = ptr_read s'" "sc_rest s' = sc_rest ?t"
        "sc_out contents s' = sc_out contents ?t @ hdrstop_mark line raw eol" by blast
      then show ?thesis
        using LineMark Some True
        by (auto simp: effect_done_def line_update_def sc_control_def sc_inv_def sc_rest_def sc_out_def
            same_control_def Let_def split: option.splits)
    next
      case False
      then show ?thesis
        using LineMark Some assms
        by (auto simp: effect_done_def line_update_def sc_control_def sc_inv_def sc_rest_def sc_out_def
            Let_def split: option.splits)
    qed
  qed
qed

end

section \<open>The loop\<close>

lemma at_end_peek: "at_end wr s = rbind (sc_peek wr s) (\<lambda>(p, s'). Inr (p = None, s'))"
  by (auto simp: at_end_def sc_peek_def rbind_def split: sum.split)

context byte_sink
begin

lemma line_ok:
  assumes "sc_inv invar s" "\<not> sc_done s" "sp_parse_line (sc_rest s) = Inr (eff, rest)"
  shows "\<exists>s1 s'. parse_line wr s = Inr ((), s') \<and> advanced contents invar s s1 \<and> sc_inv invar s' \<and>
    sc_rest s1 = rest \<and> effect_done contents (effect_step (sc_keep s) (sc_marker s) eff (sc_control s)) s1 s'"
proof -
  obtain s1 where s1: "advanced contents invar s s1" "sc_rest s1 = rest" "parse_line wr s = apply_effect wr eff s1"
    using sims_parse_line [OF assms(1)] assms(3) by (auto simp: sims_def)
  then have "\<not> sc_done s1" "sc_keep s1 = sc_keep s" "sc_marker s1 = sc_marker s" "sc_control s1 = sc_control s"
    using assms(2) by (auto simp: advanced_def same_control_def sc_control_def)
  with effect_ok [OF advanced_inv [OF s1(1)], of eff] s1 show ?thesis by auto
qed

lemma copy_rest_ok:
  "clean_reader r \<Longrightarrow> invar w \<Longrightarrow>
     \<exists>w'. copy_rest wr r w = Inr w' \<and> invar w' \<and> contents w' = contents w @ reader_bytes r"
proof (induction "length (reader_bytes r)" arbitrary: r w rule: less_induct)
  case less
  obtain d r' where r: "reader_read BUF_SIZE r = Inr (d, r')" "clean_reader r'"
    "d = [] \<longleftrightarrow> reader_bytes r = []"
    using reader_read_clean [OF less.prems(1) BUF_SIZE_pos] by blast
  have b: "reader_bytes r = d @ reader_bytes r'" using reader_read_bytes [OF r(1)] .
  show ?case
  proof (cases "d = []")
    case True
    then show ?thesis using r less.prems(2) by (simp add: copy_rest.simps [of wr r w])
  next
    case False
    obtain w1 where w1: "wr w d = Inr w1" "invar w1" "contents w1 = contents w @ d"
      using less.prems(2) by (rule wrE)
    have "\<exists>w'. copy_rest wr r' w1 = Inr w' \<and> invar w' \<and> contents w' = contents w1 @ reader_bytes r'"
      by (rule less.hyps) (use False b r(2) w1(2) in auto)
    then show ?thesis using False r(1) w1 b by (simp add: copy_rest.simps [of wr r w])
  qed
qed

lemma copy_to_end_ok:
  assumes "sc_inv invar s" "sc_keep s \<or> ptr_copy s = ptr_read s"
  shows "\<exists>w. copy_to_end wr s = Inr w \<and> invar w \<and> contents w = sc_out contents s @ sc_rest s"
proof -
  have "invar (sc_writer s)" using assms by (simp add: sc_inv_def)
  then obtain w1 where w1: "wr (sc_writer s) (slice (sc_buf s) (ptr_copy s) (ptr_end s)) = Inr w1" "invar w1"
    "contents w1 = contents (sc_writer s) @ slice (sc_buf s) (ptr_copy s) (ptr_end s)" by (rule wrE)
  obtain w where "copy_rest wr (sc_reader s) w1 = Inr w" "invar w"
    "contents w = contents w1 @ reader_bytes (sc_reader s)"
    using copy_rest_ok [OF _ w1(2), of "sc_reader s"] assms(1) by (auto simp: sc_inv_def)
  then show ?thesis
    using w1 assms slice_split [of "ptr_copy s" "ptr_read s" "ptr_end s" "sc_buf s"]
    by (auto simp: copy_to_end_def sc_out_def sc_rest_def sc_inv_def)
qed

definition filtered :: "'w scanner \<Rightarrow> 'w result \<Rightarrow> (bytes \<times> bytes) result \<Rightarrow> bool" where
  "filtered s out spec \<longleftrightarrow>
     (case spec of
        Inl e \<Rightarrow> out = Inl e
      | Inr (ins, rest) \<Rightarrow> \<exists>w xs. out = Inr w \<and> invar w \<and> sc_rest s = xs @ rest \<and>
          contents w = sc_out contents s @ (if sc_keep s then xs else []) @ ins @ rest)"

lemma filtered_advanced:
  assumes "advanced contents invar s t" "filtered t out spec"
  shows "filtered s out spec"
  using assms by (fastforce simp: filtered_def advanced_def same_control_def split: sum.splits prod.splits)

lemma filtered_cong:
  "sc_keep s = sc_keep t \<Longrightarrow> sc_rest s = sc_rest t \<Longrightarrow> sc_out contents s = sc_out contents t \<Longrightarrow>
     filtered s out spec = filtered t out spec"
  unfolding filtered_def by (simp only:)

lemma filter_loop_ok:
  "sc_inv invar s \<Longrightarrow> \<not> sc_done s \<Longrightarrow>
     filtered s (filter_loop wr s) (filter_spec (sc_keep s) (sc_marker s) (sc_control s) (sc_rest s))"
proof (induction "length (sc_rest s)" arbitrary: s rule: less_induct)
  case less
  let ?spec = "\<lambda>s. filter_spec (sc_keep s) (sc_marker s) (sc_control s) (sc_rest s)"
  show ?case
  proof (rule peek_ok [OF less.prems(1)])
    fix s1 assume "sc_rest s = []" "sc_peek wr s = Inr (None, s1)"
    then show ?thesis
      by (simp add: filtered_def filter_loop.simps [of wr s] at_end_peek filter_spec.simps [of "sc_keep s"])
  next
    fix c cs t assume *: "sc_rest s = c # cs" "advanced contents invar s t" "sc_rest t = c # cs"
      "sc_peek wr s = Inr (Some c, t)"
    have t: "sc_inv invar t" "\<not> sc_done t" "?spec t = ?spec s"
      using * less.prems by (auto simp: advanced_def same_control_def sc_control_def)
    have loop: "filter_loop wr s = rbind (parse_line wr t) (\<lambda>v.
        if sc_done (snd v) then copy_to_end wr (snd v) else filter_loop wr (snd v))"
      using *(4) by (simp add: filter_loop.simps [of wr s] at_end_peek)
    have spec: "?spec t = rbind (sp_parse_line (sc_rest t)) (\<lambda>r.
             case effect_step (sc_keep t) (sc_marker t) (fst r) (sc_control t) of
               (Some ins, _) \<Rightarrow> Inr (ins, snd r)
             | (None, ctl') \<Rightarrow> filter_spec (sc_keep t) (sc_marker t) ctl' (snd r))"
      using *(3) by (simp add: filter_spec.simps [of "sc_keep t"])
    have "filtered t (filter_loop wr s) (?spec t)"
    proof (cases "sp_parse_line (sc_rest t)")
      case (Inl e)
      then show ?thesis
        using sims_parse_line [OF t(1)] loop spec by (simp add: sims_def filtered_def)
    next
      case (Inr r)
      then obtain eff rest where r: "sp_parse_line (sc_rest t) = Inr (eff, rest)" by (cases r) auto
      obtain s1 s2 where s2: "parse_line wr t = Inr ((), s2)" "advanced contents invar t s1" "sc_inv invar s2"
        "sc_rest s1 = rest" "effect_done contents (effect_step (sc_keep t) (sc_marker t) eff (sc_control t)) s1 s2"
        using line_ok [OF t(1,2) r] by blast
      have keep: "sc_keep s1 = sc_keep t" "sc_marker s1 = sc_marker t"
        using s2(2) by (simp_all add: advanced_def same_control_def)
      have shorter: "length rest < length (sc_rest t)"
        using sp_parse_line_shorter [OF r] *(3) by simp
      obtain ins ctl where e: "effect_step (sc_keep t) (sc_marker t) eff (sc_control t) = (ins, ctl)"
        by (cases "effect_step (sc_keep t) (sc_marker t) eff (sc_control t)") simp
      have "filtered s1 (filter_loop wr s) (?spec t)"
      proof (cases ins)
        case None
        then have s2': "\<not> sc_done s2" "sc_control s2 = ctl" "sc_keep s2 = sc_keep s1" "sc_marker s2 = sc_marker s1"
          "sc_rest s2 = rest" "sc_out contents s2 = sc_out contents s1"
          using s2(4,5) e by (simp_all add: effect_done_def)
        have "filtered s2 (filter_loop wr s2) (?spec s2)"
          by (rule less.hyps) (use s2' s2(3) shorter * in auto)
        moreover have "filter_loop wr s = filter_loop wr s2" "?spec t = ?spec s2"
          using loop spec s2(1) s2' r e None keep by simp_all
        ultimately show ?thesis using filtered_cong [of s2 s1] s2' s2(4) by simp
      next
        case (Some i)
        then have s2': "sc_done s2" "sc_keep s2 \<or> ptr_copy s2 = ptr_read s2" "sc_rest s2 = rest"
          "sc_out contents s2 = sc_out contents s1 @ i"
          using s2(4,5) e by (auto simp: effect_done_def)
        obtain w where "copy_to_end wr s2 = Inr w" "invar w" "contents w = sc_out contents s2 @ sc_rest s2"
          using copy_to_end_ok [OF s2(3) s2'(2)] by blast
        then show ?thesis using loop spec s2(1) s2' s2(4) r e Some by (simp add: filtered_def)
      qed
      then show ?thesis by (rule filtered_advanced [OF s2(2)])
    qed
    then have "filtered s (filter_loop wr s) (?spec t)" by (rule filtered_advanced [OF *(2)])
    then show ?thesis using t(3) by simp
  qed
qed

text \<open>The byte order mark is header too: it has been consumed, and is written when headers are kept.\<close>

lemma bom_loop_ok:
  assumes "sc_inv invar s"
  shows "\<exists>s1 s'. parse_bom_loop wr bom s = Inr ((), s') \<and> advanced contents invar s s1 \<and>
    s' = s1\<lparr>sc_utf8 := (sc_utf8 s \<or> fst (sp_bom_loop bom (sc_rest s)))\<rparr> \<and>
    sc_rest s1 = snd (sp_bom_loop bom (sc_rest s))"
  using assms
proof (induction bom arbitrary: s)
  case Nil
  then show ?case by (auto intro!: exI [of _ s] advanced_refl)
next
  case (Cons b bom)
  show ?case
  proof (rule peek_ok [OF Cons.prems])
    fix s1 assume "sc_rest s = []" "advanced contents invar s s1" "sc_rest s1 = []" "sc_peek wr s = Inr (None, s1)"
    then show ?thesis by (auto intro!: exI [of _ s1] simp: advanced_def same_control_def)
  next
    fix c cs s1 assume *: "sc_rest s = c # cs" "advanced contents invar s s1" "sc_rest s1 = c # cs"
      "advanced contents invar s1 (sc_next s1)" "sc_rest (sc_next s1) = cs" "sc_peek wr s = Inr (Some c, s1)"
    show ?thesis
    proof (cases "c = b")
      case True
      have u: "sc_utf8 (sc_next s1) = sc_utf8 s" using *(2,4) by (simp add: advanced_def same_control_def)
      from Cons.IH [OF advanced_inv [OF *(4)]] show ?thesis
        using True * u advanced_trans [OF *(2) advanced_trans [OF *(4)]] by auto
    next
      case False
      then show ?thesis using * by (auto intro!: exI [of _ s1] simp: advanced_def same_control_def)
    qed
  qed
qed

theorem filter_ok:
  assumes "clean_reader r" "invar w"
  shows "case filter_output ansi marker keep (reader_bytes r) of
      Inl e \<Rightarrow> filter_preprocessed wr ansi r w marker keep = Inl e
    | Inr out \<Rightarrow> \<exists>w'. filter_preprocessed wr ansi r w marker keep = Inr w' \<and> invar w' \<and>
        contents w' = contents w @ out"
proof -
  let ?s = "scanner_init r w keep" and ?xs = "reader_bytes r"
  have "sc_inv invar ?s" using assms by (simp add: scanner_init_def sc_inv_def)
  from bom_loop_ok [OF this, of "[0xEF, 0xBB, 0xBF]"] obtain s1 where
    b: "parse_bom wr ?s = Inr ((), s1\<lparr>sc_utf8 := fst (sp_bom ?xs)\<rparr>)" "advanced contents invar ?s s1"
      "sc_rest s1 = snd (sp_bom ?xs)"
    by (auto simp: parse_bom_def sp_bom_def scanner_init_def sc_rest_def slice_def)
  obtain pre where pre: "?xs = pre @ sc_rest s1" "sc_out contents s1 = contents w @ (if keep then pre else [])"
    using b(2) by (auto simp: advanced_def scanner_init_def sc_rest_def slice_def sc_out_def)
  show ?thesis
  proof (cases "marker_bytes ansi (fst (sp_bom ?xs)) marker")
    case (Inl e)
    then show ?thesis using b by (simp add: filter_output_def filter_preprocessed_def)
  next
    case (Inr m)
    let ?t = "s1\<lparr>sc_utf8 := fst (sp_bom ?xs), sc_marker := m\<rparr>"
    have s1: "sc_keep s1 = keep" "\<not> sc_done s1" "entry_file s1 = None" "\<not> header_found s1" "sc_inv invar s1"
      using b(2) by (simp_all add: advanced_def same_control_def scanner_init_def)
    have t: "sc_inv invar ?t" "\<not> sc_done ?t" "sc_keep ?t = keep" "sc_control ?t = (None, False)"
      using s1 by (simp_all add: sc_inv_def sc_control_def)
    have "sc_rest ?t = sc_rest s1" "sc_out contents ?t = sc_out contents s1"
      by (simp_all add: sc_rest_def sc_out_def)
    then have t': "sc_rest ?t = snd (sp_bom ?xs)" "sc_out contents ?t = contents w @ (if keep then pre else [])"
      using b(3) pre(2) by simp_all
    have "filter_preprocessed wr ansi r w marker keep = filter_loop wr ?t"
      using b Inr by (simp add: filter_preprocessed_def)
    let ?spec = "filter_spec keep m (None, False) (snd (sp_bom ?xs))"
    have f: "filtered ?t (filter_loop wr ?t) ?spec"
      using filter_loop_ok [OF t(1,2)] t(3,4) t'(1) by simp
    have run: "filter_preprocessed wr ansi r w marker keep = filter_loop wr ?t" by fact
    show ?thesis
    proof (cases ?spec)
      case (Inl e)
      then have "filter_loop wr ?t = Inl e" using f by (simp only: filtered_def sum.case)
      then show ?thesis using run Inl Inr by (simp add: filter_output_def)
    next
      case spec: (Inr x)
      obtain ins rest where x: "x = (ins, rest)" by (cases x)
      then obtain w' ys where w': "filter_loop wr ?t = Inr w'" "invar w'" "snd (sp_bom ?xs) = ys @ rest"
        "contents w' = (contents w @ (if keep then pre else [])) @ (if keep then ys else []) @ ins @ rest"
        using f spec unfolding filtered_def t' t(3) by auto
      have "filter_output ansi marker keep ?xs =
          Inr ((if keep then take (length ?xs - length rest) ?xs else []) @ ins @ rest)"
        using Inr spec x by (simp add: filter_output_def)
      moreover have "take (length ?xs - length rest) ?xs = pre @ ys" using pre(1) b(3) w'(3) by simp
      ultimately show ?thesis using run w'(1,2,4) by simp
    qed
  qed
qed

end

section \<open>Properties\<close>

text \<open>For every reader without errors, however it cuts its data into pieces, the
  filter writes exactly \<open>filter_output\<close> of the input bytes, or fails with its error: the buffer, the
  refills and the three pointers do not show.\<close>

lemma filter_into_vec:
  assumes "clean_reader r"
  shows "filter_preprocessed vec_write ansi r w marker keep =
    rbind (filter_output ansi marker keep (reader_bytes r)) (\<lambda>out. Inr (w @ out))"
  using vec_sink.filter_ok [where w = w and ansi = ansi and marker = marker and keep = keep, OF assms] by (auto split: sum.splits)

text \<open>C1: Into a \<open>MemStream\<close>, the writer the compiler steps use, the filter appends the
  same output, and keeps the block structure of the stream intact.\<close>

theorem filter_into_mem_stream:
  assumes "clean_reader r" "ms_inv w"
  shows "case filter_output ansi marker keep (reader_bytes r) of
      Inl e \<Rightarrow> filter_preprocessed (ms_write junk) ansi r w marker keep = Inl e
    | Inr out \<Rightarrow> \<exists>w'. filter_preprocessed (ms_write junk) ansi r w marker keep = Inr w' \<and> ms_inv w' \<and>
        ms_content w' = ms_content w @ out"
  by (rule mem_sink.filter_ok [OF assms])

text \<open>What the scanner inserts.\<close>

lemma filter_spec_inserts:
  "filter_spec keep marker ctl xs = Inr (ins, rest) \<Longrightarrow>
     suffix rest xs \<and>
     (ins = (if keep then [] else ascii ''#pragma hdrstop'') \<or> (\<exists>line raw eol. ins = hdrstop_mark line raw eol))"
proof (induction "length xs" arbitrary: ctl xs rule: less_induct)
  case less
  from less.prems have ne: "xs \<noteq> []" by (auto simp: filter_spec.simps [of keep])
  with less.prems obtain eff ys where p: "sp_parse_line xs = Inr (eff, ys)"
    by (auto simp: filter_spec.simps [of keep] rbind_eq_Inr)
  have suf: "suffix ys xs" by (rule suffixingD [OF suffixing_parse_line p])
  obtain i ctl' where e: "effect_step keep marker eff ctl = (i, ctl')"
    by (cases "effect_step keep marker eff ctl") simp
  have step: "filter_spec keep marker ctl xs =
      (case i of Some ins \<Rightarrow> Inr (ins, ys) | None \<Rightarrow> filter_spec keep marker ctl' ys)"
    using ne p e by (auto simp: filter_spec.simps [of keep] split: option.splits)
  show ?case
  proof (cases i)
    case None
    then show ?thesis
      using less.hyps [of ys ctl'] less.prems step sp_parse_line_shorter [OF p ne] suf
      by (auto intro: suffix_order.order_trans)
  next
    case (Some j)
    moreover have "j = (if keep then [] else ascii ''#pragma hdrstop'') \<or> (\<exists>line raw eol. j = hdrstop_mark line raw eol)"
      using e Some by (cases "(keep, marker, eff, ctl)" rule: effect_step.cases) (auto split: option.splits if_splits)
    ultimately show ?thesis using less.prems step suf by auto
  qed
qed

lemma sp_bom_suffix: "suffix (snd (sp_bom xs)) xs"
proof -
  have "suffix (snd (sp_bom_loop bom xs)) xs" for bom
    by (induction bom xs rule: sp_bom_loop.induct) (auto simp: suffix_ConsI)
  then show ?thesis by (simp add: sp_bom_def)
qed

text \<open>C2: A successful run writes the input with one insertion: everything behind some
  position is copied unchanged, everything before it is copied unchanged or dropped (\<open>keep\<close>), and
  between them stands nothing, the pragma alone (header dropped), or the pragma with the \<open>#line\<close>
  directive that ended the header.\<close>

theorem filter_inserts:
  assumes "clean_reader r" "filter_preprocessed vec_write ansi r [] marker keep = Inr out"
  shows "\<exists>pre post ins. reader_bytes r = pre @ post \<and> out = (if keep then pre else []) @ ins @ post \<and>
    (ins = (if keep then [] else ascii ''#pragma hdrstop'') \<or> (\<exists>line raw eol. ins = hdrstop_mark line raw eol))"
proof -
  let ?xs = "reader_bytes r"
  obtain m ins rest where o: "filter_spec keep m (None, False) (snd (sp_bom ?xs)) = Inr (ins, rest)"
    "out = (if keep then take (length ?xs - length rest) ?xs else []) @ ins @ rest"
    using assms by (auto simp: filter_into_vec filter_output_def rbind_eq_Inr)
  have "suffix rest ?xs"
    using filter_spec_inserts [OF o(1)] sp_bom_suffix by (blast intro: suffix_order.order_trans)
  then obtain pre where "?xs = pre @ rest" by (auto elim: suffixE)
  then show ?thesis using o filter_spec_inserts [OF o(1)] by (intro exI [of _ pre] exI [of _ rest] exI [of _ ins]) auto
qed

text \<open>Two readers that deliver the same bytes give the same result, also when they
  make it fail.\<close>

theorem filter_chunking:
  assumes "clean_reader r" "clean_reader r'" "reader_bytes r = reader_bytes r'"
  shows "filter_preprocessed vec_write ansi r w marker keep = filter_preprocessed vec_write ansi r' w marker keep"
  using assms by (simp add: filter_into_vec)

lemma last_take: "n \<le> length xs \<Longrightarrow> 0 < n \<Longrightarrow> last (take n xs) = xs ! (n - 1)"
  by (subst last_conv_nth) auto

text \<open>The marker test: \<open>child\<close> is a whole trailing part of the path \<open>parent\<close>, without
  regard to the case of ASCII letters.\<close>

theorem is_subpath_iff:
  "is_subpath parent child \<longleftrightarrow>
     (\<exists>dir tl. parent = dir @ tl \<and> eq_ignore_case child tl \<and> (dir = [] \<or> last dir = b_slash))"
proof
  assume *: "is_subpath parent child"
  let ?n = "length parent - length child"
  have "parent = take ?n parent @ drop ?n parent" by simp
  moreover have "take ?n parent = [] \<or> last (take ?n parent) = b_slash"
    using * last_take [of ?n parent] by (cases "length parent = length child") (auto simp: is_subpath_def split: if_splits)
  moreover have "eq_ignore_case child (drop ?n parent)" using * by (auto simp: is_subpath_def split: if_splits)
  ultimately show "\<exists>dir tl. parent = dir @ tl \<and> eq_ignore_case child tl \<and> (dir = [] \<or> last dir = b_slash)"
    by blast
next
  assume "\<exists>dir tl. parent = dir @ tl \<and> eq_ignore_case child tl \<and> (dir = [] \<or> last dir = b_slash)"
  then obtain dir tl where *: "parent = dir @ tl" "eq_ignore_case child tl" "dir = [] \<or> last dir = b_slash" by blast
  have len: "length child = length tl" using *(2) by (auto simp: eq_ignore_case_def dest: map_eq_imp_length_eq)
  then show "is_subpath parent child"
    using * by (cases "dir = []") (auto simp: is_subpath_def nth_append last_conv_nth)
qed

section \<open>Panics\<close>

text \<open>Input whose last byte is a line feed. Neither blanks nor tokens run over it, so that the
  \<open>unwrap\<close> in \<open>parse_path\<close> always finds a byte.\<close>

definition ends_nl :: "bytes \<Rightarrow> bool" where
  "ends_nl xs \<longleftrightarrow> xs \<noteq> [] \<and> last xs = b_nl"

lemma ends_nl_suffix: "ends_nl xs \<Longrightarrow> suffix ys xs \<Longrightarrow> ys \<noteq> [] \<Longrightarrow> ends_nl ys"
  by (auto simp: ends_nl_def elim!: suffixE)

lemma ends_nl_dropWhile:
  assumes "ends_nl xs" "\<not> P b_nl"
  shows "ends_nl (dropWhile P xs)"
proof -
  have "b_nl \<in> set xs" using assms(1) last_in_set [of xs] by (simp add: ends_nl_def)
  then have "dropWhile P xs \<noteq> []" using assms(2) by (auto simp: dropWhile_eq_Nil_conv)
  then show ?thesis by (rule ends_nl_suffix [OF assms(1) suffix_dropWhile])
qed

lemma nl_not_blank: "\<not> is_space b_nl" "\<not> is_token_char b_nl"
  by (simp_all add: is_space_def is_token_char_def)

definition not_panic :: "'a result \<Rightarrow> bool" where
  "not_panic r \<longleftrightarrow> (\<forall>msg. r \<noteq> Inl (Panic msg))"

lemma not_panic_simps [simp]:
  "not_panic (Inr x)" "not_panic (Inl (pp_error e))" "\<not> not_panic (Inl (Panic msg))"
  by (simp_all add: not_panic_def pp_error_def)

lemma not_panic_rbind:
  "not_panic m \<Longrightarrow> (\<And>x. m = Inr x \<Longrightarrow> not_panic (f x)) \<Longrightarrow> not_panic (rbind m f)"
  by (auto simp: rbind_def not_panic_def split: sum.split)

lemma sp_path_loop_not_panic: "not_panic (sp_path_loop quote token raw xs)"
proof (induction "length xs" arbitrary: token raw xs rule: less_induct)
  case less
  show ?case
  proof (cases xs)
    case (Cons c ys)
    then have "\<And>token raw. not_panic (sp_path_loop quote token raw ys)"
      "\<And>e zs token raw. ys = e # zs \<Longrightarrow> not_panic (sp_path_loop quote token raw zs)"
      using less by auto
    then show ?thesis using Cons by (auto simp: Let_def split: list.split)
  qed simp
qed

lemma sp_token_not_panic: "not_panic (sp_token cap xs)"
  by (simp add: sp_token_def Let_def)

lemma sp_token_ends: "sp_token cap xs = Inr (t, rest) \<Longrightarrow> ends_nl xs \<Longrightarrow> ends_nl rest"
  using ends_nl_dropWhile [of xs is_token_char] nl_not_blank(2)
  by (auto simp: sp_token_def Let_def ends_nl_def split: if_splits)

lemma sp_skip_ends: "sp_skip is_space xs = Inr (u, rest) \<Longrightarrow> ends_nl xs \<Longrightarrow> ends_nl rest"
  using ends_nl_dropWhile [of xs is_space] nl_not_blank(1) by (auto simp: sp_skip_def)

lemma sp_eol_not_panic: "not_panic (sp_eol xs)"
  by (simp add: sp_eol_def Let_def split: list.split)

lemma sp_other_not_panic: "not_panic (sp_other xs)"
  by (simp add: sp_other_def sbind_def sp_line_def)

lemma sp_path_not_panic: "xs \<noteq> [] \<Longrightarrow> not_panic (sp_path xs)"
  by (cases xs) (simp_all add: sp_path_def sp_path_loop_not_panic)

lemma sp_directive_line_not_panic:
  assumes "ends_nl xs"
  shows "not_panic (sp_directive_line xs)"
  unfolding sp_directive_line_def sbind_def
proof (rule not_panic_rbind; clarify?)
  show "not_panic (sp_skip is_space xs)" by (simp add: sp_skip_def)
  fix u ys assume 1: "sp_skip is_space xs = Inr (u, ys)"
  show "not_panic (rbind (sp_token 16 ys) (\<lambda>(line, s). rbind (sp_skip is_space s) (\<lambda>(uu, s).
      rbind (sp_path s) (\<lambda>(x, s). (case x of (f, raw) \<Rightarrow> \<lambda>s. rbind (sp_eol s) (\<lambda>(eol, y).
        sret (LineMark line f raw eol) y)) s))))"
  proof (rule not_panic_rbind; clarify?)
    show "not_panic (sp_token 16 ys)" by (rule sp_token_not_panic)
    fix line zs assume 2: "sp_token 16 ys = Inr (line, zs)"
    have "ends_nl (dropWhile is_space zs)"
      by (rule ends_nl_dropWhile [OF sp_token_ends [OF 2 sp_skip_ends [OF 1 assms]]]) (rule nl_not_blank)
    then show "not_panic (rbind (sp_skip is_space zs) (\<lambda>(uu, s).
      rbind (sp_path s) (\<lambda>(x, s). (case x of (f, raw) \<Rightarrow> \<lambda>s. rbind (sp_eol s) (\<lambda>(eol, y).
        sret (LineMark line f raw eol) y)) s)))"
      by (auto simp: sp_skip_def ends_nl_def split: prod.split
          intro!: not_panic_rbind sp_eol_not_panic sp_path_not_panic)
  qed
qed

lemma sp_directive_not_panic:
  assumes "ends_nl xs"
  shows "not_panic (sp_directive xs)"
proof -
  have pragma: "not_panic (sp_directive_pragma ys)" for ys
    by (auto simp: sp_directive_pragma_def sbind_def sp_skip_def
        intro!: not_panic_rbind sp_token_not_panic sp_other_not_panic)
  show ?thesis
    unfolding sp_directive_def sbind_def
    by (auto simp: sp_skip_def intro!: not_panic_rbind sp_token_not_panic sp_other_not_panic pragma
        sp_directive_line_not_panic dest!: sp_token_ends
        intro: ends_nl_dropWhile [where P = is_space, OF assms nl_not_blank(1)])
qed

lemma sp_parse_line_not_panic:
  assumes "ends_nl xs"
  shows "not_panic (sp_parse_line xs)"
proof (cases "dropWhile is_empty_char xs")
  case Nil
  then show ?thesis unfolding sp_parse_line_def by (simp only: list.case not_panic_simps)
next
  case (Cons c ys)
  have "ends_nl (c # ys)" using ends_nl_suffix [OF assms] suffix_dropWhile [of is_empty_char xs] Cons by simp
  then have "c = b_hash \<Longrightarrow> ends_nl ys" by (auto simp: ends_nl_def split: if_splits)
  then show ?thesis
    using Cons by (simp add: sp_parse_line_def sp_directive_not_panic sp_other_not_panic)
qed

lemma filter_spec_not_panic:
  "xs = [] \<or> ends_nl xs \<Longrightarrow> not_panic (filter_spec keep marker ctl xs)"
proof (induction "length xs" arbitrary: ctl xs rule: less_induct)
  case less
  show ?case
  proof (cases "xs = []")
    case True
    then show ?thesis by (simp add: filter_spec.simps [of keep])
  next
    case False
    then have ends: "ends_nl xs" using less.prems by simp
    have "not_panic (filter_spec keep marker ctl' (snd r))" if r: "sp_parse_line xs = Inr r" for ctl' r
    proof (rule less.hyps)
      have p: "sp_parse_line xs = Inr (fst r, snd r)" using r by simp
      show "length (snd r) < length xs" by (rule sp_parse_line_shorter [OF p False])
      show "snd r = [] \<or> ends_nl (snd r)"
        using ends_nl_suffix [OF ends suffixingD [OF suffixing_parse_line p]] by blast
    qed
    then show ?thesis
      using False ends
      by (auto simp: filter_spec.simps [of keep marker ctl xs] sp_parse_line_not_panic intro!: not_panic_rbind
          split: prod.split option.split)
  qed
qed

text \<open>C29: On input that ends with a line feed the filter never panics, whatever the
  input holds: no index out of range, no \<open>unwrap\<close> of \<open>None\<close>. The only assumption on the encoder of
  the marker is that it does not panic itself.\<close>

theorem filter_no_panic:
  assumes "clean_reader r" "reader_bytes r = [] \<or> last (reader_bytes r) = b_nl" "\<forall>v. not_panic (ansi v)"
  shows "filter_preprocessed vec_write ansi r w marker keep \<noteq> Inl (Panic msg)"
proof -
  have "snd (sp_bom (reader_bytes r)) = [] \<or> ends_nl (snd (sp_bom (reader_bytes r)))"
    using assms(2) sp_bom_suffix [of "reader_bytes r"] ends_nl_suffix [OF _ sp_bom_suffix, of "reader_bytes r"]
    by (cases "reader_bytes r = []") (simp_all add: ends_nl_def, blast)
  note f = filter_spec_not_panic [OF this]
  have "not_panic (marker_bytes ansi utf8 marker)" for utf8
    using assms(3) by (auto simp: marker_bytes_def intro!: not_panic_rbind split: option.split)
  then have "not_panic (filter_output ansi marker keep (reader_bytes r))"
    using f unfolding filter_output_def by (auto intro!: not_panic_rbind)
  then have "not_panic (filter_preprocessed vec_write ansi r w marker keep)"
    by (simp add: filter_into_vec [OF assms(1)] not_panic_rbind)
  then show ?thesis by (simp add: not_panic_def)
qed

section \<open>Concrete inputs\<close>

text \<open>The definitions a run of the specification unfolds.\<close>

lemmas filter_output_eval = filter_output_def marker_bytes_def sp_bom_def filter_spec.simps sp_parse_line_def
  is_empty_char_def is_space_def is_token_char_def sp_directive_def sp_directive_line_def sp_directive_pragma_def
  sbind_def sp_skip_def sp_token_def Let_def sp_path_def path_too_long_def PATH_SIZE_def sp_eol_def sp_other_def
  sp_line_def ascii_def hdrstop_mark_def unescape_def replace_backslash_def

lemmas subpath_eval = is_subpath_def eq_ignore_case_def to_lower_byte_def

text \<open>A preprocessed source \<open>a.c\<close> that includes \<open>d\p.h\<close>.\<close>

definition sample_header :: bytes where
  "sample_header = ascii ''#line 1 '' @ [34] @ ascii ''a.c'' @ [34, 10] @
     ascii ''#line 1 '' @ [34] @ ascii ''d'' @ [92, 92] @ ascii ''p.h'' @ [34, 10] @ ascii ''int x;'' @ [10] @
     ascii ''#line 2 '' @ [34] @ ascii ''a.c'' @ [34, 13, 10]"

definition sample_out :: bytes where
  "sample_out = ascii ''#pragma hdrstop'' @ [13, 10] @ ascii ''#line 2 '' @ [34] @ ascii ''a.c'' @ [34, 13, 10, 121, 10]"

lemmas sample_eval = sample_header_def sample_out_def filter_output_eval subpath_eval

lemma filter_into_vec_example:
  "filter_preprocessed vec_write Inr [Data sample_header, Data [121], Data [10]] [] (Some (ascii ''P.h'')) False =
     Inr sample_out"
  by (subst filter_into_vec) (simp add: sample_header_def ascii_def, simp add: sample_eval)

lemma filter_into_mem_stream_witness:
  "\<exists>w. filter_preprocessed (ms_write (\<lambda>_. 0)) Inr [Data sample_header, Data [121], Data [10]] ms_new
      (Some (ascii ''P.h'')) False = Inr w \<and> ms_content w = sample_out"
proof -
  have r: "clean_reader [Data sample_header, Data [121], Data [10]]" by (simp add: sample_header_def ascii_def)
  have out: "filter_output Inr (Some (ascii ''P.h'')) False (sample_header @ [121, 10]) = Inr sample_out"
    by (simp add: sample_eval)
  show ?thesis
    using filter_into_mem_stream [OF r ms_new_ok(1), of "\<lambda>_. 0" Inr "Some (ascii ''P.h'')" False] out
    by auto
qed

lemma filter_inserts_witness:
  "\<exists>pre post ins. sample_header @ [121, 10] = pre @ post \<and> sample_out = (if False then pre else []) @ ins @ post \<and>
    (ins = (if False then [] else ascii ''#pragma hdrstop'') \<or> (\<exists>line raw eol. ins = hdrstop_mark line raw eol))"
proof -
  have r: "clean_reader [Data sample_header, Data [121], Data [10]]" by (simp add: sample_header_def ascii_def)
  have "filter_output Inr (Some (ascii ''P.h'')) False (sample_header @ [121, 10]) = Inr sample_out"
    by (simp add: sample_eval)
  then have "filter_preprocessed vec_write Inr [Data sample_header, Data [121], Data [10]] [] (Some (ascii ''P.h'')) False
      = Inr sample_out"
    by (simp add: filter_into_vec [OF r])
  from filter_inserts [OF r this] show ?thesis by simp
qed

lemma filter_chunking_witness:
  "filter_preprocessed vec_write Inr [Data [35], Data [108]] [] None True =
   filter_preprocessed vec_write Inr [Data [35, 108]] [] None True"
  by (rule filter_chunking) simp_all

lemma filter_no_panic_witness:
  "filter_preprocessed vec_write Inr [Data (ascii ''#line 1''), Data [10]] [] None True \<noteq>
     Inl (Panic ''called Option::unwrap() on a None value'')"
  by (rule filter_no_panic) (simp_all add: ascii_def)

subsection \<open>Where the code departs from what it means to do\<close>

text \<open>\<open>#pragma hdrstop\<close> as the last bytes of the input is not recognised: \<open>parse_token\<close> returns the
  whole array of 32 bytes at the end of the stream, not the 7 it has read.\<close>

theorem hdrstop_at_end_lost:
  "filter_preprocessed vec_write ansi [Data (ascii ''#pragma hdrstop'')] [] None keep = Inl (pp_error MarkerNotFound)"
proof -
  have "filter_output ansi None keep (ascii ''#pragma hdrstop'') = Inl (pp_error MarkerNotFound)"
    by (simp add: filter_output_eval)
  moreover have "clean_reader [Data (ascii ''#pragma hdrstop'')]" by (simp add: ascii_def)
  ultimately show ?thesis by (simp add: filter_into_vec)
qed

text \<open>Input that ends inside a \<open>#line\<close> directive, before its file name, makes the filter panic.\<close>

theorem line_at_end_panics:
  "filter_preprocessed vec_write ansi [Data (ascii ''#line 1'')] [] None keep =
     Inl (Panic ''called Option::unwrap() on a None value'')"
proof -
  have "filter_output ansi None keep (ascii ''#line 1'') = Inl (Panic ''called Option::unwrap() on a None value'')"
    by (simp add: filter_output_eval)
  moreover have "clean_reader [Data (ascii ''#line 1'')]" by (simp add: ascii_def)
  ultimately show ?thesis by (simp add: filter_into_vec)
qed

text \<open>In the raw text of a file name, which is written again behind the header, every escape becomes
  two backslashes: the escaped character is lost.\<close>

theorem path_escape_raw:
  assumes "q \<noteq> b_nl" "q \<noteq> b_cr" "q \<noteq> b_backslash" "e \<noteq> b_backslash"
  shows "sp_path [q, b_backslash, e, q] = Inr (([unescape e], [q, b_backslash, b_backslash, q]), [])"
  using assms by (auto simp: sp_path_def Let_def path_too_long_def PATH_SIZE_def unescape_def)

text \<open>With a byte order mark the backslashes of the marker stay, while those of every file name have
  become slashes: the header of the same file is found without the mark, and not found with it.\<close>

theorem utf8_marker_not_found:
  "filter_output Inr (Some (ascii ''d'' @ [b_backslash] @ ascii ''p.h'')) False (sample_header @ [121, 10]) =
     Inr sample_out"
  "filter_output Inr (Some (ascii ''d'' @ [b_backslash] @ ascii ''p.h'')) False
     ([0xEF, 0xBB, 0xBF] @ sample_header @ [121, 10]) = Inl (pp_error MarkerNotFound)"
  by (simp_all add: sample_eval)

end
