(* ===== verification/Counters.thy ===== *)
theory Counters
  imports Io_Stream
begin

text \<open>
  \<open>src/io/counter.rs\<close> and \<open>src/io/statistic.rs\<close>: a stream that counts the bytes that pass through
  it, and the counters of the cache. The counters are 64-bit words, which wrap as \<open>fetch_add\<close> does.
\<close>

type_synonym usize = "64 word"

section \<open>Counting streams\<close>

record 's counter =
  ctr_stream :: 's
  ctr_size :: usize

definition counter_new :: "'s \<Rightarrow> 's counter" where
  "counter_new s = \<lparr>ctr_stream = s, ctr_size = 0\<rparr>"

definition counter_len :: "'s counter \<Rightarrow> usize" where
  "counter_len c = ctr_size c"

definition counter_is_empty :: "'s counter \<Rightarrow> bool" where
  "counter_is_empty c \<longleftrightarrow> ctr_size c = 0"

definition counter_unwrap :: "'s counter \<Rightarrow> 's" where
  "counter_unwrap c = ctr_stream c"

definition counter_read :: "nat \<Rightarrow> reader counter \<Rightarrow> (bytes \<times> reader counter) result" where
  "counter_read n c =
     rbind (reader_read n (ctr_stream c)) (\<lambda>(d, r).
       Inr (d, c\<lparr>ctr_stream := r, ctr_size := ctr_size c + of_nat (length d)\<rparr>))"

text \<open>\<open>wr\<close> is the \<open>write\<close> of the wrapped stream; it returns how many bytes it took.\<close>

definition counter_write ::
    "('s \<Rightarrow> bytes \<Rightarrow> (nat \<times> 's) result) \<Rightarrow> 's counter \<Rightarrow> bytes \<Rightarrow> (nat \<times> 's counter) result" where
  "counter_write wr c buf =
     rbind (wr (ctr_stream c) buf) (\<lambda>(n, s).
       Inr (n, c\<lparr>ctr_stream := s, ctr_size := ctr_size c + of_nat n\<rparr>))"

text \<open>Any number of reads through the counter.\<close>

fun counter_reads :: "nat list \<Rightarrow> reader counter \<Rightarrow> (bytes \<times> reader counter) result" where
  "counter_reads [] c = Inr ([], c)"
| "counter_reads (n # ns) c =
     rbind (counter_read n c) (\<lambda>(d, c1). rbind (counter_reads ns c1) (\<lambda>(ds, c2). Inr (d @ ds, c2)))"

section \<open>Statistic\<close>

record statistic =
  hit_count :: usize
  hit_bytes :: usize
  miss_count :: usize
  miss_bytes :: usize
  remote_count :: usize

definition statistic_new :: statistic where
  "statistic_new = \<lparr>hit_count = 0, hit_bytes = 0, miss_count = 0, miss_bytes = 0, remote_count = 0\<rparr>"

definition add_hit :: "usize \<Rightarrow> statistic \<Rightarrow> statistic" where
  "add_hit n s = s\<lparr>hit_count := hit_count s + 1, hit_bytes := hit_bytes s + n\<rparr>"

definition add_miss :: "usize \<Rightarrow> statistic \<Rightarrow> statistic" where
  "add_miss n s = s\<lparr>miss_count := miss_count s + 1, miss_bytes := miss_bytes s + n\<rparr>"

definition inc_remote :: "statistic \<Rightarrow> statistic" where
  "inc_remote s = s\<lparr>remote_count := remote_count s + 1\<rparr>"

definition hit_percent :: "statistic \<Rightarrow> usize" where
  "hit_percent s = hit_count s * 100 div max (hit_count s + miss_count s) 1"

definition show_usize :: "usize \<Rightarrow> string" where
  "show_usize n = show_nat (unat n)"

definition statistic_display :: "statistic \<Rightarrow> string" where
  "statistic_display s =
     ''Cache statistic: hit '' @ show_usize (hit_count s) @ '' of '' @
     show_usize (hit_count s + miss_count s) @ '' ('' @ show_usize (hit_percent s) @ '' %), remote '' @
     show_usize (remote_count s) @ '', read '' @ show_usize (hit_bytes s) @ '', write '' @
     show_usize (miss_bytes s) @ '', total '' @ show_usize (hit_bytes s + miss_bytes s)"

section \<open>Properties\<close>

text \<open>After any sequence of reads through a counter its size is the number of bytes
  delivered (modulo \<open>2^64\<close>), and those bytes followed by what the wrapped stream still holds are what
  it held.\<close>

theorem counter_counts:
  assumes "counter_reads ns (counter_new r) = Inr (ds, c)"
  shows "counter_len c = of_nat (length ds) \<and> reader_bytes r = ds @ reader_bytes (counter_unwrap c)"
proof -
  have "counter_reads ns c0 = Inr (ds, c) \<Longrightarrow>
      ctr_size c = ctr_size c0 + of_nat (length ds) \<and>
      reader_bytes (ctr_stream c0) = ds @ reader_bytes (ctr_stream c)" for c0
  proof (induction ns arbitrary: c0 ds)
    case Nil
    then show ?case by simp
  next
    case (Cons n ns)
    then obtain d r1 ds' c1 where 1: "reader_read n (ctr_stream c0) = Inr (d, r1)"
      "c1 = c0\<lparr>ctr_stream := r1, ctr_size := ctr_size c0 + of_nat (length d)\<rparr>"
      "counter_reads ns c1 = Inr (ds', c)" "ds = d @ ds'"
      by (auto simp: rbind_eq_Inr counter_read_def)
    show ?case using Cons.IH [OF 1(3)] reader_read_bytes [OF 1(1)] 1(2,4) by simp
  qed
  from this [OF assms] show ?thesis by (simp add: counter_len_def counter_unwrap_def counter_new_def)
qed

lemma counter_counts_witness:
  "counter_len \<lparr>ctr_stream = [Data [4]], ctr_size = 3\<rparr> = of_nat (length [1, 2, 3 :: byte]) \<and>
   reader_bytes [Data [1, 2], Data [3, 4]] = [1, 2, 3] @ reader_bytes (counter_unwrap \<lparr>ctr_stream = [Data [4]], ctr_size = 3\<rparr>)"
  by (rule counter_counts [of "[5, 1]"]) (simp add: counter_read_def counter_new_def)

end
