(* ===== verification/Binary.thy ===== *)
theory Binary
  imports Io_Stream
begin

text \<open>
  \<open>src/io/binary.rs\<close>: fixed-width integers on byte streams. \<open>u64\<close> and (on the 64-bit targets the
  program is built for) \<open>usize\<close> are 64-bit words; the \<open>transmute\<close> of \<open>write_u64\<close> lays a word out in
  the byte order of the host, taken to be little-endian as on x86-64.

  A reading operation takes the reader and returns what it read with the reader afterwards. What is
  shown: \<open>read_array\<close> fills its buffer across any pattern of short reads or fails with the documented
  error when the data ends, and the integer encoding round-trips.
\<close>

unbundle bit_operations_syntax

type_synonym u64 = "64 word"

section \<open>Reading exactly\<close>

definition unexpected_end :: failure where
  "unexpected_end = IoError InvalidInput ''Unexpected end of data''"

definition read_byte :: "reader \<Rightarrow> (byte \<times> reader) result" where
  "read_byte r = rbind (reader_read 1 r)
     (\<lambda>(buf, r'). case buf of [] \<Rightarrow> Inl unexpected_end | b # _ \<Rightarrow> Inr (b, r'))"

text \<open>\<open>read_array\<close>: the loop reads into what is still missing of the buffer, \<open>missing\<close> bytes.\<close>

lemma reader_read_nonempty:
  "reader_read n r = Inr (d, r') \<Longrightarrow> d \<noteq> [] \<Longrightarrow> 0 < length d \<and> length d \<le> n"
  by (auto dest: reader_read_length)

function read_array :: "nat \<Rightarrow> reader \<Rightarrow> (bytes \<times> reader) result" where
  "read_array missing r =
     (if 0 < missing then
        rbind (reader_read missing r) (\<lambda>x.
          if fst x = [] then Inl unexpected_end
          else rbind (read_array (missing - length (fst x)) (snd x))
                 (\<lambda>y. Inr (fst x @ fst y, snd y)))
      else Inr ([], r))"
  by pat_completeness auto
termination
  by (relation "measure fst") (auto dest: reader_read_nonempty)

declare read_array.simps [simp del]

lemma read_array_0 [simp]: "read_array 0 r = Inr ([], r)"
  by (simp add: read_array.simps [of 0 r])

definition read_exact :: "nat \<Rightarrow> reader \<Rightarrow> (bytes \<times> reader) result" where
  "read_exact len r = read_array len r"

section \<open>Integers\<close>

text \<open>The memory representation of a 64-bit word on a little-endian host, and its inverse.\<close>

definition le_bytes :: "u64 \<Rightarrow> bytes" where
  "le_bytes i = map (\<lambda>k. ucast (drop_bit (8 * k) i)) [0..<8]"

definition le_word :: "bytes \<Rightarrow> u64" where
  "le_word bs = foldr (\<lambda>b acc. push_bit 8 acc OR ucast b) bs 0"

definition write_u8 :: "('w \<Rightarrow> bytes \<Rightarrow> 'w result) \<Rightarrow> 'w \<Rightarrow> byte \<Rightarrow> 'w result" where
  "write_u8 wr w n = wr w [n]"

definition write_u64 :: "('w \<Rightarrow> bytes \<Rightarrow> 'w result) \<Rightarrow> 'w \<Rightarrow> u64 \<Rightarrow> 'w result" where
  "write_u64 wr w i = wr w (le_bytes i)"

definition write_usize :: "('w \<Rightarrow> bytes \<Rightarrow> 'w result) \<Rightarrow> 'w \<Rightarrow> u64 \<Rightarrow> 'w result" where
  "write_usize wr w i = write_u64 wr w i"

definition read_u8 :: "reader \<Rightarrow> (byte \<times> reader) result" where
  "read_u8 r = read_byte r"

definition read_u64 :: "reader \<Rightarrow> (u64 \<times> reader) result" where
  "read_u64 r = rbind (read_array 8 r) (\<lambda>x. Inr (le_word (fst x), snd x))"

definition read_usize :: "reader \<Rightarrow> (u64 \<times> reader) result" where
  "read_usize r = read_u64 r"

section \<open>Reading fills the buffer or fails\<close>

text \<open>The effect of a reading operation, seen on the bytes still in the stream.\<close>

definition reads :: "(reader \<Rightarrow> ('a \<times> reader) result) \<Rightarrow> reader \<Rightarrow> 'a \<Rightarrow> bytes \<Rightarrow> bool" where
  "reads op r x rest \<longleftrightarrow> (\<exists>r'. op r = Inr (x, r') \<and> clean_reader r' \<and> reader_bytes r' = rest)"

lemma read_array_clean:
  assumes "clean_reader r"
  shows "if n \<le> length (reader_bytes r)
         then reads (read_array n) r (take n (reader_bytes r)) (drop n (reader_bytes r))
         else read_array n r = Inl unexpected_end"
  using assms
proof (induction n r rule: read_array.induct)
  case (1 n r)
  show ?case
  proof (cases "0 < n")
    case False
    then show ?thesis using "1.prems" by (simp add: reads_def read_array.simps [of n r])
  next
    case True
    then obtain d r' where d: "reader_read n r = Inr (d, r')" "clean_reader r'"
      "d = [] \<longleftrightarrow> reader_bytes r = []"
      using reader_read_clean [OF "1.prems"] by blast
    have b: "reader_bytes r = d @ reader_bytes r'" "length d \<le> n"
      using d(1) by (auto dest: reader_read_bytes reader_read_length)
    show ?thesis
    proof (cases "d = []")
      case True
      then have "read_array n r = Inl unexpected_end" "reader_bytes r = []"
        using d(1,3) \<open>0 < n\<close> by (simp_all add: read_array.simps [of n r])
      then show ?thesis using \<open>0 < n\<close> by simp
    next
      case False
      have "if n - length d \<le> length (reader_bytes r')
        then reads (read_array (n - length d)) r' (take (n - length d) (reader_bytes r'))
               (drop (n - length d) (reader_bytes r'))
        else read_array (n - length d) r' = Inl unexpected_end"
        using "1.IH" [OF True d(1)] False d(2) by (simp split: if_splits)
      then show ?thesis
        using True d(1) b False by (auto simp: read_array.simps [of n r] reads_def split: if_splits)
    qed
  qed
qed

lemma read_array_ok:
  "clean_reader r \<Longrightarrow> reader_bytes r = xs @ rest \<Longrightarrow> length xs = n \<Longrightarrow>
     \<exists>r'. read_array n r = Inr (xs, r') \<and> clean_reader r' \<and> reader_bytes r' = rest"
  using read_array_clean [of r n] by (auto simp: reads_def)

section \<open>The integer encoding round-trips\<close>

lemma length_le_bytes [simp]: "length (le_bytes i) = 8"
  by (simp add: le_bytes_def)

lemma le_word_Cons: "le_word (b # bs) = push_bit 8 (le_word bs) OR ucast b"
  by (simp add: le_word_def)

lemma bit_le_word:
  "n < 64 \<Longrightarrow> bit (le_word bs) n \<longleftrightarrow> n div 8 < length bs \<and> bit (bs ! (n div 8)) (n mod 8)"
proof (induction bs arbitrary: n)
  case Nil
  then show ?case by (simp add: le_word_def)
next
  case (Cons b bs)
  show ?case
  proof (cases "n < 8")
    case True
    then show ?thesis by (simp add: le_word_Cons bit_simps)
  next
    case False
    then obtain m where m: "n = 8 + m" by (metis le_Suc_ex not_less)
    have "\<not> bit b (8 + m)" using bit_imp_le_length [of b "8 + m"] by auto
    moreover have "(8 + m) div 8 = Suc (m div 8)" by simp
    ultimately show ?thesis using Cons m by (simp add: le_word_Cons bit_simps)
  qed
qed

lemma le_word_le_bytes [simp]: "le_word (le_bytes i) = i"
proof (rule bit_word_eqI)
  fix n assume "n < LENGTH(64)"
  then have n: "n < 64" by simp
  then have q: "n div 8 < 8" by simp
  then have "le_bytes i ! (n div 8) = ucast (drop_bit (8 * (n div 8)) i)"
    by (simp add: le_bytes_def del: upt_rec_numeral)
  moreover have "8 * (n div 8) + n mod 8 = n" by simp
  ultimately show "bit (le_word (le_bytes i)) n = bit i n"
    using n q by (simp add: bit_le_word bit_simps)
qed

lemma le_bytes_inj: "le_bytes i = le_bytes j \<Longrightarrow> i = j"
  by (metis le_word_le_bytes)

lemma read_u64_ok:
  assumes "clean_reader r" "reader_bytes r = le_bytes i @ rest"
  obtains r' where "read_u64 r = Inr (i, r')" "clean_reader r'" "reader_bytes r' = rest"
  using read_array_ok [OF assms, of 8] by (auto simp: read_u64_def)

section \<open>Properties\<close>

text \<open>\<open>read_exact\<close> on a stream without read errors returns exactly the first
  \<open>len\<close> bytes and leaves the rest, or fails because the stream is too short; how the stream cuts its
  data into reads makes no difference.\<close>

theorem read_exact_all_or_error:
  assumes "clean_reader r"
  shows "if len \<le> length (reader_bytes r)
         then \<exists>r'. read_exact len r = Inr (take len (reader_bytes r), r') \<and>
                   clean_reader r' \<and> reader_bytes r' = drop len (reader_bytes r)
         else read_exact len r = Inl unexpected_end"
  using read_array_clean [OF assms, of len] by (simp add: read_exact_def reads_def split: if_splits)

theorem read_exact_all_or_error_witness:
  "read_exact 2 [Data [1]] = Inl unexpected_end"
  using read_exact_all_or_error [of "[Data [1]]" 2] by simp

text \<open>An integer written by \<open>write_usize\<close> is read back by \<open>read_usize\<close>, for each of
  the \<open>2^64\<close> values and however its 8 bytes are cut into reads; what follows it stays in the stream.\<close>

theorem usize_roundtrip:
  assumes "write_usize vec_write [] i = Inr b" "clean_reader r" "reader_bytes r = b @ rest"
  shows "\<exists>r'. read_usize r = Inr (i, r') \<and> clean_reader r' \<and> reader_bytes r' = rest"
proof -
  have "b = le_bytes i" using assms(1) by (simp add: write_usize_def write_u64_def vec_write_def)
  then show ?thesis using assms(2,3) by (auto simp: read_usize_def elim: read_u64_ok)
qed

theorem usize_roundtrip_witness:
  "\<exists>r'. read_usize [Data [1, 2], Data [0, 0, 0, 0, 0, 0, 9]] = Inr (513, r') \<and> clean_reader r' \<and> reader_bytes r' = [9]"
  by (rule usize_roundtrip [of _ "[1, 2, 0, 0, 0, 0, 0, 0]"])
    (simp_all add: write_usize_def write_u64_def vec_write_def le_bytes_def upt_rec)

end
