(* ===== verification/Os_Path.thy ===== *)
theory Os_Path
  imports Octo_Prelude
begin

text \<open>
  What the program uses of \<open>std::path\<close> and \<open>std::fs\<close>, on a Unix host: paths are strings, and the
  file system is a map from paths to files.

  A path is read through its components, as in Rust: repeated separators and inner \<open>.\<close> components
  do not count. \<open>parent\<close>, \<open>with_file_name\<close> and \<open>with_extension\<close> return the path in this normal form;
  Rust's path equality compares components, so the two agree.
\<close>

section \<open>Paths\<close>

type_synonym path = string

datatype component = RootDir | CurDir | ParentDir | Normal string

abbreviation slash :: char where "slash \<equiv> CHR ''/''"

definition is_absolute :: "path \<Rightarrow> bool" where
  "is_absolute p \<longleftrightarrow> p \<noteq> [] \<and> hd p = slash"

text \<open>\<open>Path::join\<close>: an absolute path replaces the base.\<close>

definition path_join :: "path \<Rightarrow> path \<Rightarrow> path" where
  "path_join p q =
     (if is_absolute q then q
      else if p = [] \<or> last p = slash then p @ q
      else p @ slash # q)"

text \<open>The string cut at a separator: \<open>str::split\<close> with a character.\<close>

fun split_char :: "char \<Rightarrow> string \<Rightarrow> string list" where
  "split_char sep [] = [[]]"
| "split_char sep (c # cs) =
     (if c = sep then [] # split_char sep cs
      else case split_char sep cs of [] \<Rightarrow> [[c]] | w # ws \<Rightarrow> (c # w) # ws)"

lemma split_char_not_Nil [simp]: "split_char sep s \<noteq> []"
  by (induction s) (auto split: list.split)

lemma split_char_plain: "sep \<notin> set s \<Longrightarrow> split_char sep s = [s]"
  by (induction s) auto

lemma split_char_append: "sep \<notin> set s \<Longrightarrow> split_char sep (s @ sep # t) = s # split_char sep t"
  by (induction s) auto

lemma split_char_snoc: "sep \<notin> set t \<Longrightarrow> split_char sep (s @ sep # t) = split_char sep s @ [t]"
  by (induction s) (auto simp: split_char_plain split: list.split)

definition part_component :: "string \<Rightarrow> component" where
  "part_component s = (if s = ''..'' then ParentDir else Normal s)"

definition path_components :: "path \<Rightarrow> component list" where
  "path_components p =
     (let parts = split_char slash p;
          body = map part_component (filter (\<lambda>s. s \<noteq> [] \<and> s \<noteq> ''.'') parts)
      in if is_absolute p then RootDir # body
         else if hd parts = ''.'' then CurDir # body
         else body)"

fun component_str :: "component \<Rightarrow> string" where
  "component_str RootDir = ''''"
| "component_str CurDir = ''.''"
| "component_str ParentDir = ''..''"
| "component_str (Normal s) = s"

fun join_parts :: "string list \<Rightarrow> string" where
  "join_parts [] = []"
| "join_parts [s] = s"
| "join_parts (s # ss) = s @ slash # join_parts ss"

definition components_path :: "component list \<Rightarrow> path" where
  "components_path cs = (if cs = [RootDir] then ''/'' else join_parts (map component_str cs))"

definition file_name :: "path \<Rightarrow> string option" where
  "file_name p =
     (let cs = path_components p
      in if cs = [] then None else case last cs of Normal s \<Rightarrow> Some s | _ \<Rightarrow> None)"

definition path_parent :: "path \<Rightarrow> path option" where
  "path_parent p =
     (let cs = path_components p
      in if cs = [] \<or> last cs = RootDir then None else Some (components_path (butlast cs)))"

definition with_file_name :: "path \<Rightarrow> string \<Rightarrow> path" where
  "with_file_name p name =
     (case file_name p of
        None \<Rightarrow> path_join p name
      | Some _ \<Rightarrow> path_join (the (path_parent p)) name)"

text \<open>A file name cut at its last dot; a leading dot does not count.\<close>

definition split_ext :: "string \<Rightarrow> string \<times> string option" where
  "split_ext name =
     (let ext = takeWhile (\<lambda>c. c \<noteq> CHR ''.'') (rev name);
          stem = drop (Suc (length ext)) (rev name)
      in if length ext = length name \<or> stem = [] then (name, None) else (rev stem, Some (rev ext)))"

definition path_extension :: "path \<Rightarrow> string option" where
  "path_extension p = (case file_name p of None \<Rightarrow> None | Some n \<Rightarrow> snd (split_ext n))"

definition with_extension :: "path \<Rightarrow> string \<Rightarrow> path" where
  "with_extension p ext =
     (case file_name p of
        None \<Rightarrow> p
      | Some n \<Rightarrow> with_file_name p (fst (split_ext n) @ (if ext = [] then [] else CHR ''.'' # ext)))"

text \<open>A name that is one component of its own.\<close>

definition simple_name :: "string \<Rightarrow> bool" where
  "simple_name n \<longleftrightarrow> n \<noteq> [] \<and> n \<noteq> ''.'' \<and> n \<noteq> ''..'' \<and> slash \<notin> set n"

lemma simple_name_relative [simp]: "simple_name n \<Longrightarrow> \<not> is_absolute n"
  by (cases n) (auto simp: simple_name_def is_absolute_def)

lemma components_simple: "simple_name n \<Longrightarrow> path_components n = [Normal n]"
  using simple_name_relative [of n]
  by (simp add: path_components_def split_char_plain part_component_def simple_name_def Let_def)

lemma components_snoc:
  assumes "simple_name n" "p \<noteq> []"
  shows "path_components (p @ slash # n) = path_components p @ [Normal n]"
proof -
  have n: "slash \<notin> set n" "n \<noteq> []" "n \<noteq> ''.''" "n \<noteq> ''..''" using assms(1) by (auto simp: simple_name_def)
  have "hd (split_char slash p @ [n]) = hd (split_char slash p)" by simp
  moreover have "is_absolute (p @ slash # n) = is_absolute p" using assms(2) by (simp add: is_absolute_def)
  ultimately show ?thesis
    using n by (simp add: path_components_def split_char_snoc part_component_def Let_def)
qed

lemma file_name_join:
  assumes "simple_name n"
  shows "file_name (path_join p n) = Some n"
proof (cases "p = [] \<or> last p = slash")
  case False
  then show ?thesis
    using assms by (simp add: path_join_def file_name_def components_snoc)
next
  case True
  show ?thesis
  proof (cases "p = []")
    case True
    then show ?thesis using assms by (simp add: path_join_def file_name_def components_simple)
  next
    case False
    then obtain q where p: "p = q @ [slash]" using True by (metis append_butlast_last_id)
    show ?thesis
    proof (cases "q = []")
      case True
      have "path_components (slash # n) = [RootDir, Normal n]"
        using assms by (auto simp: path_components_def split_char_plain part_component_def simple_name_def
            is_absolute_def Let_def)
      then show ?thesis using p True assms by (simp add: path_join_def file_name_def)
    next
      case False
      then show ?thesis using p assms by (simp add: path_join_def file_name_def components_snoc)
    qed
  qed
qed

text \<open>Operations that keep a path absolute.\<close>

lemma path_join_absolute: "is_absolute p \<Longrightarrow> is_absolute (path_join p q)"
  by (auto simp: path_join_def is_absolute_def)

lemma components_path_absolute: "is_absolute (components_path (RootDir # cs))"
  by (cases cs) (simp_all add: components_path_def is_absolute_def)

lemma path_parent_absolute:
  assumes "is_absolute p" "file_name p = Some n"
  shows "is_absolute (the (path_parent p))"
proof -
  obtain cs where cs: "path_components p = RootDir # cs" using assms(1) by (simp add: path_components_def Let_def)
  then have "cs \<noteq> []" "last cs \<noteq> RootDir"
    using assms(2) by (auto simp: file_name_def Let_def split: if_splits)
  then show ?thesis using cs by (simp add: path_parent_def Let_def components_path_absolute)
qed

lemma with_extension_absolute:
  assumes "is_absolute p"
  shows "is_absolute (with_extension p e)"
proof (cases "file_name p")
  case (Some n)
  then show ?thesis
    using path_parent_absolute [OF assms Some] by (simp add: with_extension_def with_file_name_def path_join_absolute)
qed (use assms in \<open>simp add: with_extension_def\<close>)

section \<open>Files\<close>

text \<open>A file is its bytes and its modification time.\<close>

record fs_file =
  f_data :: bytes
  f_mtime :: nat

type_synonym filesystem = "path \<rightharpoonup> fs_file"

definition not_found :: failure where
  "not_found = IoError NotFound ''No such file or directory''"

definition fs_remove :: "path \<Rightarrow> filesystem \<Rightarrow> filesystem result" where
  "fs_remove p fs = (case fs p of None \<Rightarrow> Inl not_found | Some _ \<Rightarrow> Inr (fs(p := None)))"

definition fs_rename :: "path \<Rightarrow> path \<Rightarrow> filesystem \<Rightarrow> filesystem result" where
  "fs_rename p q fs = (case fs p of None \<Rightarrow> Inl not_found | Some f \<Rightarrow> Inr ((fs(p := None))(q \<mapsto> f)))"

end
