(* ===== verification/Command.thy ===== *)
theory Command
  imports Os_Path "HOL-Library.Word"
begin

text \<open>
  The data types of \<open>src/compiler.rs\<close> (arguments and their scopes, command, output, compilation
  tasks) and the two operations on a command that have logic of their own: the environment with its
  normalised keys, and the search for the executable. The compiler steps and the cache key are in the
  theory \<open>Toolchain\<close>.
\<close>

unbundle bit_operations_syntax

section \<open>Arguments\<close>

datatype scope = Preprocessor | Compiler | Shared | Ignore

datatype input_kind = Source | InMarker | Precompiled

datatype output_kind = Object | OutMarker

datatype arg =
    Flag scope string
  | Param scope string string
  | Input input_kind string string
  | Output output_kind string string

datatype compiler_error = InvalidArguments string | ToolchainNotFound path

fun compiler_error_display :: "compiler_error \<Rightarrow> string" where
  "compiler_error_display (InvalidArguments a) = ''can't parse command line arguments: '' @ a"
| "compiler_error_display (ToolchainNotFound p) = ''can't find toolchain for: '' @ p"

declare compiler_error_display.simps [simp del]

section \<open>Environment\<close>

text \<open>The host, where the source chooses with \<open>cfg\<close>.\<close>

datatype host = Unix | Windows

text \<open>\<open>to_uppercase\<close> on the ASCII letters; environment names are ASCII.\<close>

definition upper_char :: "char \<Rightarrow> char" where
  "upper_char c =
     (let n = of_char c :: nat in if 97 \<le> n \<and> n \<le> 122 then char_of (n - 32) else c)"

fun normalize_key :: "host \<Rightarrow> string \<Rightarrow> string" where
  "normalize_key Unix key = key"
| "normalize_key Windows key = map upper_char key"

type_synonym command_env = "string \<rightharpoonup> string"

definition env_new :: command_env where
  "env_new = (\<lambda>_. None)"

definition env_get :: "host \<Rightarrow> command_env \<Rightarrow> string \<Rightarrow> string option" where
  "env_get h env key = env (normalize_key h key)"

text \<open>The previous value, and the new environment.\<close>

definition env_insert :: "host \<Rightarrow> string \<Rightarrow> string \<Rightarrow> command_env \<Rightarrow> string option \<times> command_env" where
  "env_insert h key v env = (env (normalize_key h key), env(normalize_key h key \<mapsto> v))"

definition env_from_iter :: "host \<Rightarrow> (string \<times> string) list \<Rightarrow> command_env" where
  "env_from_iter h kvs = fold (\<lambda>(k, v) env. snd (env_insert h k v env)) kvs env_new"

section \<open>Commands\<close>

record command_info =
  cmd_program :: path
  cmd_dir :: "path option"
  cmd_env :: command_env

definition current_dir_join :: "command_info \<Rightarrow> path \<Rightarrow> path" where
  "current_dir_join c p = (case cmd_dir c of None \<Rightarrow> p | Some cwd \<Rightarrow> path_join cwd p)"

text \<open>\<open>std::process::Command\<close> as the program fills it.\<close>

record process_command =
  pc_program :: path
  pc_args :: "string list"
  pc_env :: command_env
  pc_dir :: "path option"

definition to_command :: "command_info \<Rightarrow> process_command" where
  "to_command c = \<lparr>pc_program = cmd_program c, pc_args = [], pc_env = cmd_env c, pc_dir = cmd_dir c\<rparr>"

record metadata =
  md_is_file :: bool
  md_mode :: "32 word"

text \<open>\<open>fn_find_exec\<close> on Unix: \<open>stat\<close> is the metadata the file system reports, \<open>canon\<close> is
  \<open>canonicalize\<close>.\<close>

definition fn_find_exec_native :: "(path \<rightharpoonup> metadata) \<Rightarrow> path \<Rightarrow> path option" where
  "fn_find_exec_native stat p =
     (if \<not> is_absolute p then None
      else case stat p of
             Some m \<Rightarrow> if md_is_file m \<and> md_mode m AND 0x40 = 0x40 then Some p else None
           | None \<Rightarrow> None)"

definition fn_find_exec :: "(path \<rightharpoonup> metadata) \<Rightarrow> (path \<rightharpoonup> path) \<Rightarrow> path \<Rightarrow> path option" where
  "fn_find_exec stat canon p = Option.bind (fn_find_exec_native stat p) canon"

text \<open>The variant for Windows, which also tries the name with \<open>.exe\<close>; extensions are ASCII.\<close>

definition fn_find_exec_native_windows :: "(path \<Rightarrow> bool) \<Rightarrow> path \<Rightarrow> path option" where
  "fn_find_exec_native_windows is_file p =
     (if \<not> is_absolute p then None
      else if is_file p then Some p
      else if (case path_extension p of None \<Rightarrow> True | Some s \<Rightarrow> map lower_char s \<noteq> ''exe'') then
        (case map_option (\<lambda>n. n @ ''.exe'') (file_name p) of
           None \<Rightarrow> None
         | Some n \<Rightarrow> let p' = with_file_name p n in if is_file p' then Some p' else None)
      else None)"

definition fn_find_exec_windows :: "(path \<Rightarrow> bool) \<Rightarrow> (path \<rightharpoonup> path) \<Rightarrow> path \<Rightarrow> path option" where
  "fn_find_exec_windows is_file canon p = Option.bind (fn_find_exec_native_windows is_file p) canon"

text \<open>\<open>env::split_paths\<close> on Unix.\<close>

definition split_paths :: "string \<Rightarrow> path list" where
  "split_paths s = split_char (CHR '':'') s"

fun first_exec :: "(path \<rightharpoonup> path) \<Rightarrow> path list \<Rightarrow> path option" where
  "first_exec fx [] = None"
| "first_exec fx (p # ps) = (case fx p of Some exe \<Rightarrow> Some exe | None \<Rightarrow> first_exec fx ps)"

definition find_executable_native ::
    "host \<Rightarrow> (path \<rightharpoonup> path) \<Rightarrow> command_info \<Rightarrow> bool \<Rightarrow> path option" where
  "find_executable_native h fx c allow_current_dir =
     (let executable = cmd_program c
      in if file_name executable = None then None
         else if is_absolute executable then fx executable
         else
           let here = (if allow_current_dir \<or>
                          (case path_parent executable of None \<Rightarrow> False | Some p \<Rightarrow> p \<noteq> [])
                       then Option.bind (map_option (\<lambda>d. path_join d executable) (cmd_dir c)) fx
                       else None)
           in case here of
                Some exe \<Rightarrow> Some exe
              | None \<Rightarrow>
                  (case env_get h (cmd_env c) ''PATH'' of
                     Some paths \<Rightarrow> first_exec fx (map (\<lambda>p. path_join p executable) (split_paths paths))
                   | None \<Rightarrow> None))"

definition find_executable :: "host \<Rightarrow> (path \<rightharpoonup> path) \<Rightarrow> command_info \<Rightarrow> path option" where
  "find_executable h fx c = find_executable_native h fx c (h = Windows)"

section \<open>Outputs and tasks\<close>

record output_info =
  oi_status :: "int option"
  oi_stdout :: bytes
  oi_stderr :: bytes

text \<open>\<open>OutputInfo::new\<close> from the three parts of a \<open>std::process::Output\<close>.\<close>

definition output_info_new :: "int option \<Rightarrow> bytes \<Rightarrow> bytes \<Rightarrow> output_info" where
  "output_info_new code out err = \<lparr>oi_status = code, oi_stdout = out, oi_stderr = err\<rparr>"

definition success :: "output_info \<Rightarrow> bool" where
  "success o' = (case oi_status o' of Some e \<Rightarrow> e = 0 | None \<Rightarrow> False)"

record compilation_args =
  ca_command :: command_info
  ca_args :: "arg list"
  ca_input_precompiled :: "path option"
  ca_output_precompiled :: "path option"
  ca_marker_precompiled :: "string option"

record compilation_task =
  ct_shared :: compilation_args
  ct_language :: string
  ct_input_source :: path
  ct_output_object :: path

section \<open>Properties\<close>

lemma env_from_iter_snoc:
  "env_from_iter h (kvs @ [(k, v)]) = (env_from_iter h kvs)(normalize_key h k \<mapsto> v)"
  by (simp add: env_from_iter_def env_insert_def)

text \<open>The environment collected from a list of variables answers a name with the value of
  its last occurrence; on Windows names that differ only in case are one name.\<close>

theorem env_from_iter_get:
  "env_get h (env_from_iter h kvs) key =
     map_option snd (find (\<lambda>(k, v). normalize_key h k = normalize_key h key) (rev kvs))"
proof (induction kvs rule: rev_induct)
  case Nil
  show ?case by (simp add: env_from_iter_def env_new_def env_get_def)
next
  case (snoc kv kvs)
  obtain k v where "kv = (k, v)" by (cases kv)
  with snoc show ?case by (simp add: env_from_iter_snoc env_get_def)
qed

text \<open>Where the executable of a command is looked for, in order.\<close>

definition exec_candidates :: "host \<Rightarrow> command_info \<Rightarrow> path list" where
  "exec_candidates h c =
     (let p = cmd_program c
      in if file_name p = None then []
         else if is_absolute p then [p]
         else (if h = Windows \<or> path_parent p \<notin> {None, Some []}
               then (case cmd_dir c of None \<Rightarrow> [] | Some d \<Rightarrow> [path_join d p]) else []) @
              (case env_get h (cmd_env c) ''PATH'' of None \<Rightarrow> []
               | Some paths \<Rightarrow> map (\<lambda>d. path_join d p) (split_paths paths)))"

lemma first_exec_append:
  "first_exec fx (ps @ qs) = (case first_exec fx ps of Some e \<Rightarrow> Some e | None \<Rightarrow> first_exec fx qs)"
  by (induction ps) (auto split: option.split)

text \<open>The search tries, in this order, an absolute program as it is, the working
  directory (when the name has a directory part, or on Windows), and the directories of \<open>PATH\<close>; it
  returns the first hit. A program without a file name is never found.\<close>

theorem find_executable_candidates:
  "find_executable h fx c = first_exec fx (exec_candidates h c)"
  by (auto simp: find_executable_def find_executable_native_def exec_candidates_def Let_def
      first_exec_append split: option.split)

lemma first_exec_Some: "first_exec fx ps = Some exe \<Longrightarrow> \<exists>p \<in> set ps. fx p = Some exe"
  by (induction ps) (auto split: option.splits)

text \<open>What the search finds on Unix is the canonical name of an absolute path to a
  regular file with the owner's execute bit.\<close>

theorem find_executable_is_executable:
  assumes "find_executable h (fn_find_exec stat canon) c = Some exe"
  shows "\<exists>p m. canon p = Some exe \<and> is_absolute p \<and> stat p = Some m \<and> md_is_file m \<and> bit (md_mode m) 6"
proof -
  obtain p where p: "fn_find_exec stat canon p = Some exe"
    using assms by (auto simp: find_executable_def find_executable_native_def Let_def
        split: if_splits option.splits dest: first_exec_Some simp: bind_eq_Some_conv)
  have "m AND 0x40 = 0x40 \<Longrightarrow> bit m 6" for m :: "32 word"
  proof -
    assume "m AND 0x40 = 0x40"
    then have "bit (m AND 0x40) 6" by simp
    then show "bit m 6" by (simp add: bit_and_iff)
  qed
  with p show ?thesis
    by (auto simp: fn_find_exec_def fn_find_exec_native_def bind_eq_Some_conv split: if_splits option.splits)
qed

text \<open>On Windows it is the canonical name of a file: a candidate, or the file in its directory that has \<open>.exe\<close> in addition.\<close>

lemma find_executable_on_windows:
  assumes "find_executable h (fn_find_exec_windows is_file canon) c = Some exe"
  shows "\<exists>p q. p \<in> set (exec_candidates h c) \<and> is_absolute p \<and> is_file q \<and> canon q = Some exe \<and>
    (q = p \<or> (\<exists>n. file_name p = Some n \<and> q = with_file_name p (n @ ''.exe'')))"
proof -
  have "first_exec (fn_find_exec_windows is_file canon) (exec_candidates h c) = Some exe"
    using assms unfolding find_executable_candidates .
  then obtain p where p: "p \<in> set (exec_candidates h c)" "fn_find_exec_windows is_file canon p = Some exe"
    using first_exec_Some by blast
  then show ?thesis
    by (auto simp: fn_find_exec_windows_def fn_find_exec_native_windows_def bind_eq_Some_conv Let_def split: if_splits option.splits)
qed

definition sample_command :: command_info where
  "sample_command = \<lparr>cmd_program = ''cc'', cmd_dir = Some ''/w'',
     cmd_env = env_from_iter Unix [(''PATH'', ''/a:/b'')]\<rparr>"

lemma find_executable_is_executable_witness:
  "\<exists>p m. (if p = ''/b/cc'' then Some ''/real/cc'' else None) = Some ''/real/cc'' \<and> is_absolute p \<and>
     (if p = ''/b/cc'' then Some \<lparr>md_is_file = True, md_mode = 0x1ed\<rparr> else None) = Some m \<and>
     md_is_file m \<and> bit (md_mode m) 6"
proof (rule find_executable_is_executable [of Unix _ _ sample_command])
  show "find_executable Unix
    (fn_find_exec (\<lambda>p. if p = ''/b/cc'' then Some \<lparr>md_is_file = True, md_mode = 0x1ed\<rparr> else None)
       (\<lambda>p. if p = ''/b/cc'' then Some ''/real/cc'' else None)) sample_command = Some ''/real/cc''"
    by (simp add: find_executable_def find_executable_native_def sample_command_def file_name_def
        path_components_def part_component_def is_absolute_def path_parent_def components_path_def Let_def
        env_from_iter_def env_insert_def env_new_def env_get_def split_paths_def path_join_def
        fn_find_exec_def fn_find_exec_native_def)
qed

end
