(* ===== verification/File_Cache.thy ===== *)
theory File_Cache
  imports Binary Counters Command
begin

text \<open>
  \<open>src/io/filecache.rs\<close>: the cache of compilation outputs on disk. A cache file is an LZ4 stream of a
  header, the number of output files, each file with its length, the two output texts and a footer.

  The LZ4 library is not part of the program: an encoder is a writer with a \<open>finish\<close>, a decoder a
  reader over the bytes of a file (record \<open>lz4\<close>). Directory creation may fail (\<open>mkdirs\<close>), and what an
  unfinished encoder leaves in a file is arbitrary (\<open>left\<close>). A file operation returns its result, the
  counters and the file system, because a failing one has changed the disk too.
\<close>

section \<open>Constants and errors\<close>

definition HEADER :: bytes where
  "HEADER = ascii ''OBCF'' @ [0, 3]"

definition FOOTER :: bytes where
  "FOOTER = ascii ''END'' @ [0]"

definition SUFFIX :: string where
  "SUFFIX = ''.lz4''"

definition DEFAULT_BUF_SIZE :: nat where
  "DEFAULT_BUF_SIZE = 1024 * 64"

lemma DEFAULT_BUF_SIZE_pos [simp]: "0 < DEFAULT_BUF_SIZE"
  by (simp add: DEFAULT_BUF_SIZE_def)

datatype cache_error =
  InvalidHeader path | InvalidFooter path | PackedFilesMismatch path | MutexError string

fun cache_error_display :: "cache_error \<Rightarrow> string" where
  "cache_error_display (InvalidHeader p) = ''invalid cache file header: '' @ p"
| "cache_error_display (InvalidFooter p) = ''invalid cache file footer: '' @ p"
| "cache_error_display (PackedFilesMismatch p) = ''unexpected count of packed cached files: '' @ p"
| "cache_error_display (MutexError m) = ''mutex error: '' @ m"

declare cache_error_display.simps [simp del]

definition cache_failure :: "cache_error \<Rightarrow> failure" where
  "cache_failure e = IoError InvalidInput (cache_error_display e)"

section \<open>State and interface\<close>

record file_cache =
  fc_dir :: path
  fc_limit :: "64 word"

definition file_cache_new :: "path \<Rightarrow> 32 word \<Rightarrow> file_cache" where
  "file_cache_new dir limit_mb = \<lparr>fc_dir = dir, fc_limit = ucast limit_mb * 1024 * 1024\<rparr>"

record 'e lz4 =
  enc_new :: 'e
  enc_write :: "'e \<Rightarrow> bytes \<Rightarrow> 'e result"
  enc_finish :: "'e \<Rightarrow> bytes \<times> unit result"
  dec_new :: "bytes \<Rightarrow> reader result"
  dec_taken :: "bytes \<Rightarrow> nat"

text \<open>What reads of a regular file deliver.\<close>

definition file_reader :: "bytes \<Rightarrow> reader" where
  "file_reader d = (if d = [] then [] else [Data d])"

lemma file_reader_clean [simp]: "clean_reader (file_reader d)" "reader_bytes (file_reader d) = d"
  by (simp_all add: file_reader_def)

section \<open>Writing\<close>

definition write_blob :: "('w \<Rightarrow> bytes \<Rightarrow> 'w result) \<Rightarrow> 'w \<Rightarrow> bytes \<Rightarrow> 'w result" where
  "write_blob wr w blob = rbind (write_usize wr w (of_nat (length blob))) (\<lambda>w1. wr w1 blob)"

definition write_output :: "('w \<Rightarrow> bytes \<Rightarrow> 'w result) \<Rightarrow> 'w \<Rightarrow> output_info \<Rightarrow> 'w result" where
  "write_output wr w out = rbind (write_blob wr w (oi_stdout out)) (\<lambda>w1. write_blob wr w1 (oi_stderr out))"

function write_cached_loop ::
    "('w \<Rightarrow> bytes \<Rightarrow> 'w result) \<Rightarrow> reader \<Rightarrow> nat \<Rightarrow> 'w \<Rightarrow> 'w result" where
  "write_cached_loop wr r need w =
     rbind (reader_read DEFAULT_BUF_SIZE r) (\<lambda>x.
       if fst x = [] \<and> need = 0 then Inr w
       else if fst x = [] then Inl (IoError BrokenPipe ''Unexpected end of stream'')
       else if need < length (fst x) then Inl (IoError BrokenPipe ''Expected end of stream'')
       else rbind (wr w (fst x)) (\<lambda>w'. write_cached_loop wr (snd x) (need - length (fst x)) w'))"
  by pat_completeness auto
termination
  by (relation "measure (\<lambda>(wr, r, need, w). length (reader_bytes r))") (auto dest: reader_read_bytes)

declare write_cached_loop.simps [simp del]

definition write_cached_file ::
    "('w \<Rightarrow> bytes \<Rightarrow> 'w result) \<Rightarrow> filesystem \<Rightarrow> 'w \<Rightarrow> path \<Rightarrow> 'w result" where
  "write_cached_file wr fs w p =
     (case fs p of
        None \<Rightarrow> Inl not_found
      | Some f \<Rightarrow>
          let tsize = length (f_data f)
          in rbind (write_u64 wr w (of_nat tsize)) (\<lambda>w1. write_cached_loop wr (file_reader (f_data f)) tsize w1))"

fun write_files ::
    "('w \<Rightarrow> bytes \<Rightarrow> 'w result) \<Rightarrow> filesystem \<Rightarrow> path list \<Rightarrow> 'w \<Rightarrow> 'w result" where
  "write_files wr fs [] w = Inr w"
| "write_files wr fs (p # ps) w = rbind (write_cached_file wr fs w p) (write_files wr fs ps)"

definition write_stream ::
    "('w \<Rightarrow> bytes \<Rightarrow> 'w result) \<Rightarrow> filesystem \<Rightarrow> path list \<Rightarrow> output_info \<Rightarrow> 'w \<Rightarrow> 'w result" where
  "write_stream wr fs paths out w =
     rbind (wr w HEADER) (\<lambda>w1.
     rbind (write_usize wr w1 (of_nat (length paths))) (\<lambda>w2.
     rbind (write_files wr fs paths w2) (\<lambda>w3.
     rbind (write_output wr w3 out) (\<lambda>w4. wr w4 FOOTER))))"

text \<open>\<open>write_cache\<close>: the cache file exists, empty, while the outputs are read. \<open>now\<close> is the time of
  the host.\<close>

definition write_cache ::
    "'e lz4 \<Rightarrow> (path \<Rightarrow> unit result) \<Rightarrow> bytes \<Rightarrow> nat \<Rightarrow> statistic \<Rightarrow> path \<Rightarrow> path list \<Rightarrow> output_info \<Rightarrow>
     filesystem \<Rightarrow> unit result \<times> statistic \<times> filesystem" where
  "write_cache z mkdirs left now stat cpath paths out fs =
     (if \<not> success out then (Inr (), stat, fs)
      else case (case path_parent cpath of Some d \<Rightarrow> mkdirs d | None \<Rightarrow> Inr ()) of
             Inl e \<Rightarrow> (Inl e, stat, fs)
           | Inr _ \<Rightarrow>
               let fs1 = fs(cpath \<mapsto> \<lparr>f_data = [], f_mtime = now\<rparr>)
               in case write_stream (enc_write z) fs1 paths out (enc_new z) of
                    Inl e \<Rightarrow> (Inl e, stat, fs(cpath \<mapsto> \<lparr>f_data = left, f_mtime = now\<rparr>))
                  | Inr w \<Rightarrow>
                      let r = enc_finish z w
                      in (snd r, add_miss (of_nat (length (fst r))) stat,
                          fs(cpath \<mapsto> \<lparr>f_data = fst r, f_mtime = now\<rparr>)))"

section \<open>Reading\<close>

definition read_blob :: "reader \<Rightarrow> (bytes \<times> reader) result" where
  "read_blob r = rbind (read_usize r) (\<lambda>x. read_exact (unat (fst x)) (snd x))"

definition read_output :: "reader \<Rightarrow> (output_info \<times> reader) result" where
  "read_output r =
     rbind (read_blob r) (\<lambda>x. rbind (read_blob (snd x)) (\<lambda>y.
       Inr (\<lparr>oi_status = Some 0, oi_stdout = fst x, oi_stderr = fst y\<rparr>, snd y)))"

text \<open>The loop of \<open>read_cached_file\<close>: what is written to the file so far, and how it ended.\<close>

function read_cached_loop :: "nat \<Rightarrow> bytes \<Rightarrow> reader \<Rightarrow> bytes \<times> reader result" where
  "read_cached_loop need written r =
     (if 0 < need then
        (case reader_read (min DEFAULT_BUF_SIZE need) r of
           Inl e \<Rightarrow> (written, Inl e)
         | Inr x \<Rightarrow>
             if fst x = [] then (written, Inl (IoError BrokenPipe ''Expected end of stream''))
             else read_cached_loop (need - length (fst x)) (written @ fst x) (snd x))
      else (written, Inr r))"
  by pat_completeness auto
termination
  by (relation "measure (\<lambda>(need, written, r). need)") (auto dest: reader_read_nonempty)

declare read_cached_loop.simps [simp del]

definition read_cached_file ::
    "nat \<Rightarrow> reader \<Rightarrow> path \<Rightarrow> filesystem \<Rightarrow> reader result \<times> filesystem" where
  "read_cached_file now r p fs =
     (case read_u64 r of
        Inl e \<Rightarrow> (Inl e, fs)
      | Inr (tsize, r1) \<Rightarrow>
          let (written, res) = read_cached_loop (unat tsize) [] r1
          in (res, fs(p \<mapsto> \<lparr>f_data = written @ replicate (unat tsize - length written) 0, f_mtime = now\<rparr>)))"

definition temp_path :: "path \<Rightarrow> path result" where
  "temp_path p =
     (case file_name p of
        None \<Rightarrow> Inl (Panic ''called Option::unwrap() on a None value'')
      | Some n \<Rightarrow> Inr (with_file_name p (''~tmp~'' @ n)))"

definition drop_file :: "path \<Rightarrow> filesystem \<Rightarrow> filesystem" where
  "drop_file p fs = (case fs_remove p fs of Inr fs' \<Rightarrow> fs' | Inl _ \<Rightarrow> fs)"

text \<open>One output file: into the temporary file, then renamed over the old one.\<close>

definition restore_file ::
    "nat \<Rightarrow> reader \<Rightarrow> path \<Rightarrow> filesystem \<Rightarrow> reader result \<times> filesystem" where
  "restore_file now r p fs =
     (case temp_path p of
        Inl e \<Rightarrow> (Inl e, fs)
      | Inr temp \<Rightarrow>
          let (res, fs2) = read_cached_file now r temp (drop_file p fs)
          in case res of
               Inl e \<Rightarrow> (Inl e, drop_file temp fs2)
             | Inr r' \<Rightarrow>
                 (case fs_rename temp p fs2 of
                    Inl e \<Rightarrow> (Inl e, drop_file temp fs2)
                  | Inr fs3 \<Rightarrow> (Inr r', fs3)))"

fun restore_files ::
    "nat \<Rightarrow> path list \<Rightarrow> reader \<Rightarrow> filesystem \<Rightarrow> reader result \<times> filesystem" where
  "restore_files now [] r fs = (Inr r, fs)"
| "restore_files now (p # ps) r fs =
     (let (res, fs') = restore_file now r p fs
      in case res of Inl e \<Rightarrow> (Inl e, fs') | Inr r' \<Rightarrow> restore_files now ps r' fs')"

text \<open>The part of the stream before the files, and the part behind them.\<close>

definition read_prefix :: "path \<Rightarrow> nat \<Rightarrow> reader \<Rightarrow> reader result" where
  "read_prefix cpath n r =
     rbind (read_exact (length HEADER) r) (\<lambda>x.
       if fst x \<noteq> HEADER then Inl (cache_failure (InvalidHeader cpath))
       else rbind (read_usize (snd x)) (\<lambda>y.
         if unat (fst y) \<noteq> n then Inl (cache_failure (PackedFilesMismatch cpath)) else Inr (snd y)))"

definition read_suffix :: "path \<Rightarrow> reader \<Rightarrow> output_info result" where
  "read_suffix cpath r =
     rbind (read_output r) (\<lambda>x.
     rbind (read_exact (length FOOTER) (snd x)) (\<lambda>y.
       if fst y \<noteq> FOOTER then Inl (cache_failure (InvalidFooter cpath))
       else rbind (reader_read 1 (snd y)) (\<lambda>z.
         if length (fst z) \<noteq> 0 then Inl (cache_failure (InvalidFooter cpath)) else Inr (fst x))))"

text \<open>\<open>read_cache\<close>: the first byte of the file is overwritten with 4, which renews its time.\<close>

definition touch_file :: "nat \<Rightarrow> fs_file \<Rightarrow> fs_file" where
  "touch_file now f = \<lparr>f_data = 4 # drop 1 (f_data f), f_mtime = now\<rparr>"

definition read_cache ::
    "'e lz4 \<Rightarrow> nat \<Rightarrow> statistic \<Rightarrow> path \<Rightarrow> path list \<Rightarrow> filesystem \<Rightarrow>
     output_info result \<times> statistic \<times> filesystem" where
  "read_cache z now stat cpath paths fs =
     (case fs cpath of
        None \<Rightarrow> (Inl not_found, stat, fs)
      | Some f \<Rightarrow>
          let f1 = touch_file now f; fs1 = fs(cpath \<mapsto> f1)
          in case rbind (dec_new z (f_data f1)) (read_prefix cpath (length paths)) of
               Inl e \<Rightarrow> (Inl e, stat, fs1)
             | Inr r \<Rightarrow>
                 let (res, fs2) = restore_files now paths r fs1
                 in case rbind res (read_suffix cpath) of
                      Inl e \<Rightarrow> (Inl e, stat, fs2)
                    | Inr out \<Rightarrow> (Inr out, add_hit (of_nat (dec_taken z (f_data f1))) stat, fs2))"

section \<open>Cached runs\<close>

definition cache_path :: "file_cache \<Rightarrow> string \<Rightarrow> path result" where
  "cache_path fc hash =
     (if length hash < 2 then Inl (Panic ''byte index 2 is out of bounds'')
      else Inr (path_join (path_join (fc_dir fc) (take 2 hash)) (drop 2 hash @ SUFFIX)))"

text \<open>A task works on the counters and the disk.\<close>

type_synonym worker = "statistic \<Rightarrow> filesystem \<Rightarrow> output_info result \<times> statistic \<times> filesystem"

text \<open>\<open>worker\<close> runs the task, \<open>checker\<close> decides whether its result is kept. Any error of the read
  means "not in the cache" (a panic stays a panic).\<close>

definition run_cached ::
    "'e lz4 \<Rightarrow> (path \<Rightarrow> unit result) \<Rightarrow> bytes \<Rightarrow> nat \<Rightarrow> file_cache \<Rightarrow> statistic \<Rightarrow> string \<Rightarrow> path list \<Rightarrow>
     worker \<Rightarrow> bool \<Rightarrow> filesystem \<Rightarrow>
     output_info result \<times> statistic \<times> filesystem" where
  "run_cached z mkdirs left now fc stat hash outputs worker checker fs =
     (case cache_path fc hash of
        Inl e \<Rightarrow> (Inl e, stat, fs)
      | Inr cpath \<Rightarrow>
          let (res, stat1, fs1) = read_cache z now stat cpath outputs fs
          in case res of
               Inr out \<Rightarrow> (Inr out, stat1, fs1)
             | Inl (Panic msg) \<Rightarrow> (Inl (Panic msg), stat1, fs1)
             | Inl (IoError _ _) \<Rightarrow>
                 let (out, stat2, fs2) = worker stat1 fs1
                 in case out of
                      Inl e \<Rightarrow> (Inl e, stat2, fs2)
                    | Inr o' \<Rightarrow>
                        if checker then
                          let (wres, stat3, fs3) = write_cache z mkdirs left now stat2 cpath outputs o' fs2
                          in (rbind wres (\<lambda>_. Inr o'), stat3, fs3)
                        else (Inr o', stat2, fs2))"

section \<open>Cleaning up\<close>

text \<open>A directory as \<open>read_dir\<close> and \<open>metadata\<close> show it: each entry is a file with its size and time,
  a directory, or cannot be examined.\<close>

datatype dir_entry =
    FileEntry path nat nat
  | DirEntry "dir_entry list"
  | BadEntry failure

record cache_file =
  cf_path :: path
  cf_size :: nat
  cf_accessed :: nat

fun find_cache_files :: "dir_entry list \<Rightarrow> cache_file list \<Rightarrow> cache_file list result" where
  "find_cache_files [] files = Inr files"
| "find_cache_files (FileEntry p sz t # es) files =
     find_cache_files es (files @ [\<lparr>cf_path = p, cf_size = sz, cf_accessed = t\<rparr>])"
| "find_cache_files (DirEntry sub # es) files = rbind (find_cache_files sub files) (find_cache_files es)"
| "find_cache_files (BadEntry e # es) files = Inl e"

text \<open>Times in reverse order, so that the library's stable sort puts the newest first.\<close>

datatype newest = Newest nat

instantiation newest :: linorder
begin

fun less_eq_newest :: "newest \<Rightarrow> newest \<Rightarrow> bool" where
  "less_eq_newest (Newest a) (Newest b) = (b \<le> a)"

fun less_newest :: "newest \<Rightarrow> newest \<Rightarrow> bool" where
  "less_newest (Newest a) (Newest b) = (b < a)"

instance
proof
  fix x y z :: newest
  show "(x < y) = (x \<le> y \<and> \<not> y \<le> x)" by (cases x; cases y) auto
  show "x \<le> x" by (cases x) simp
  show "x \<le> y \<Longrightarrow> y \<le> z \<Longrightarrow> x \<le> z" by (cases x; cases y; cases z) simp
  show "x \<le> y \<Longrightarrow> y \<le> x \<Longrightarrow> x = y" by (cases x; cases y) simp
  show "x \<le> y \<or> y \<le> x" by (cases x; cases y) auto
qed

end

definition sort_newest :: "cache_file list \<Rightarrow> cache_file list" where
  "sort_newest files = sort_key (\<lambda>f. Newest (cf_accessed f)) files"

text \<open>The loop of \<open>cleanup\<close>; the sum of the sizes is a 64-bit integer.\<close>

fun cleanup_loop :: "nat \<Rightarrow> nat \<Rightarrow> cache_file list \<Rightarrow> filesystem \<Rightarrow> unit result \<times> filesystem" where
  "cleanup_loop limit used [] fs = (Inr (), fs)"
| "cleanup_loop limit used (f # files) fs =
     (let used' = used + cf_size f
      in if 2 ^ 64 \<le> used' then (Inl (Panic ''attempt to add with overflow''), fs)
         else if limit < used' then
           (case fs_remove (cf_path f) fs of
              Inl e \<Rightarrow> (Inl e, fs)
            | Inr fs' \<Rightarrow> cleanup_loop limit used' files fs')
         else cleanup_loop limit used' files fs)"

definition cleanup :: "file_cache \<Rightarrow> dir_entry list result \<Rightarrow> filesystem \<Rightarrow> unit result \<times> filesystem" where
  "cleanup fc listing fs =
     (case rbind listing (\<lambda>es. find_cache_files es []) of
        Inl e \<Rightarrow> (Inl e, fs)
      | Inr files \<Rightarrow> cleanup_loop (unat (fc_limit fc)) 0 (sort_newest files) fs)"

end
