(* ===== verification/File_Cache_Correct.thy ===== *)
theory File_Cache_Correct
  imports File_Cache "HOL-Library.Multiset"
begin

text \<open>
  What the file cache guarantees: the stream that \<open>write_cache\<close> produces is an encoding
  (\<open>enc_cache\<close>) that \<open>read_cache\<close> decodes, so a cached run restores every output file and both output
  texts; and \<open>cleanup\<close> keeps the newest files within the limit.
\<close>

section \<open>The encoding\<close>

definition enc_blob :: "bytes \<Rightarrow> bytes" where
  "enc_blob b = le_bytes (of_nat (length b)) @ b"

definition file_content :: "filesystem \<Rightarrow> path \<Rightarrow> bytes" where
  "file_content fs p = (case fs p of Some f \<Rightarrow> f_data f | None \<Rightarrow> [])"

definition enc_files :: "filesystem \<Rightarrow> path list \<Rightarrow> bytes" where
  "enc_files fs ps = concat (map (\<lambda>p. enc_blob (file_content fs p)) ps)"

definition enc_cache :: "filesystem \<Rightarrow> path list \<Rightarrow> output_info \<Rightarrow> bytes" where
  "enc_cache fs ps out =
     HEADER @ le_bytes (of_nat (length ps)) @ enc_files fs ps @
     enc_blob (oi_stdout out) @ enc_blob (oi_stderr out) @ FOOTER"

section \<open>Writing\<close>

context byte_sink
begin

definition wrote :: "'w \<Rightarrow> 'w result \<Rightarrow> bytes \<Rightarrow> bool" where
  "wrote w res b \<longleftrightarrow> (\<exists>w'. res = Inr w' \<and> invar w' \<and> contents w' = contents w @ b)"

lemma wrote_wr: "invar w \<Longrightarrow> wrote w (wr w b) b"
  unfolding wrote_def by (erule wrE [of _ b]) blast

lemma wrote_rbind:
  assumes "wrote w m b" "\<And>w'. invar w' \<Longrightarrow> wrote w' (f w') c"
  shows "wrote w (rbind m f) (b @ c)"
  using assms unfolding wrote_def by fastforce

lemma wrote_u64: "invar w \<Longrightarrow> wrote w (write_u64 wr w i) (le_bytes i)"
  by (simp add: write_u64_def wrote_wr)

lemma wrote_usize: "invar w \<Longrightarrow> wrote w (write_usize wr w i) (le_bytes i)"
  by (simp add: write_usize_def wrote_u64)

lemma wrote_blob: "invar w \<Longrightarrow> wrote w (write_blob wr w b) (enc_blob b)"
  unfolding write_blob_def enc_blob_def by (intro wrote_rbind wrote_usize wrote_wr)

lemma wrote_output:
  "invar w \<Longrightarrow> wrote w (write_output wr w out) (enc_blob (oi_stdout out) @ enc_blob (oi_stderr out))"
  unfolding write_output_def by (intro wrote_rbind wrote_blob)

lemma wrote_cached_loop:
  "clean_reader r \<Longrightarrow> invar w \<Longrightarrow> need = length (reader_bytes r) \<Longrightarrow>
     wrote w (write_cached_loop wr r need w) (reader_bytes r)"
proof (induction "length (reader_bytes r)" arbitrary: r w need rule: less_induct)
  case less
  obtain d r' where d: "reader_read DEFAULT_BUF_SIZE r = Inr (d, r')" "clean_reader r'"
    "d = [] \<longleftrightarrow> reader_bytes r = []"
    using reader_read_clean [OF less.prems(1) DEFAULT_BUF_SIZE_pos] by blast
  have b: "reader_bytes r = d @ reader_bytes r'" using reader_read_bytes [OF d(1)] .
  show ?case
  proof (cases "d = []")
    case True
    then show ?thesis
      using d less.prems by (simp add: wrote_def write_cached_loop.simps [of wr r 0 w])
  next
    case False
    have IH: "wrote w' (write_cached_loop wr r' (need - length d) w') (reader_bytes r')" if "invar w'" for w'
      by (rule less.hyps [OF _ d(2) that]) (use False b less.prems(3) in simp_all)
    have "wrote w (rbind (wr w d) (\<lambda>w'. write_cached_loop wr r' (need - length d) w')) (d @ reader_bytes r')"
      by (rule wrote_rbind [OF wrote_wr [OF less.prems(2)] IH])
    then show ?thesis
      using d(1) b False less.prems(3) by (subst write_cached_loop.simps) simp
  qed
qed

lemma wrote_file:
  assumes "invar w" "fs p \<noteq> None"
  shows "wrote w (write_cached_file wr fs w p) (enc_blob (file_content fs p))"
proof -
  obtain f where f: "fs p = Some f" using assms(2) by auto
  have "wrote w (rbind (write_u64 wr w (of_nat (length (f_data f))))
      (\<lambda>w1. write_cached_loop wr (file_reader (f_data f)) (length (f_data f)) w1))
      (le_bytes (of_nat (length (f_data f))) @ reader_bytes (file_reader (f_data f)))"
    by (rule wrote_rbind [OF wrote_u64 [OF assms(1)]]) (rule wrote_cached_loop, simp_all)
  then show ?thesis using f by (simp add: write_cached_file_def file_content_def enc_blob_def Let_def)
qed

lemma wrote_files:
  "invar w \<Longrightarrow> \<forall>p \<in> set ps. fs p \<noteq> None \<Longrightarrow> wrote w (write_files wr fs ps w) (enc_files fs ps)"
proof (induction ps arbitrary: w)
  case Nil
  then show ?case by (simp add: wrote_def enc_files_def)
next
  case (Cons p ps)
  have "wrote w (rbind (write_cached_file wr fs w p) (write_files wr fs ps)) (enc_blob (file_content fs p) @ enc_files fs ps)"
    by (rule wrote_rbind [OF wrote_file Cons.IH]) (use Cons.prems in auto)
  then show ?case by (simp add: enc_files_def)
qed

lemma wrote_stream:
  assumes "invar w" "\<forall>p \<in> set ps. fs p \<noteq> None"
  shows "wrote w (write_stream wr fs ps out w) (enc_cache fs ps out)"
proof -
  have "wrote w (write_stream wr fs ps out w) (HEADER @ le_bytes (of_nat (length ps)) @ enc_files fs ps @
      (enc_blob (oi_stdout out) @ enc_blob (oi_stderr out)) @ FOOTER)"
    unfolding write_stream_def
    by (intro wrote_rbind wrote_wr wrote_usize wrote_files wrote_output assms)
  then show ?thesis by (simp add: enc_cache_def)
qed

end

section \<open>Reading\<close>

lemma readsI: "op r = Inr (x, r') \<Longrightarrow> clean_reader r' \<Longrightarrow> reader_bytes r' = rest \<Longrightarrow> reads op r x rest"
  by (auto simp: reads_def)

lemma reads_exact:
  "clean_reader r \<Longrightarrow> reader_bytes r = xs @ rest \<Longrightarrow> reads (read_exact (length xs)) r xs rest"
  using read_array_ok [of r xs rest "length xs"] by (simp add: reads_def read_exact_def)

lemma reads_usize: "clean_reader r \<Longrightarrow> reader_bytes r = le_bytes i @ rest \<Longrightarrow> reads read_usize r i rest"
  by (erule (1) read_u64_ok) (simp add: reads_def read_usize_def)

text \<open>Lengths that the 64-bit length fields can hold.\<close>

definition fits :: "bytes \<Rightarrow> bool" where
  "fits b \<longleftrightarrow> length b < 2 ^ 64"

lemma unat_fits: "n < 2 ^ 64 \<Longrightarrow> unat (of_nat n :: 64 word) = n"
  by (simp add: unsigned_of_nat take_bit_nat_eq_self)

lemma reads_blob:
  assumes "clean_reader r" "reader_bytes r = enc_blob b @ rest" "fits b"
  shows "reads read_blob r b rest"
proof -
  have "reader_bytes r = le_bytes (of_nat (length b)) @ b @ rest" using assms(2) by (simp add: enc_blob_def)
  then obtain r1 where 1: "read_usize r = Inr (of_nat (length b), r1)" "clean_reader r1" "reader_bytes r1 = b @ rest"
    using reads_usize [OF assms(1)] by (auto simp: reads_def)
  obtain r2 where "read_exact (length b) r1 = Inr (b, r2)" "clean_reader r2" "reader_bytes r2 = rest"
    using reads_exact [OF 1(2,3)] by (auto simp: reads_def)
  then show ?thesis using 1(1) assms(3) unat_fits [of "length b"] by (simp add: reads_def read_blob_def fits_def)
qed

lemma read_cached_loop_ok:
  "clean_reader r \<Longrightarrow> reader_bytes r = d @ rest \<Longrightarrow> need = length d \<Longrightarrow>
     \<exists>r'. read_cached_loop need acc r = (acc @ d, Inr r') \<and> clean_reader r' \<and> reader_bytes r' = rest"
proof (induction need arbitrary: acc d r rule: less_induct)
  case (less need)
  show ?case
  proof (cases "need = 0")
    case True
    then show ?thesis using less.prems by (simp add: read_cached_loop.simps [of 0 acc r])
  next
    case False
    obtain x r1 where x: "reader_read (min DEFAULT_BUF_SIZE need) r = Inr (x, r1)" "clean_reader r1"
      "x = [] \<longleftrightarrow> reader_bytes r = []"
      using reader_read_clean [OF less.prems(1), of "min DEFAULT_BUF_SIZE need"] False by auto
    have b: "reader_bytes r = x @ reader_bytes r1" using reader_read_bytes [OF x(1)] .
    have ne: "x \<noteq> []" using x(3) less.prems(2,3) False by auto
    have "length x \<le> length d" using reader_read_length [OF x(1)] less.prems(3) by simp
    then have d: "d = x @ drop (length x) d" "reader_bytes r1 = drop (length x) d @ rest"
      using arg_cong [OF b, of "take (length x)"] arg_cong [OF b, of "drop (length x)"] less.prems(2)
        append_take_drop_id [of "length x" d] by simp_all
    have "\<exists>r'. read_cached_loop (need - length x) (acc @ x) r1 = ((acc @ x) @ drop (length x) d, Inr r') \<and>
        clean_reader r' \<and> reader_bytes r' = rest"
      by (rule less.IH [OF _ x(2) d(2)]) (use ne False less.prems(3) in auto)
    then show ?thesis using x(1) ne False d(1) by (simp add: read_cached_loop.simps [of need acc r])
  qed
qed

lemma restore_file_ok:
  assumes "clean_reader r" "reader_bytes r = enc_blob d @ rest" "fits d" "temp_path p = Inr t" "t \<noteq> p"
  shows "\<exists>r' fs'. restore_file now r p fs = (Inr r', fs') \<and> clean_reader r' \<and> reader_bytes r' = rest \<and>
    fs' = fs(t := None, p \<mapsto> \<lparr>f_data = d, f_mtime = now\<rparr>)"
proof -
  have "reader_bytes r = le_bytes (of_nat (length d)) @ d @ rest" using assms(2) by (simp add: enc_blob_def)
  then obtain r1 where 1: "read_u64 r = Inr (of_nat (length d), r1)" "clean_reader r1" "reader_bytes r1 = d @ rest"
    by (rule read_u64_ok [OF assms(1)])
  obtain r2 where 2: "read_cached_loop (length d) [] r1 = (d, Inr r2)" "clean_reader r2" "reader_bytes r2 = rest"
    using read_cached_loop_ok [OF 1(2,3) refl, of "[]"] by auto
  have "read_cached_file now r t (drop_file p fs) =
      (Inr r2, (drop_file p fs)(t \<mapsto> \<lparr>f_data = d, f_mtime = now\<rparr>))"
    using 1(1) 2(1) assms(3) unat_fits [of "length d"] by (simp add: read_cached_file_def fits_def)
  moreover have "drop_file p fs = fs(p := None)"
    by (auto simp: drop_file_def fs_remove_def split: option.split)
  moreover have "(fs(p := None, t \<mapsto> \<lparr>f_data = d, f_mtime = now\<rparr>))(t := None, p \<mapsto> \<lparr>f_data = d, f_mtime = now\<rparr>) =
      fs(t := None, p \<mapsto> \<lparr>f_data = d, f_mtime = now\<rparr>)"
    by (auto simp: fun_eq_iff)
  ultimately have "restore_file now r p fs = (Inr r2, fs(t := None, p \<mapsto> \<lparr>f_data = d, f_mtime = now\<rparr>))"
    using assms(4) by (simp add: restore_file_def fs_rename_def)
  then show ?thesis using 2 by blast
qed

text \<open>The paths of one cached run: every output has a file name, and no output is the temporary file
  of another one.\<close>

definition good_outputs :: "path list \<Rightarrow> bool" where
  "good_outputs ps \<longleftrightarrow> distinct ps \<and> (\<forall>p \<in> set ps. \<exists>t. temp_path p = Inr t \<and> t \<notin> set ps)"

lemma restore_files_ok:
  "clean_reader r \<Longrightarrow> reader_bytes r = concat (map (\<lambda>p. enc_blob (d p)) ps) @ rest \<Longrightarrow>
     \<forall>p \<in> set ps. fits (d p) \<and> (\<exists>t. temp_path p = Inr t \<and> t \<notin> Q) \<Longrightarrow> distinct ps \<Longrightarrow> set ps \<subseteq> Q \<Longrightarrow>
     \<exists>r' fs'. restore_files now ps r fs = (Inr r', fs') \<and> clean_reader r' \<and> reader_bytes r' = rest \<and>
       (\<forall>p \<in> Q. fs' p = (if p \<in> set ps then Some \<lparr>f_data = d p, f_mtime = now\<rparr> else fs p))"
proof (induction ps arbitrary: r fs)
  case Nil
  then show ?case by simp
next
  case (Cons p ps)
  obtain t where t: "temp_path p = Inr t" "t \<notin> Q" using Cons.prems by auto
  have "reader_bytes r = enc_blob (d p) @ concat (map (\<lambda>p. enc_blob (d p)) ps) @ rest" "fits (d p)" "t \<noteq> p"
    using Cons.prems t by auto
  from restore_file_ok [OF Cons.prems(1) this(1,2) t(1) this(3)] obtain r1 where
    1: "restore_file now r p fs = (Inr r1, fs(t := None, p \<mapsto> \<lparr>f_data = d p, f_mtime = now\<rparr>))"
      "clean_reader r1" "reader_bytes r1 = concat (map (\<lambda>p. enc_blob (d p)) ps) @ rest"
    by blast
  let ?fs = "fs(t := None, p \<mapsto> \<lparr>f_data = d p, f_mtime = now\<rparr>)"
  have ps: "\<forall>p \<in> set ps. fits (d p) \<and> (\<exists>t. temp_path p = Inr t \<and> t \<notin> Q)" "distinct ps" "set ps \<subseteq> Q" "p \<notin> set ps"
    using Cons.prems(3-5) by simp_all
  from Cons.IH [OF 1(2,3) ps(1-3), of ?fs] obtain r2 fs2 where
    2: "restore_files now ps r1 ?fs = (Inr r2, fs2)" "clean_reader r2" "reader_bytes r2 = rest"
      "\<forall>q \<in> Q. fs2 q = (if q \<in> set ps then Some \<lparr>f_data = d q, f_mtime = now\<rparr> else ?fs q)"
    by blast
  have "restore_files now (p # ps) r fs = (Inr r2, fs2)" using 1(1) 2(1) by simp
  moreover have "\<forall>q \<in> Q. fs2 q = (if q \<in> set (p # ps) then Some \<lparr>f_data = d q, f_mtime = now\<rparr> else fs q)"
    using 2(4) t(2) ps(4) by auto
  ultimately show ?case using 2(2,3) by blast
qed

lemma read_prefix_ok:
  assumes "clean_reader r" "reader_bytes r = HEADER @ le_bytes (of_nat n) @ rest" "n < 2 ^ 64"
  shows "\<exists>r'. read_prefix cpath n r = Inr r' \<and> clean_reader r' \<and> reader_bytes r' = rest"
proof -
  obtain r1 where 1: "read_exact (length HEADER) r = Inr (HEADER, r1)" "clean_reader r1"
    "reader_bytes r1 = le_bytes (of_nat n) @ rest"
    using reads_exact [OF assms(1,2)] by (auto simp: reads_def)
  obtain r2 where "read_usize r1 = Inr (of_nat n, r2)" "clean_reader r2" "reader_bytes r2 = rest"
    using reads_usize [OF 1(2,3)] by (auto simp: reads_def)
  then show ?thesis using 1(1) unat_fits [OF assms(3)] by (simp add: read_prefix_def)
qed

lemma read_suffix_ok:
  assumes "clean_reader r" "reader_bytes r = enc_blob so @ enc_blob se @ FOOTER" "fits so" "fits se"
  shows "read_suffix cpath r = Inr \<lparr>oi_status = Some 0, oi_stdout = so, oi_stderr = se\<rparr>"
proof -
  obtain r1 where 1: "read_blob r = Inr (so, r1)" "clean_reader r1" "reader_bytes r1 = enc_blob se @ FOOTER"
    using reads_blob [OF assms(1,2,3)] by (auto simp: reads_def)
  obtain r2 where 2: "read_blob r1 = Inr (se, r2)" "clean_reader r2" "reader_bytes r2 = FOOTER"
    using reads_blob [OF 1(2,3) assms(4)] by (auto simp: reads_def)
  have "reader_bytes r2 = FOOTER @ []" using 2(3) by simp
  then obtain r3 where 3: "read_exact (length FOOTER) r2 = Inr (FOOTER, r3)" "clean_reader r3" "reader_bytes r3 = []"
    using reads_exact [OF 2(2), of FOOTER "[]"] by (auto simp: reads_def)
  obtain x r4 where "reader_read 1 r3 = Inr (x, r4)" "x = []"
    using reader_read_clean [OF 3(2), of 1] 3(3) by auto
  then show ?thesis using 1(1) 2(1) 3(1) by (simp add: read_suffix_def read_output_def)
qed

section \<open>The cache round-trips\<close>

text \<open>What the LZ4 library promises: the encoder is a writer; a finished stream begins with the byte 4
  of the frame's magic number, and decodes to what was written. \<open>plain\<close> is what an encoder has been
  given, \<open>usable\<close> holds of the encoders in use.\<close>

definition lz4_ok :: "'e lz4 \<Rightarrow> ('e \<Rightarrow> bytes) \<Rightarrow> ('e \<Rightarrow> bool) \<Rightarrow> bool" where
  "lz4_ok z plain usable \<longleftrightarrow>
     byte_sink (enc_write z) plain usable \<and> usable (enc_new z) \<and> plain (enc_new z) = [] \<and>
     (\<forall>w. usable w \<longrightarrow> (\<exists>t r. enc_finish z w = (4 # t, Inr ()) \<and> dec_new z (4 # t) = Inr r \<and>
        clean_reader r \<and> reader_bytes r = plain w))"

text \<open>A file that decodes to the encoding of a run.\<close>

definition cache_entry :: "'e lz4 \<Rightarrow> bytes \<Rightarrow> bytes \<Rightarrow> bool" where
  "cache_entry z data plain \<longleftrightarrow>
     (\<exists>t r. data = 4 # t \<and> dec_new z data = Inr r \<and> clean_reader r \<and> reader_bytes r = plain)"

lemma write_cache_entry:
  assumes "lz4_ok z plain usable" "success out" "\<forall>p \<in> set ps. fs p \<noteq> None \<and> p \<noteq> cpath"
    "write_cache z mkdirs left now stat cpath ps out fs = (Inr u, stat1, fs1)"
  shows "\<exists>f. fs1 = fs(cpath \<mapsto> f) \<and> cache_entry z (f_data f) (enc_cache fs ps out)"
proof -
  note z = assms(1) [unfolded lz4_ok_def]
  let ?fs = "fs(cpath \<mapsto> \<lparr>f_data = [], f_mtime = now\<rparr>)"
  have "file_content ?fs p = file_content fs p" if "p \<in> set ps" for p
    using assms(3) that by (auto simp: file_content_def)
  then have enc: "enc_cache ?fs ps out = enc_cache fs ps out"
    by (simp add: enc_cache_def enc_files_def cong: map_cong)
  have "\<forall>p \<in> set ps. ?fs p \<noteq> None" using assms(3) by auto
  then obtain w where w: "write_stream (enc_write z) ?fs ps out (enc_new z) = Inr w" "usable w"
    "plain w = enc_cache fs ps out"
    using byte_sink.wrote_stream [OF conjunct1 [OF z], of "enc_new z" ps ?fs out] z enc
    by (auto simp: byte_sink.wrote_def [OF conjunct1 [OF z]])
  then obtain t r where "enc_finish z w = (4 # t, Inr ())" "dec_new z (4 # t) = Inr r"
    "clean_reader r" "reader_bytes r = enc_cache fs ps out"
    using z by metis
  then show ?thesis
    using assms(2,4) w(1) by (auto simp: write_cache_def cache_entry_def Let_def split: sum.splits)
qed

lemma read_cache_entry:
  assumes "fs cpath = Some f" "cache_entry z (f_data f) (enc_cache fs0 ps out)"
    "distinct ps" "cpath \<notin> set ps"
    "\<forall>p \<in> set ps. fits (file_content fs0 p) \<and> (\<exists>t. temp_path p = Inr t \<and> t \<notin> set ps)"
    "length ps < 2 ^ 64" "fits (oi_stdout out)" "fits (oi_stderr out)"
  shows "\<exists>n fs'. read_cache z now stat cpath ps fs =
      (Inr \<lparr>oi_status = Some 0, oi_stdout = oi_stdout out, oi_stderr = oi_stderr out\<rparr>, add_hit n stat, fs') \<and>
    (\<forall>p \<in> set ps. file_content fs' p = file_content fs0 p)"
proof -
  obtain t r where r: "f_data f = 4 # t" "dec_new z (4 # t) = Inr r" "clean_reader r"
    "reader_bytes r = enc_cache fs0 ps out"
    using assms(2) by (auto simp: cache_entry_def)
  let ?tail = "enc_blob (oi_stdout out) @ enc_blob (oi_stderr out) @ FOOTER"
  let ?fs = "fs(cpath \<mapsto> touch_file now f)"
  have touched: "f_data (touch_file now f) = 4 # t" using r(1) by (simp add: touch_file_def)
  obtain r1 where r1: "read_prefix cpath (length ps) r = Inr r1" "clean_reader r1"
    "reader_bytes r1 = enc_files fs0 ps @ ?tail"
    using read_prefix_ok [OF r(3) _ assms(6)] r(4) by (auto simp: enc_cache_def)
  obtain r2 fs2 where r2: "restore_files now ps r1 ?fs = (Inr r2, fs2)" "clean_reader r2" "reader_bytes r2 = ?tail"
    "\<forall>p \<in> set ps. fs2 p = Some \<lparr>f_data = file_content fs0 p, f_mtime = now\<rparr>"
    using restore_files_ok [OF r1(2) r1(3) [unfolded enc_files_def] assms(5,3) subset_refl, of now ?fs] by auto
  have "read_suffix cpath r2 = Inr \<lparr>oi_status = Some 0, oi_stdout = oi_stdout out, oi_stderr = oi_stderr out\<rparr>"
    using read_suffix_ok [OF r2(2,3) assms(7,8)] .
  then have "read_cache z now stat cpath ps fs =
      (Inr \<lparr>oi_status = Some 0, oi_stdout = oi_stdout out, oi_stderr = oi_stderr out\<rparr>,
       add_hit (of_nat (dec_taken z (4 # t))) stat, fs2)"
    using assms(1) r(2) r1(1) r2(1) touched by (simp add: read_cache_def Let_def)
  then show ?thesis using r2(4) by (auto simp: file_content_def)
qed

text \<open>A successful run whose result was stored is replayed: later, whatever happened
  to the other files in between, a run with the same key and outputs does not call its worker, returns
  status 0 with the same output texts, restores every output file, and counts one hit. (The temporary
  names of the outputs are not outputs themselves, and all lengths fit into 64 bits.)\<close>

lemma cached_run_replays:
  assumes "lz4_ok z plain usable" "cache_path fc hash = Inr cpath" "fs cpath = None"
    "run_cached z mkdirs left now fc stat hash ps worker True fs = (Inr out, stat1, fs1)"
    "success out" "good_outputs ps" "cpath \<notin> set ps" "length ps < 2 ^ 64"
    "\<forall>p \<in> set ps. fs1 p \<noteq> None \<and> fits (file_content fs1 p)" "fits (oi_stdout out)" "fits (oi_stderr out)"
    "fs2 cpath = fs1 cpath"
  shows "\<exists>stat3 fs3. run_cached z mkdirs' left' now' fc stat2 hash ps worker' checker' fs2 =
      (Inr \<lparr>oi_status = Some 0, oi_stdout = oi_stdout out, oi_stderr = oi_stderr out\<rparr>, stat3, fs3) \<and>
    hit_count stat3 = hit_count stat2 + 1 \<and> (\<forall>p \<in> set ps. file_content fs3 p = file_content fs1 p)"
proof -
  obtain fs' stat0 stat' u where w: "write_cache z mkdirs left now stat0 cpath ps out fs' = (Inr u, stat', fs1)"
    using assms(2-4) by (auto simp: run_cached_def read_cache_def not_found_def Let_def rbind_eq_Inr
        split: prod.splits sum.splits)
  have "fs' p = fs1 p" if "p \<in> set ps" for p
  proof -
    have "p \<noteq> cpath" using that assms(7) by auto
    then show ?thesis
      using w assms(5) by (auto simp: write_cache_def Let_def split: sum.splits option.splits)
  qed
  then have same: "\<forall>p \<in> set ps. fs' p \<noteq> None \<and> p \<noteq> cpath" "\<forall>p \<in> set ps. file_content fs' p = file_content fs1 p"
    using assms(7,9) by (auto simp: file_content_def)
  obtain f where f: "fs1 = fs'(cpath \<mapsto> f)" "cache_entry z (f_data f) (enc_cache fs' ps out)"
    using write_cache_entry [OF assms(1,5) same(1) w] by blast
  have ps: "\<forall>p \<in> set ps. fits (file_content fs' p) \<and> (\<exists>t. temp_path p = Inr t \<and> t \<notin> set ps)"
    using assms(6,9) same(2) by (auto simp: good_outputs_def)
  have d: "fs2 cpath = Some f" "distinct ps" using assms(6,12) f(1) by (simp_all add: good_outputs_def)
  note rd = read_cache_entry [where fs = fs2 and cpath = cpath and now = now' and stat = stat2,
      OF d(1) f(2) d(2) assms(7) ps assms(8,10,11)]
  obtain n fs3 where "read_cache z now' stat2 cpath ps fs2 =
      (Inr \<lparr>oi_status = Some 0, oi_stdout = oi_stdout out, oi_stderr = oi_stderr out\<rparr>, add_hit n stat2, fs3)"
    "\<forall>p \<in> set ps. file_content fs3 p = file_content fs' p"
    using rd by blast
  then show ?thesis using assms(2) same(2) by (simp add: run_cached_def add_hit_def)
qed

text \<open>A codec that stores the stream behind the magic byte, and a first run with one output.\<close>

definition stored_lz4 :: "bytes lz4" where
  "stored_lz4 = \<lparr>enc_new = [], enc_write = vec_write, enc_finish = (\<lambda>w. (4 # w, Inr ())),
     dec_new = (\<lambda>d. Inr (file_reader (drop 1 d))), dec_taken = length\<rparr>"

lemma stored_lz4_ok: "lz4_ok stored_lz4 (\<lambda>w. w) (\<lambda>_. True)"
  by (simp add: lz4_ok_def stored_lz4_def vec_sink.byte_sink_axioms)

definition sample_output :: output_info where
  "sample_output = \<lparr>oi_status = Some 0, oi_stdout = [111], oi_stderr = []\<rparr>"

definition sample_worker :: worker where
  "sample_worker stat fs = (Inr sample_output, stat, fs(''/o'' \<mapsto> \<lparr>f_data = [1, 2], f_mtime = 5\<rparr>))"

definition failing_worker :: worker where
  "failing_worker stat fs = (Inl (IoError OtherKind ''not called''), stat, fs)"

definition sample_cache :: file_cache where
  "sample_cache = file_cache_new ''/c'' 1"

lemma temp_path_sample: "temp_path ''/o'' = Inr ''/~tmp~o''"
  by (simp add: temp_path_def file_name_def path_components_def part_component_def is_absolute_def Let_def
      with_file_name_def path_parent_def components_path_def path_join_def)

definition sample_fs :: "bytes \<Rightarrow> filesystem" where
  "sample_fs data = [''/o'' \<mapsto> \<lparr>f_data = [1, 2], f_mtime = 5\<rparr>, ''/c/ab/c.lz4'' \<mapsto> \<lparr>f_data = data, f_mtime = 7\<rparr>]"

lemma cache_path_sample: "cache_path sample_cache ''abc'' = Inr ''/c/ab/c.lz4''"
  by (simp add: cache_path_def sample_cache_def file_cache_new_def path_join_def is_absolute_def SUFFIX_def)

lemma success_sample: "success sample_output"
  by (simp add: sample_output_def success_def)

lemma good_outputs_sample: "good_outputs [''/o'']"
  by (simp add: good_outputs_def temp_path_sample)

text \<open>The first run with this key: it calls its worker and stores the result.\<close>

lemma sample_run:
  "\<exists>w. run_cached stored_lz4 (\<lambda>_. Inr ()) [] 7 sample_cache statistic_new ''abc'' [''/o''] sample_worker True Map.empty =
      (Inr sample_output, add_miss (of_nat (length (4 # w))) statistic_new, sample_fs (4 # w))"
proof -
  have read: "read_cache stored_lz4 7 statistic_new ''/c/ab/c.lz4'' [''/o''] Map.empty = (Inl not_found, statistic_new, Map.empty)"
    by (simp add: read_cache_def)
  let ?fs = "[''/o'' \<mapsto> \<lparr>f_data = [1, 2], f_mtime = 5\<rparr>]"
  obtain w where wr: "write_stream vec_write (sample_fs []) [''/o''] sample_output [] = Inr w"
    using vec_sink.wrote_stream [where w = "[]" and ps = "[''/o'']" and fs = "sample_fs []" and out = sample_output]
    by (auto simp: vec_sink.wrote_def sample_fs_def)
  have "(case path_parent ''/c/ab/c.lz4'' of Some d \<Rightarrow> Inr () | None \<Rightarrow> Inr ()) = (Inr () :: unit result)"
    by (simp split: option.split)
  then have "write_cache stored_lz4 (\<lambda>_. Inr ()) [] 7 statistic_new ''/c/ab/c.lz4'' [''/o''] sample_output ?fs =
      (Inr (), add_miss (of_nat (length (4 # w))) statistic_new, sample_fs (4 # w))"
    using success_sample wr by (simp add: write_cache_def stored_lz4_def sample_fs_def Let_def)
  then show ?thesis
    using cache_path_sample read by (intro exI [of _ w]) (simp add: run_cached_def not_found_def sample_worker_def)
qed

section \<open>Cleaning up\<close>

definition total_size :: "cache_file list \<Rightarrow> nat" where
  "total_size files = sum_list (map cf_size files)"

lemma total_size_simps [simp]:
  "total_size [] = 0" "total_size (f # fs) = cf_size f + total_size fs"
  "total_size (fs @ gs) = total_size fs + total_size gs"
  by (simp_all add: total_size_def)

text \<open>The outcome of the loop: the files within the limit stay, all behind them are removed.\<close>

definition cut_at :: "nat \<Rightarrow> nat \<Rightarrow> cache_file list \<Rightarrow> cache_file list \<Rightarrow> cache_file list \<Rightarrow> bool" where
  "cut_at limit used files kept removed \<longleftrightarrow>
     files = kept @ removed \<and> (kept \<noteq> [] \<longrightarrow> used + total_size kept \<le> limit) \<and>
     (removed \<noteq> [] \<longrightarrow> limit < used + total_size kept + cf_size (hd removed))"

definition without :: "cache_file list \<Rightarrow> filesystem \<Rightarrow> filesystem" where
  "without removed fs = (\<lambda>p. if p \<in> cf_path ` set removed then None else fs p)"

lemma cleanup_loop_ok:
  "\<forall>f \<in> set files. fs (cf_path f) \<noteq> None \<Longrightarrow> distinct (map cf_path files) \<Longrightarrow> used + total_size files < 2 ^ 64 \<Longrightarrow>
     \<exists>kept removed. cleanup_loop limit used files fs = (Inr (), without removed fs) \<and> cut_at limit used files kept removed"
proof (induction files arbitrary: used fs)
  case Nil
  then show ?case by (auto simp: cut_at_def without_def intro!: exI [of _ "[]"])
next
  case (Cons f files)
  let ?used = "used + cf_size f"
  have lt: "\<not> 2 ^ 64 \<le> ?used" "?used + total_size files < 2 ^ 64" using Cons.prems(3) by simp_all
  show ?case
  proof (cases "limit < ?used")
    case False
    from Cons.IH [of fs ?used] Cons.prems lt obtain kept removed where
      "cleanup_loop limit ?used files fs = (Inr (), without removed fs)" "cut_at limit ?used files kept removed"
      by auto
    then show ?thesis
      using False lt(1) by (intro exI [of _ "f # kept"] exI [of _ removed]) (auto simp: cut_at_def Let_def)
  next
    case True
    let ?fs = "fs(cf_path f := None)"
    have "cf_path g \<noteq> cf_path f" if "g \<in> set files" for g
      using imageI [OF that, of cf_path] Cons.prems(2) by auto
    then have "\<forall>g \<in> set files. ?fs (cf_path g) \<noteq> None" using Cons.prems(1) by simp
    from Cons.IH [OF this _ lt(2)] Cons.prems(2) obtain kept removed where
      1: "cleanup_loop limit ?used files ?fs = (Inr (), without removed ?fs)" "cut_at limit ?used files kept removed"
      unfolding list.map distinct.simps by blast
    then have "kept = []" using True by (auto simp: cut_at_def)
    moreover have "fs_remove (cf_path f) fs = Inr ?fs" using Cons.prems(1) by (auto simp: fs_remove_def)
    moreover have "without (f # removed) fs = without removed ?fs" by (auto simp: without_def fun_eq_iff)
    ultimately show ?thesis
      using 1 True lt(1) by (intro exI [of _ "[]"] exI [of _ "f # removed"]) (auto simp: cut_at_def Let_def)
  qed
qed

lemma sorted_newest_split:
  assumes "sort_newest files = kept @ removed" "k \<in> set kept" "r \<in> set removed"
  shows "cf_accessed r \<le> cf_accessed k"
proof -
  have "sorted (map (\<lambda>f. Newest (cf_accessed f)) (kept @ removed))"
    unfolding assms(1) [symmetric] sort_newest_def by (rule sorted_sort_key)
  then have "Newest (cf_accessed k) \<le> Newest (cf_accessed r)"
    using assms(2,3) by (auto simp: sorted_append)
  then show ?thesis by simp
qed

text \<open>C24: Cleaning the cache succeeds when the listed files exist, and splits them into
  those it keeps and those it removes: the kept ones fit into the limit together, they are the newest,
  the first removed one would not have fitted any more, and no other file is touched.\<close>

theorem cleanup_keeps_newest:
  assumes "find_cache_files es [] = Inr files" "distinct (map cf_path files)"
    "\<forall>f \<in> set files. fs (cf_path f) \<noteq> None" "total_size files < 2 ^ 64"
  shows "\<exists>kept removed. sort_newest files = kept @ removed \<and>
    cleanup fc (Inr es) fs = (Inr (), without removed fs) \<and>
    total_size kept \<le> unat (fc_limit fc) \<and>
    (removed \<noteq> [] \<longrightarrow> unat (fc_limit fc) < total_size kept + cf_size (hd removed)) \<and>
    (\<forall>k \<in> set kept. \<forall>r \<in> set removed. cf_accessed r \<le> cf_accessed k)"
proof -
  have "mset (sort_newest files) = mset files" by (simp add: sort_newest_def)
  then have "set (sort_newest files) = set files"
    "mset (map cf_path (sort_newest files)) = mset (map cf_path files)"
    "total_size (sort_newest files) = total_size files"
    by (auto simp: total_size_def simp flip: sum_mset_sum_list dest: mset_eq_setD)
  moreover from this(2) have "distinct (map cf_path (sort_newest files))"
    using assms(2) mset_eq_imp_distinct_iff by blast
  ultimately obtain kept removed where 1: "cleanup_loop (unat (fc_limit fc)) 0 (sort_newest files) fs = (Inr (), without removed fs)"
    "cut_at (unat (fc_limit fc)) 0 (sort_newest files) kept removed"
    using cleanup_loop_ok [of "sort_newest files" fs 0 "unat (fc_limit fc)"] assms(3,4) by auto
  have "total_size kept \<le> unat (fc_limit fc)" using 1(2) by (cases "kept = []") (auto simp: cut_at_def)
  moreover have "cleanup fc (Inr es) fs = (Inr (), without removed fs)"
    using 1(1) assms(1) by (simp add: cleanup_def)
  moreover have "\<forall>k \<in> set kept. \<forall>r \<in> set removed. cf_accessed r \<le> cf_accessed k"
    using sorted_newest_split [of files kept removed] 1(2) by (simp add: cut_at_def)
  ultimately show ?thesis
    using 1(2) by (intro exI [of _ kept] exI [of _ removed]) (simp add: cut_at_def)
qed

definition sample_listing :: "dir_entry list" where
  "sample_listing = [DirEntry [FileEntry ''/c/ab/1'' 900000 10], FileEntry ''/c/2'' 900000 20]"

lemma cleanup_keeps_newest_witness:
  "\<exists>kept removed. sort_newest [\<lparr>cf_path = ''/c/ab/1'', cf_size = 900000, cf_accessed = 10\<rparr>,
       \<lparr>cf_path = ''/c/2'', cf_size = 900000, cf_accessed = 20\<rparr>] = kept @ removed \<and>
    cleanup sample_cache (Inr sample_listing) (\<lambda>_. Some \<lparr>f_data = [], f_mtime = 0\<rparr>) =
      (Inr (), without removed (\<lambda>_. Some \<lparr>f_data = [], f_mtime = 0\<rparr>)) \<and>
    total_size kept \<le> unat (fc_limit sample_cache) \<and>
    (removed \<noteq> [] \<longrightarrow> unat (fc_limit sample_cache) < total_size kept + cf_size (hd removed)) \<and>
    (\<forall>k \<in> set kept. \<forall>r \<in> set removed. cf_accessed r \<le> cf_accessed k)"
  by (rule cleanup_keeps_newest) (simp_all add: sample_listing_def)

end
