(* ===== verification/Cache.thy ===== *)
theory Cache
  imports File_Cache_Correct
begin

text \<open>
  \<open>src/io/memcache.rs\<close> and \<open>src/cache.rs\<close>: the cache of file hashes in memory, and the object that
  holds it with the file cache. A hash is recomputed when the size or the time of the file differs
  from the cached ones.

  \<open>sha\<close> is the hexadecimal SHA-256 of a byte string (crates \<open>sha2\<close> and \<open>hex\<close>).
\<close>

section \<open>The cache in memory\<close>

text \<open>An entry is created empty, then locked while the worker turns its old value into the new one.\<close>

type_synonym ('k, 'v) mem_cache = "'k \<rightharpoonup> 'v option"

definition mem_cache_default :: "('k, 'v) mem_cache" where
  "mem_cache_default = (\<lambda>_. None)"

definition entry_lock :: "'k \<Rightarrow> ('k, 'v) mem_cache \<Rightarrow> ('k, 'v) mem_cache" where
  "entry_lock key m = (case m key of Some _ \<Rightarrow> m | None \<Rightarrow> m(key \<mapsto> None))"

definition mem_run_cached ::
    "'k \<Rightarrow> ('v option \<Rightarrow> 'v) \<Rightarrow> ('k, 'v) mem_cache \<Rightarrow> 'v \<times> ('k, 'v) mem_cache" where
  "mem_run_cached key worker m =
     (let m1 = entry_lock key m;
          value = worker (the (m1 key))
      in (value, m1(key \<mapsto> Some value)))"

text \<open>The value an entry holds, if any.\<close>

definition mem_cached :: "'k \<Rightarrow> ('k, 'v) mem_cache \<Rightarrow> 'v option" where
  "mem_cached key m = (case m key of Some (Some v) \<Rightarrow> Some v | _ \<Rightarrow> None)"

lemma mem_run_cached_spec:
  "mem_run_cached key worker m =
     (worker (mem_cached key m), m(key \<mapsto> Some (worker (mem_cached key m))))"
  by (auto simp: mem_run_cached_def entry_lock_def mem_cached_def Let_def split: option.splits)

section \<open>File hashes\<close>

record file_hash =
  fh_hash :: string
  fh_size :: nat
  fh_modified :: nat

text \<open>\<open>io::copy\<close> into the hasher: everything up to the first empty read.\<close>

fun read_all :: "reader \<Rightarrow> bytes result" where
  "read_all [] = Inr []"
| "read_all (Fail e # r) = Inl e"
| "read_all (Data d # r) = (if d = [] then Inr [] else rbind (read_all r) (\<lambda>ds. Inr (d @ ds)))"

lemma read_all_clean: "clean_reader r \<Longrightarrow> read_all r = Inr (reader_bytes r)"
  by (induction r rule: read_all.induct) auto

definition hash_stream :: "(bytes \<Rightarrow> string) \<Rightarrow> reader \<Rightarrow> string result" where
  "hash_stream sha r = rbind (read_all r) (\<lambda>d. Inr (sha d))"

definition generate_file_hash :: "(bytes \<Rightarrow> string) \<Rightarrow> filesystem \<Rightarrow> path \<Rightarrow> string result" where
  "generate_file_hash sha fs p =
     (case fs p of None \<Rightarrow> Inl not_found | Some f \<Rightarrow> hash_stream sha (file_reader (f_data f)))"

text \<open>The worker of \<open>file_hash\<close>; \<open>None\<close> is its \<open>Err(())\<close>.\<close>

definition file_hash_worker ::
    "(bytes \<Rightarrow> string) \<Rightarrow> filesystem \<Rightarrow> path \<Rightarrow> file_hash option option \<Rightarrow> file_hash option" where
  "file_hash_worker sha fs p cached =
     (case fs p of
        None \<Rightarrow> None
      | Some f \<Rightarrow>
          let calculate = (case generate_file_hash sha fs p of
                Inl _ \<Rightarrow> None
              | Inr h \<Rightarrow> Some \<lparr>fh_hash = h, fh_size = length (f_data f), fh_modified = f_mtime f\<rparr>)
          in case cached of
               Some (Some value) \<Rightarrow>
                 if fh_size value = length (f_data f) \<and> fh_modified value = f_mtime f then Some value
                 else calculate
             | _ \<Rightarrow> calculate)"

record cache =
  ch_files :: file_cache
  ch_hashes :: "(path, file_hash option) mem_cache"

definition cache_new :: "path \<Rightarrow> 32 word \<Rightarrow> cache" where
  "cache_new dir limit_mb = \<lparr>ch_files = file_cache_new dir limit_mb, ch_hashes = mem_cache_default\<rparr>"

definition cache_file_hash :: "(bytes \<Rightarrow> string) \<Rightarrow> filesystem \<Rightarrow> path \<Rightarrow> cache \<Rightarrow> file_hash result \<times> cache" where
  "cache_file_hash sha fs p c =
     (let (res, m) = mem_run_cached p (file_hash_worker sha fs p) (ch_hashes c)
      in ((case res of Some v \<Rightarrow> Inr v | None \<Rightarrow> Inl (IoError OtherKind ''I/O Error'')),
          c\<lparr>ch_hashes := m\<rparr>))"

definition run_file_cached ::
    "'e lz4 \<Rightarrow> (path \<Rightarrow> unit result) \<Rightarrow> bytes \<Rightarrow> nat \<Rightarrow> cache \<Rightarrow> statistic \<Rightarrow> string \<Rightarrow> path list \<Rightarrow>
     worker \<Rightarrow> bool \<Rightarrow> filesystem \<Rightarrow>
     output_info result \<times> statistic \<times> filesystem" where
  "run_file_cached z mkdirs left now c stat hash outputs worker checker fs =
     run_cached z mkdirs left now (ch_files c) stat hash outputs worker checker fs"

definition cache_cleanup :: "cache \<Rightarrow> dir_entry list result \<Rightarrow> filesystem \<Rightarrow> unit result \<times> filesystem" where
  "cache_cleanup c listing fs = cleanup (ch_files c) listing fs"

section \<open>Properties\<close>

text \<open>Two states of the disk in which the same file has the same size and time hold the same bytes:
  \<open>ver\<close> is the content of a path by size and time.\<close>

definition stamped :: "(path \<Rightarrow> nat \<Rightarrow> nat \<Rightarrow> bytes) \<Rightarrow> filesystem \<Rightarrow> bool" where
  "stamped ver fs \<longleftrightarrow> (\<forall>p f. fs p = Some f \<longrightarrow> f_data f = ver p (length (f_data f)) (f_mtime f))"

definition hashes_inv :: "(bytes \<Rightarrow> string) \<Rightarrow> (path \<Rightarrow> nat \<Rightarrow> nat \<Rightarrow> bytes) \<Rightarrow> cache \<Rightarrow> bool" where
  "hashes_inv sha ver c \<longleftrightarrow>
     (\<forall>p v. mem_cached p (ch_hashes c) = Some (Some v) \<longrightarrow> fh_hash v = sha (ver p (fh_size v) (fh_modified v)))"

lemma file_hash_worker_ok:
  assumes "stamped ver fs" "fs p = Some f"
    "\<And>v. cached = Some (Some v) \<Longrightarrow> fh_hash v = sha (ver p (fh_size v) (fh_modified v))"
  shows "file_hash_worker sha fs p cached =
    Some \<lparr>fh_hash = sha (f_data f), fh_size = length (f_data f), fh_modified = f_mtime f\<rparr>"
proof -
  have "generate_file_hash sha fs p = Inr (sha (f_data f))"
    using assms(2) by (simp add: generate_file_hash_def hash_stream_def read_all_clean)
  moreover have "f_data f = ver p (length (f_data f)) (f_mtime f)" using assms(1,2) by (auto simp: stamped_def)
  ultimately show ?thesis
    using assms(2,3) by (auto simp: file_hash_worker_def Let_def split: option.split)
qed

lemma file_hash_step:
  assumes "stamped ver fs" "hashes_inv sha ver c"
  shows "fst (cache_file_hash sha fs p c) =
      (case fs p of None \<Rightarrow> Inl (IoError OtherKind ''I/O Error'')
       | Some f \<Rightarrow> Inr \<lparr>fh_hash = sha (f_data f), fh_size = length (f_data f), fh_modified = f_mtime f\<rparr>)"
    and "hashes_inv sha ver (snd (cache_file_hash sha fs p c))"
proof -
  let ?w = "file_hash_worker sha fs p (mem_cached p (ch_hashes c))"
  have w: "?w = (case fs p of None \<Rightarrow> None
      | Some f \<Rightarrow> Some \<lparr>fh_hash = sha (f_data f), fh_size = length (f_data f), fh_modified = f_mtime f\<rparr>)"
    using file_hash_worker_ok [OF assms(1), of p _ "mem_cached p (ch_hashes c)" sha] assms(2)
    by (cases "fs p") (auto simp: hashes_inv_def file_hash_worker_def)
  then show "fst (cache_file_hash sha fs p c) =
      (case fs p of None \<Rightarrow> Inl (IoError OtherKind ''I/O Error'')
       | Some f \<Rightarrow> Inr \<lparr>fh_hash = sha (f_data f), fh_size = length (f_data f), fh_modified = f_mtime f\<rparr>)"
    by (simp add: cache_file_hash_def mem_run_cached_spec split: option.split)
  have "fh_hash v = sha (ver p (fh_size v) (fh_modified v))" if "?w = Some v" for v
    using that assms(1) by (auto simp: w stamped_def split: option.splits)
  then show "hashes_inv sha ver (snd (cache_file_hash sha fs p c))"
    using assms(2) by (auto simp: hashes_inv_def cache_file_hash_def mem_run_cached_spec mem_cached_def)
qed

text \<open>A sequence of queries, each in the state of the disk at its time.\<close>

fun query_hashes :: "(bytes \<Rightarrow> string) \<Rightarrow> (filesystem \<times> path) list \<Rightarrow> cache \<Rightarrow> file_hash result list" where
  "query_hashes sha [] c = []"
| "query_hashes sha ((fs, p) # qs) c =
     (let (res, c') = cache_file_hash sha fs p c in res # query_hashes sha qs c')"

text \<open>C25: From a new cache, in any sequence of queries while files change, every answer is
  the hash, size and time of the file as it is at that moment, and the error exactly when the file does
  not exist, provided that a change of a file's bytes shows in its size or time.\<close>

theorem file_hashes_current:
  assumes "\<forall>(fs, p) \<in> set qs. stamped ver fs"
  shows "query_hashes sha qs (cache_new dir limit_mb) =
    map (\<lambda>(fs, p). case fs p of None \<Rightarrow> Inl (IoError OtherKind ''I/O Error'')
       | Some f \<Rightarrow> Inr \<lparr>fh_hash = sha (f_data f), fh_size = length (f_data f), fh_modified = f_mtime f\<rparr>) qs"
proof -
  have "hashes_inv sha ver c \<Longrightarrow> \<forall>(fs, p) \<in> set qs. stamped ver fs \<Longrightarrow> query_hashes sha qs c =
    map (\<lambda>(fs, p). case fs p of None \<Rightarrow> Inl (IoError OtherKind ''I/O Error'')
       | Some f \<Rightarrow> Inr \<lparr>fh_hash = sha (f_data f), fh_size = length (f_data f), fh_modified = f_mtime f\<rparr>) qs" for c
  proof (induction qs arbitrary: c)
    case (Cons q qs)
    obtain fs p where q: "q = (fs, p)" by (cases q)
    have "stamped ver fs" using Cons.prems(2) q by auto
    note step = file_hash_step [OF this Cons.prems(1), of p]
    from Cons.IH [OF step(2)] Cons.prems(2) step(1) show ?case
      by (cases "cache_file_hash sha fs p c") (simp add: q)
  qed simp
  then show ?thesis
    using assms by (simp add: cache_new_def hashes_inv_def mem_cached_def mem_cache_default_def)
qed

lemma file_hashes_current_witness:
  "query_hashes (\<lambda>d. replicate (length d) CHR ''0'')
     [([''/p'' \<mapsto> \<lparr>f_data = [1], f_mtime = 1\<rparr>], ''/p''), ([''/p'' \<mapsto> \<lparr>f_data = [1, 2], f_mtime = 2\<rparr>], ''/p'')]
     (cache_new ''/c'' 1) =
   [Inr \<lparr>fh_hash = ''0'', fh_size = 1, fh_modified = 1\<rparr>, Inr \<lparr>fh_hash = ''00'', fh_size = 2, fh_modified = 2\<rparr>]"
  by (subst file_hashes_current [where ver = "\<lambda>p n t. if t = 1 then [1] else [1, 2]"])
    (auto simp: stamped_def)

end
