(* ===== verification/Memo.thy ===== *)
theory Memo
  imports Octo_Prelude
begin

text \<open>
  Values computed once and shared between threads: \<open>src/lazy.rs\<close>, and the contract it has in common
  with the toolchain table of \<open>src/compiler.rs\<close>. A lookup is two critical sections: one under the
  read lock, which returns a value that is there, and one under the write lock, which looks again and
  stores the new value only when there is still none. Between the two any other thread may run.
\<close>

section \<open>The contract\<close>

text \<open>One critical section: the read section, or the write section with the value of the factory.\<close>

datatype ('k, 'v) memo_op = Peek 'k | Fill 'k 'v

text \<open>What the sections of all threads answer, in the order the locks let them run.\<close>

fun answers ::
    "('k \<Rightarrow> 's \<Rightarrow> 'v option) \<Rightarrow> ('k \<Rightarrow> 'v \<Rightarrow> 's \<Rightarrow> 'v \<times> 's) \<Rightarrow> ('k, 'v) memo_op list \<Rightarrow> 's \<Rightarrow> ('k \<times> 'v) list" where
  "answers peek fill [] s = []"
| "answers peek fill (Peek k # ops) s =
     (case peek k s of None \<Rightarrow> answers peek fill ops s | Some v \<Rightarrow> (k, v) # answers peek fill ops s)"
| "answers peek fill (Fill k d # ops) s = (k, fst (fill k d s)) # answers peek fill ops (snd (fill k d s))"

locale memo =
  fixes peek :: "'k \<Rightarrow> 's \<Rightarrow> 'v option"
    and fill :: "'k \<Rightarrow> 'v \<Rightarrow> 's \<Rightarrow> 'v \<times> 's"
  assumes fill_hit: "peek k s = Some v \<Longrightarrow> fill k d s = (v, s)"
    and fill_miss: "peek k s = None \<Longrightarrow> fst (fill k d s) = d \<and> peek k (snd (fill k d s)) = Some d"
    and fill_other: "k' \<noteq> k \<Longrightarrow> peek k' (snd (fill k d s)) = peek k' s"
begin

lemma fill_peek: "peek k (snd (fill k d s)) = Some (fst (fill k d s))"
  using fill_hit [of k s] fill_miss [of k s d] by (cases "peek k s") auto

lemma fill_stable: "peek k s = Some v \<Longrightarrow> peek k (snd (fill k' d s)) = Some v"
  using fill_hit [of k' s] fill_other [of k k' d s] by (cases "k' = k") auto

lemma answers_stable:
  "(k, v) \<in> set (answers peek fill ops s) \<Longrightarrow> peek k s = Some w \<Longrightarrow> v = w"
proof (induction ops arbitrary: s)
  case (Cons op ops)
  show ?case
  proof (cases op)
    case (Peek k')
    then show ?thesis using Cons by (auto split: option.splits)
  next
    case (Fill k' d)
    then show ?thesis
      using Cons fill_stable [of k s w k' d] fill_hit [of k s w d] by auto
  qed
qed simp

lemma answers_agree:
  "(k, v) \<in> set (answers peek fill ops s) \<Longrightarrow> (k, w) \<in> set (answers peek fill ops s) \<Longrightarrow> v = w"
proof (induction ops arbitrary: s)
  case (Cons op ops)
  show ?case
  proof (cases op)
    case (Peek k')
    then show ?thesis using Cons answers_stable [of k _ ops s] by (auto split: option.splits)
  next
    case (Fill k' d)
    have "x = fst (fill k' d s)" if "(k, x) \<in> set (answers peek fill ops (snd (fill k' d s)))" "k = k'" for x
      using answers_stable [OF that(1)] fill_peek [of k' d s] that(2) by simp
    then show ?thesis using Cons Fill by auto
  qed
qed simp

end

section \<open>Lazy values\<close>

type_synonym 'v lazy_holder = "'v option"

definition lazy_default :: "'v lazy_holder" where
  "lazy_default = None"

definition lazy_read :: "unit \<Rightarrow> 'v lazy_holder \<Rightarrow> 'v option" where
  "lazy_read k h = h"

text \<open>\<open>factory ()\<close> is evaluated only when the holder is empty; its value is \<open>d\<close>.\<close>

definition lazy_write :: "unit \<Rightarrow> 'v \<Rightarrow> 'v lazy_holder \<Rightarrow> 'v \<times> 'v lazy_holder" where
  "lazy_write k d h = (let h' = (if h = None then Some d else h) in (the h', h'))"

definition lazy_get :: "'v \<Rightarrow> 'v lazy_holder \<Rightarrow> 'v \<times> 'v lazy_holder" where
  "lazy_get d h = (case lazy_read () h of Some v \<Rightarrow> (v, h) | None \<Rightarrow> lazy_write () d h)"

interpretation lazy: memo lazy_read lazy_write
  by unfold_locales (auto simp: lazy_read_def lazy_write_def Let_def)

text \<open>However the sections of the threads that use one lazy value interleave, all of them
  get the same value.\<close>

theorem lazy_threads_agree:
  assumes "(k, v) \<in> set (answers lazy_read lazy_write ops lazy_default)" "(k', w) \<in> set (answers lazy_read lazy_write ops lazy_default)"
  shows "v = w"
  using lazy.answers_agree [of k v ops lazy_default w] assms by simp

lemma lazy_threads_agree_witness: "fst (lazy_write () 1 lazy_default) = (1 :: nat)"
  by (rule lazy_threads_agree [of "()" _ "[Peek (), Fill () 1, Fill () 2, Peek ()]" "()"])
    (simp_all add: lazy_write_def lazy_read_def lazy_default_def)

end
