(* ===== verification/Toolchain.thy ===== *)
theory Toolchain
  imports Cache MemStream Memo
begin

text \<open>
  The second half of \<open>src/compiler.rs\<close>: the steps of a compilation as every toolchain shares them
  (preprocess, prepare, compile through the cache), the cache key, the group of compilers and the
  table of toolchains.

  The trait \<open>Toolchain\<close> is a record of the operations an implementation gives; its default methods are
  the definitions here. Steps work on the counters and the disk. The semaphore around slow commands is
  not modelled: it delays a command and does not change its result.
\<close>

section \<open>Compilation steps\<close>

record compile_step =
  cs_args :: "string list"
  cs_input_precompiled :: "path option"
  cs_output_object :: "path option"
  cs_output_precompiled :: "path option"
  cs_preprocessed :: mem_stream

definition compile_step_new ::
    "compilation_task \<Rightarrow> mem_stream \<Rightarrow> string list \<Rightarrow> bool \<Rightarrow> compile_step result" where
  "compile_step_new task preprocessed args use_precompiled =
     (if \<not> (use_precompiled \<or> ca_input_precompiled (ct_shared task) = None)
      then Inl (Panic ''assertion failed: use_precompiled || task.shared.input_precompiled.is_none()'')
      else Inr \<lparr>cs_args = args,
        cs_input_precompiled = (if use_precompiled then ca_input_precompiled (ct_shared task) else None),
        cs_output_object = Some (ct_output_object task),
        cs_output_precompiled = ca_output_precompiled (ct_shared task),
        cs_preprocessed = preprocessed\<rparr>)"

datatype preprocess_result = Success mem_stream | Failed output_info

record toolchain =
  tc_identifier :: "string option"
  tc_create_tasks :: "command_info \<Rightarrow> string list \<Rightarrow> string + compilation_task list"
  tc_preprocess :: "compilation_task \<Rightarrow> statistic \<Rightarrow> filesystem \<Rightarrow> preprocess_result result \<times> statistic \<times> filesystem"
  tc_prepare :: "compilation_task \<Rightarrow> mem_stream \<Rightarrow> compile_step result"
  tc_compile :: "compile_step \<Rightarrow> worker"
  tc_memory :: "compile_step \<Rightarrow> statistic \<Rightarrow> filesystem \<Rightarrow> (output_info \<times> bytes) result \<times> statistic \<times> filesystem"

section \<open>The cache key\<close>

text \<open>\<open>hash_u64\<close> feeds the bytes of a number to the digest, the lowest first. The digest is the list of
  the bytes it has been given.\<close>

fun u64_bytes :: "nat \<Rightarrow> 64 word \<Rightarrow> bytes" where
  "u64_bytes 0 n = []"
| "u64_bytes (Suc k) n = ucast (n AND 0xFF) # u64_bytes k (drop_bit 8 n)"

definition hash_u64 :: "64 word \<Rightarrow> bytes \<Rightarrow> bytes" where
  "hash_u64 n digest = digest @ u64_bytes 8 n"

definition hash_u8 :: "byte \<Rightarrow> bytes \<Rightarrow> bytes" where
  "hash_u8 n digest = digest @ [n]"

definition hash_bytes :: "bytes \<Rightarrow> bytes \<Rightarrow> bytes" where
  "hash_bytes b digest = hash_u64 (of_nat (length b)) digest @ b"

definition hash_args :: "string list \<Rightarrow> bytes \<Rightarrow> bytes" where
  "hash_args args digest = fold (\<lambda>arg. hash_bytes (ascii arg)) args (hash_u64 (of_nat (length args)) digest)"

text \<open>The digest of a step, and the cache of file hashes after it.\<close>

definition step_digest ::
    "(bytes \<Rightarrow> string) \<Rightarrow> filesystem \<Rightarrow> compile_step \<Rightarrow> cache \<Rightarrow> bytes result \<times> cache" where
  "step_digest sha fs step c =
     (let len = ms_len (cs_preprocessed step)
      in case ms_copy vec_write (cs_preprocessed step) (hash_u64 (of_nat len) []) of
           Inl e \<Rightarrow> (Inl e, c)
         | Inr (_, d1) \<Rightarrow>
             let d2 = hash_args (cs_args step) d1;
                 flag = (if cs_output_precompiled step \<noteq> None then 1 else 0)
             in case cs_input_precompiled step of
                  None \<Rightarrow> (Inr (hash_u8 flag (hash_u64 0 d2)), c)
                | Some p \<Rightarrow>
                    let (res, c') = cache_file_hash sha fs p c
                    in (rbind res (\<lambda>h. Inr (hash_u8 flag (hash_bytes (ascii (fh_hash h)) d2))), c'))"

definition step_outputs :: "compile_step \<Rightarrow> path list" where
  "step_outputs step =
     (case cs_output_object step of Some p \<Rightarrow> [p] | None \<Rightarrow> []) @
     (case cs_output_precompiled step of Some p \<Rightarrow> [p] | None \<Rightarrow> [])"

text \<open>What a compilation shares with the others: the caches, the counters and the disk.\<close>

record shared_state =
  ss_cache :: cache
  ss_stat :: statistic
  ss_fs :: filesystem

record 'e host_env =
  he_lz4 :: "'e lz4"
  he_sha :: "bytes \<Rightarrow> string"
  he_mkdirs :: "path \<Rightarrow> unit result"
  he_left :: bytes
  he_now :: nat

definition compile_step_cached ::
    "'e host_env \<Rightarrow> toolchain \<Rightarrow> compile_step \<Rightarrow> shared_state \<Rightarrow> output_info result \<times> shared_state" where
  "compile_step_cached h tc step st =
     (let (digest, c) = step_digest (he_sha h) (ss_fs st) step (ss_cache st)
      in case digest of
           Inl e \<Rightarrow> (Inl e, st\<lparr>ss_cache := c\<rparr>)
         | Inr d \<Rightarrow>
             let (res, stat, fs) = run_file_cached (he_lz4 h) (he_mkdirs h) (he_left h) (he_now h) c (ss_stat st)
                   (he_sha h d) (step_outputs step) (tc_compile tc step) True (ss_fs st)
             in (res, st\<lparr>ss_cache := c, ss_stat := stat, ss_fs := fs\<rparr>))"

text \<open>The default method \<open>compile_memory\<close>, over the operation \<open>compile_step\<close> of the toolchain.\<close>

definition compile_memory :: "(compile_step \<Rightarrow> worker) \<Rightarrow> compile_step \<Rightarrow> statistic \<Rightarrow> filesystem \<Rightarrow> (output_info \<times> bytes) result \<times> statistic \<times> filesystem" where
  "compile_memory compile step stat fs =
     (let (res, rest) = compile (step\<lparr>cs_output_object := None\<rparr>) stat fs
      in (rbind res (\<lambda>out. Inr (\<lparr>oi_status = oi_status out, oi_stdout = [], oi_stderr = oi_stderr out\<rparr>, oi_stdout out)),
          rest))"

definition compile_task ::
    "'e host_env \<Rightarrow> toolchain \<Rightarrow> compilation_task \<Rightarrow> shared_state \<Rightarrow> output_info result \<times> shared_state" where
  "compile_task h tc task st =
     (let (res, stat, fs) = tc_preprocess tc task (ss_stat st) (ss_fs st);
          st1 = st\<lparr>ss_stat := stat, ss_fs := fs\<rparr>
      in case res of
           Inl e \<Rightarrow> (Inl e, st1)
         | Inr (Failed out) \<Rightarrow> (Inr out, st1)
         | Inr (Success preprocessed) \<Rightarrow>
             (case tc_prepare tc task preprocessed of
                Inl e \<Rightarrow> (Inl e, st1)
              | Inr step \<Rightarrow> compile_step_cached h tc step st1))"

section \<open>Compilers\<close>

record compiler =
  cp_resolve :: "command_info \<Rightarrow> toolchain option"
  cp_discovery :: "toolchain list"

definition compiler_error_failure :: "compiler_error \<Rightarrow> failure" where
  "compiler_error_failure e = IoError InvalidInput (compiler_error_display e)"

definition create_tasks ::
    "compiler \<Rightarrow> command_info \<Rightarrow> string list \<Rightarrow> (toolchain \<times> compilation_task) list result" where
  "create_tasks cp command args =
     (case cp_resolve cp command of
        None \<Rightarrow> Inl (compiler_error_failure (ToolchainNotFound (cmd_program command)))
      | Some tc \<Rightarrow>
          (case tc_create_tasks tc command args of
             Inl e \<Rightarrow> Inl (compiler_error_failure (InvalidArguments e))
           | Inr tasks \<Rightarrow> Inr (map (\<lambda>task. (tc, task)) tasks)))"

type_synonym compiler_group = "compiler list"

definition group_new :: compiler_group where
  "group_new = []"

definition group_add :: "compiler_group \<Rightarrow> compiler \<Rightarrow> compiler_group" where
  "group_add g cp = g @ [cp]"

fun group_resolve :: "compiler_group \<Rightarrow> command_info \<Rightarrow> toolchain option" where
  "group_resolve [] command = None"
| "group_resolve (cp # g) command =
     (case cp_resolve cp command of Some tc \<Rightarrow> Some tc | None \<Rightarrow> group_resolve g command)"

definition group_discovery :: "compiler_group \<Rightarrow> toolchain list" where
  "group_discovery g = concat (map cp_discovery g)"

definition group_compiler :: "compiler_group \<Rightarrow> compiler" where
  "group_compiler g = \<lparr>cp_resolve = group_resolve g, cp_discovery = group_discovery g\<rparr>"

section \<open>The table of toolchains\<close>

text \<open>The two critical sections of \<open>resolve\<close>, and the whole of it when no other thread runs between.\<close>

type_synonym 'tc toolchain_holder = "path \<rightharpoonup> 'tc"

definition holder_new :: "'tc toolchain_holder" where
  "holder_new = (\<lambda>_. None)"

definition holder_read :: "path \<Rightarrow> 'tc toolchain_holder \<Rightarrow> 'tc option" where
  "holder_read p m = m p"

definition holder_write :: "path \<Rightarrow> 'tc \<Rightarrow> 'tc toolchain_holder \<Rightarrow> 'tc \<times> 'tc toolchain_holder" where
  "holder_write p d m = (case m p of Some t \<Rightarrow> (t, m) | None \<Rightarrow> (d, m(p \<mapsto> d)))"

definition holder_resolve :: "path \<Rightarrow> (path \<Rightarrow> 'tc) \<Rightarrow> 'tc toolchain_holder \<Rightarrow> 'tc option \<times> 'tc toolchain_holder" where
  "holder_resolve p factory m =
     (case holder_read p m of
        Some t \<Rightarrow> (Some t, m)
      | None \<Rightarrow> (let (t, m') = holder_write p (factory p) m in (Some t, m')))"

interpretation holder: memo holder_read holder_write
  by unfold_locales (auto simp: holder_read_def holder_write_def split: option.splits)

section \<open>The key determines the compilation\<close>

lemma of_char_byte_inj [simp]: "(of_char c :: byte) = of_char d \<longleftrightarrow> c = d"
proof
  have u: "unat (of_char e :: byte) = (of_char e :: nat)" for e
  proof -
    have "(of_char e :: byte) = of_nat (of_char e)" by (simp add: of_nat_of_char)
    then have "unat (of_char e :: byte) = (of_char e :: nat) mod 256"
      by (simp only: unsigned_of_nat take_bit_eq_mod) simp
    then show ?thesis by (simp add: of_char_mod_256)
  qed
  assume "(of_char c :: byte) = of_char d"
  from arg_cong [OF this, of unat] show "c = d" by (simp add: u)
qed simp

lemma ascii_inj: "ascii a = ascii b \<longleftrightarrow> a = b"
  by (simp add: ascii_def inj_map_eq_map inj_def)

lemma length_ascii [simp]: "length (ascii a) = length a"
  by (simp add: ascii_def)

lemma ascii_Nil: "ascii a = [] \<longleftrightarrow> a = []" "[] = ascii a \<longleftrightarrow> a = []"
  by (auto simp: ascii_def)

lemma u64_bytes_nth: "u64_bytes k n = map (\<lambda>i. ucast (drop_bit (8 * i) n)) [0..<k]"
proof (induction k arbitrary: n)
  case (Suc k)
  have "ucast (n AND 0xFF) = (ucast n :: byte)"
  proof (rule bit_word_eqI)
    have m: "(0xFF :: 64 word) = mask 8" by (simp add: mask_eq_exp_minus_1)
    fix i assume "i < LENGTH(8)"
    then have "i < 8" by simp
    then show "bit (ucast (n AND 0xFF) :: byte) i = bit (ucast n :: byte) i"
      unfolding m bit_ucast_iff bit_and_iff bit_mask_iff by auto
  qed
  moreover have "[0..<Suc k] = 0 # map Suc [0..<k]" by (simp add: upt_conv_Cons map_Suc_upt del: upt_Suc)
  ultimately show ?case using Suc [of "drop_bit 8 n"] by (simp add: comp_def drop_bit_drop_bit add.commute del: upt_Suc)
qed simp

lemma hash_u64_le: "hash_u64 n digest = digest @ le_bytes n"
  by (simp add: hash_u64_def u64_bytes_nth le_bytes_def)

lemma hash_bytes_blob: "hash_bytes b digest = digest @ enc_blob b"
  by (simp add: hash_bytes_def hash_u64_le enc_blob_def)

text \<open>The digest as one string of bytes.\<close>

definition enc_args :: "string list \<Rightarrow> bytes" where
  "enc_args args = le_bytes (of_nat (length args)) @ concat (map (\<lambda>a. enc_blob (ascii a)) args)"

definition enc_pch :: "string option \<Rightarrow> bytes" where
  "enc_pch pch = (case pch of None \<Rightarrow> le_bytes 0 | Some h \<Rightarrow> enc_blob (ascii h))"

definition enc_step :: "bytes \<Rightarrow> string list \<Rightarrow> string option \<Rightarrow> bool \<Rightarrow> bytes" where
  "enc_step pre args pch out_pch = enc_blob pre @ enc_args args @ enc_pch pch @ [if out_pch then 1 else 0]"

lemma hash_args_enc: "hash_args args digest = digest @ enc_args args"
proof -
  have "fold (\<lambda>arg. hash_bytes (ascii arg)) args d = d @ concat (map (\<lambda>a. enc_blob (ascii a)) args)" for d
    by (induction args arbitrary: d) (simp_all add: hash_bytes_blob)
  then show ?thesis by (simp add: hash_args_def enc_args_def hash_u64_le)
qed

text \<open>The hash of the precompiled header that goes into the digest.\<close>

definition pch_hash :: "(bytes \<Rightarrow> string) \<Rightarrow> filesystem \<Rightarrow> compile_step \<Rightarrow> cache \<Rightarrow> string option result" where
  "pch_hash sha fs step c =
     (case cs_input_precompiled step of
        None \<Rightarrow> Inr None
      | Some p \<Rightarrow> rbind (fst (cache_file_hash sha fs p c)) (\<lambda>h. Inr (Some (fh_hash h))))"

lemma step_digest_enc:
  assumes "ms_inv (cs_preprocessed step)"
  shows "fst (step_digest sha fs step c) =
    rbind (pch_hash sha fs step c) (\<lambda>pch.
      Inr (enc_step (ms_content (cs_preprocessed step)) (cs_args step) pch (cs_output_precompiled step \<noteq> None)))"
proof -
  let ?pre = "cs_preprocessed step"
  have "ms_copy vec_write ?pre (le_bytes (of_nat (ms_len ?pre))) = Inr (ms_len ?pre, enc_blob (ms_content ?pre))"
    using vec_sink.ms_copy_ok [OF assms, of "le_bytes (of_nat (ms_len ?pre))"] length_ms_content [OF assms]
    by (auto simp: enc_blob_def ms_len_def)
  then show ?thesis
    by (cases "cs_input_precompiled step")
      (auto simp: step_digest_def Let_def hash_u64_le hash_args_enc hash_u8_def hash_bytes_blob pch_hash_def
        enc_step_def enc_pch_def rbind_assoc rbind_def split: prod.split sum.split)
qed

text \<open>Lists of blobs are decoded from the left.\<close>

lemma append_eq_length: "a @ b = c @ d \<Longrightarrow> length a = length c \<Longrightarrow> a = c \<and> b = d"
  by simp

lemma le_bytes_fits_inj:
  assumes "m < 2 ^ 64" "n < 2 ^ 64" "le_bytes (of_nat m) = le_bytes (of_nat n)"
  shows "m = n"
proof -
  have "(of_nat m :: 64 word) = of_nat n" by (rule le_bytes_inj [OF assms(3)])
  then have "unat (of_nat m :: 64 word) = unat (of_nat n :: 64 word)" by (rule arg_cong)
  then show ?thesis by (simp only: unat_fits [OF assms(1)] unat_fits [OF assms(2)])
qed

lemma enc_blob_inj:
  assumes "enc_blob a @ x = enc_blob b @ y" "fits a" "fits b"
  shows "a = b \<and> x = y"
proof -
  have "le_bytes (of_nat (length a)) = le_bytes (of_nat (length b)) \<and> a @ x = b @ y"
    using assms(1) by (intro append_eq_length) (simp_all add: enc_blob_def)
  then show ?thesis using le_bytes_fits_inj assms(2,3) by (auto simp: fits_def)
qed

definition args_fit :: "string list \<Rightarrow> bool" where
  "args_fit args \<longleftrightarrow> length args < 2 ^ 64 \<and> (\<forall>a \<in> set args. length a < 2 ^ 64)"

lemma enc_args_inj:
  assumes "enc_args as @ x = enc_args bs @ y" "args_fit as" "args_fit bs"
  shows "as = bs \<and> x = y"
proof -
  have split: "le_bytes (of_nat (length as)) = le_bytes (of_nat (length bs)) \<and>
      concat (map (\<lambda>a. enc_blob (ascii a)) as) @ x = concat (map (\<lambda>a. enc_blob (ascii a)) bs) @ y"
    using assms(1) by (intro append_eq_length) (simp_all add: enc_args_def)
  have "length as = length bs"
    using split le_bytes_fits_inj assms(2,3) by (auto simp: args_fit_def)
  moreover have "\<forall>a \<in> set as. fits (ascii a)" "\<forall>b \<in> set bs. fits (ascii b)"
    using assms(2,3) by (auto simp: args_fit_def fits_def)
  ultimately show ?thesis
    using conjunct2 [OF split]
  proof (induction as bs rule: list_induct2)
    case (Cons a as b bs)
    have "enc_blob (ascii a) @ (concat (map (\<lambda>a. enc_blob (ascii a)) as) @ x) =
        enc_blob (ascii b) @ (concat (map (\<lambda>a. enc_blob (ascii a)) bs) @ y)"
      using Cons.prems(3) by simp
    from enc_blob_inj [OF this] Cons show ?case by (simp add: ascii_inj)
  qed simp
qed

definition pch_fits :: "string option \<Rightarrow> bool" where
  "pch_fits pch \<longleftrightarrow> (\<forall>h. pch = Some h \<longrightarrow> h \<noteq> [] \<and> length h < 2 ^ 64)"

lemma enc_pch_inj:
  assumes "enc_pch p @ x = enc_pch q @ y" "pch_fits p" "pch_fits q"
  shows "p = q \<and> x = y"
proof -
  define blob where "blob r = (case r of None \<Rightarrow> [] | Some h \<Rightarrow> ascii h)" for r
  have enc: "enc_pch r = enc_blob (blob r)" for r
    by (cases r) (simp_all add: enc_pch_def enc_blob_def blob_def)
  have "fits (blob p)" "fits (blob q)"
    using assms(2,3) by (auto simp: pch_fits_def fits_def blob_def split: option.split)
  then have "blob p = blob q \<and> x = y" using enc_blob_inj assms(1) enc by metis
  then show ?thesis
    using assms(2,3) by (cases p; cases q) (simp_all add: blob_def pch_fits_def ascii_inj ascii_Nil)
qed

lemma enc_step_inj:
  assumes "enc_step pre args pch flag = enc_step pre' args' pch' flag'"
    "fits pre" "fits pre'" "args_fit args" "args_fit args'" "pch_fits pch" "pch_fits pch'"
  shows "pre = pre' \<and> args = args' \<and> pch = pch' \<and> flag = flag'"
proof -
  have 1: "pre = pre' \<and> enc_args args @ enc_pch pch @ [if flag then 1 else 0] =
      enc_args args' @ enc_pch pch' @ [if flag' then 1 else 0]"
    by (rule enc_blob_inj [OF _ assms(2,3)]) (use assms(1) in \<open>simp add: enc_step_def\<close>)
  have 2: "args = args' \<and> enc_pch pch @ [if flag then 1 else 0] = enc_pch pch' @ [if flag' then 1 else 0]"
    by (rule enc_args_inj [OF conjunct2 [OF 1] assms(4,5)])
  have "pch = pch' \<and> [if flag then 1 else 0] = [if flag' then 1 else 0 :: byte]"
    by (rule enc_pch_inj [OF conjunct2 [OF 2] assms(6,7)])
  then show ?thesis using 1 2 by (auto split: if_splits)
qed

section \<open>Properties\<close>

lemma pch_hash_current:
  assumes "stamped ver fs" "hashes_inv sha ver c" "pch_hash sha fs step c = Inr pch"
  shows "pch = map_option (\<lambda>p. sha (file_content fs p)) (cs_input_precompiled step)"
proof (cases "cs_input_precompiled step")
  case None
  then show ?thesis using assms(3) by (simp add: pch_hash_def)
next
  case (Some p)
  then show ?thesis
    using file_hash_step(1) [OF assms(1,2), of p] assms(3)
    by (auto simp: pch_hash_def rbind_eq_Inr file_content_def split: option.splits)
qed

text \<open>What the key must distinguish, with all lengths in 64 bits.\<close>

definition step_fits :: "compile_step \<Rightarrow> bool" where
  "step_fits step \<longleftrightarrow> ms_inv (cs_preprocessed step) \<and> fits (ms_content (cs_preprocessed step)) \<and> args_fit (cs_args step)"

text \<open>C11: Two compilation steps with the same digest have the same preprocessed source, the
  same arguments, agree on producing a precompiled header, and use precompiled headers with the same
  hash (or none): no two different inputs run together in the bytes that are hashed, wherever one part
  ends and the next begins. (The hash function yields non-empty strings.)\<close>

theorem step_digest_determines:
  assumes "fst (step_digest sha fs step c) = Inr d" "fst (step_digest sha fs' step' c') = Inr d"
    "step_fits step" "step_fits step'" "stamped ver fs" "stamped ver fs'" "hashes_inv sha ver c" "hashes_inv sha ver c'"
    "\<forall>b. sha b \<noteq> [] \<and> length (sha b) < 2 ^ 64"
  shows "ms_content (cs_preprocessed step) = ms_content (cs_preprocessed step') \<and> cs_args step = cs_args step' \<and>
    (cs_output_precompiled step = None \<longleftrightarrow> cs_output_precompiled step' = None) \<and>
    map_option (\<lambda>p. sha (file_content fs p)) (cs_input_precompiled step) =
    map_option (\<lambda>p. sha (file_content fs' p)) (cs_input_precompiled step')"
proof -
  obtain pch where 1: "pch_hash sha fs step c = Inr pch"
    "d = enc_step (ms_content (cs_preprocessed step)) (cs_args step) pch (cs_output_precompiled step \<noteq> None)"
    using assms(1,3) by (auto simp: step_digest_enc step_fits_def rbind_eq_Inr)
  obtain pch' where 2: "pch_hash sha fs' step' c' = Inr pch'"
    "d = enc_step (ms_content (cs_preprocessed step')) (cs_args step') pch' (cs_output_precompiled step' \<noteq> None)"
    using assms(2,4) by (auto simp: step_digest_enc step_fits_def rbind_eq_Inr)
  note p = pch_hash_current [OF assms(5,7) 1(1)] pch_hash_current [OF assms(6,8) 2(1)]
  have "pch_fits pch" "pch_fits pch'" using p assms(9) by (auto simp: pch_fits_def)
  with enc_step_inj [OF trans [OF 1(2) [symmetric] 2(2)]] assms(3,4)
  have "ms_content (cs_preprocessed step) = ms_content (cs_preprocessed step') \<and> cs_args step = cs_args step' \<and>
      pch = pch' \<and> (cs_output_precompiled step \<noteq> None) = (cs_output_precompiled step' \<noteq> None)"
    by (simp add: step_fits_def)
  then show ?thesis using p by auto
qed

text \<open>C12: When one toolchain has compiled a step through the cache, a later step with the
  same digest and output files does not run its compiler, whichever toolchain it belongs to: it
  succeeds with the same texts and restores the same files.\<close>

theorem cached_step_replays:
  assumes "lz4_ok (he_lz4 h) plain usable" "compile_step_cached h tc step st = (Inr out, st1)"
    "fst (step_digest (he_sha h) (ss_fs st) step (ss_cache st)) = Inr d"
    "cache_path (ch_files (ss_cache st)) (he_sha h d) = Inr cpath" "ss_fs st cpath = None"
    "success out" "good_outputs (step_outputs step)" "cpath \<notin> set (step_outputs step)"
    "\<forall>p \<in> set (step_outputs step). ss_fs st1 p \<noteq> None \<and> fits (file_content (ss_fs st1) p)"
    "fits (oi_stdout out)" "fits (oi_stderr out)"
    "ch_files (ss_cache st2) = ch_files (ss_cache st)" "ss_fs st2 cpath = ss_fs st1 cpath"
    "he_lz4 h2 = he_lz4 h" "he_sha h2 = he_sha h" "step_outputs step2 = step_outputs step"
    "fst (step_digest (he_sha h2) (ss_fs st2) step2 (ss_cache st2)) = Inr d"
  shows "\<exists>st3. compile_step_cached h2 tc2 step2 st2 =
      (Inr \<lparr>oi_status = Some 0, oi_stdout = oi_stdout out, oi_stderr = oi_stderr out\<rparr>, st3) \<and>
    (\<forall>p \<in> set (step_outputs step). file_content (ss_fs st3) p = file_content (ss_fs st1) p)"
proof -
  obtain c where c: "step_digest (he_sha h) (ss_fs st) step (ss_cache st) = (Inr d, c)"
    using assms(3) by (metis prod.collapse)
  obtain c2 where c2: "step_digest (he_sha h2) (ss_fs st2) step2 (ss_cache st2) = (Inr d, c2)"
    using assms(17) by (metis prod.collapse)
  have keep: "step_digest sha fs stp x = (r, y) \<Longrightarrow> ch_files y = ch_files x" for sha fs stp x r y
    by (auto simp: step_digest_def cache_file_hash_def Let_def split: sum.splits option.splits prod.splits)
  obtain stat1 where run: "run_cached (he_lz4 h) (he_mkdirs h) (he_left h) (he_now h) (ch_files (ss_cache st))
      (ss_stat st) (he_sha h d) (step_outputs step) (tc_compile tc step) True (ss_fs st) = (Inr out, stat1, ss_fs st1)"
    using assms(2) c keep [OF c]
    by (auto simp: compile_step_cached_def run_file_cached_def Let_def split: prod.splits)
  have "length (step_outputs step) \<le> 2"
    by (auto simp: step_outputs_def split: option.split)
  then have len: "length (step_outputs step) < 2 ^ 64" by simp
  obtain stat3 fs3 where "run_cached (he_lz4 h) (he_mkdirs h2) (he_left h2) (he_now h2) (ch_files (ss_cache st))
      (ss_stat st2) (he_sha h d) (step_outputs step) (tc_compile tc2 step2) True (ss_fs st2) =
      (Inr \<lparr>oi_status = Some 0, oi_stdout = oi_stdout out, oi_stderr = oi_stderr out\<rparr>, stat3, fs3)"
    "\<forall>p \<in> set (step_outputs step). file_content fs3 p = file_content (ss_fs st1) p"
    using cached_run_replays [where fs = "ss_fs st" and ?fs1.0 = "ss_fs st1" and ?fs2.0 = "ss_fs st2",
        OF assms(1,4,5) run assms(6,7,8) len assms(9,10,11,13)] by blast
  then show ?thesis
    using c2 keep [OF c2] assms(12,14,15,16)
    by (simp add: compile_step_cached_def run_file_cached_def)
qed

text \<open>One source, an output, and two toolchains: the second one cannot compile.\<close>

definition sample_step :: compile_step where
  "sample_step = \<lparr>cs_args = [''-c''], cs_input_precompiled = None, cs_output_object = Some ''/o'',
     cs_output_precompiled = None, cs_preprocessed = ms_new\<rparr>"

definition sample_toolchain :: "worker \<Rightarrow> toolchain" where
  "sample_toolchain w = \<lparr>tc_identifier = None, tc_create_tasks = (\<lambda>_ _. Inr []),
     tc_preprocess = (\<lambda>_ st fs. (Inr (Success ms_new), st, fs)), tc_prepare = (\<lambda>_ _. Inr sample_step),
     tc_compile = (\<lambda>_. w), tc_memory = compile_memory (\<lambda>_. w)\<rparr>"

definition sample_host :: "bytes host_env" where
  "sample_host = \<lparr>he_lz4 = stored_lz4, he_sha = (\<lambda>_. ''abc''), he_mkdirs = (\<lambda>_. Inr ()), he_left = [], he_now = 7\<rparr>"

definition sample_state :: shared_state where
  "sample_state = \<lparr>ss_cache = cache_new ''/c'' 1, ss_stat = statistic_new, ss_fs = Map.empty\<rparr>"

lemma sample_digest: "step_digest sha fs sample_step c = (Inr (enc_step [] [''-c''] None False), c)"
proof -
  have "fst (step_digest sha fs sample_step c) = Inr (enc_step [] [''-c''] None False)"
    by (subst step_digest_enc) (simp_all add: sample_step_def pch_hash_def)
  moreover have "snd (step_digest sha fs sample_step c) = c"
    by (auto simp: step_digest_def sample_step_def Let_def split: sum.split prod.split)
  ultimately show ?thesis by (metis prod.collapse)
qed

lemma step_digest_determines_witness:
  "let other = sample_step\<lparr>cs_output_object := Some ''/p''\<rparr> in
   ms_content (cs_preprocessed sample_step) = ms_content (cs_preprocessed other) \<and> cs_args sample_step = cs_args other \<and>
   (cs_output_precompiled sample_step = None \<longleftrightarrow> cs_output_precompiled other = None) \<and>
   map_option (\<lambda>p. (\<lambda>_. ''0'') (file_content Map.empty p)) (cs_input_precompiled sample_step) =
   map_option (\<lambda>p. (\<lambda>_. ''0'') (file_content Map.empty p)) (cs_input_precompiled other)"
  unfolding Let_def
proof (rule step_digest_determines [where c = "cache_new ''/c'' 1" and c' = "cache_new ''/c'' 1" and ver = "\<lambda>_ _ _. []"])
  show "fst (step_digest (\<lambda>_. ''0'') Map.empty sample_step (cache_new ''/c'' 1)) = Inr (enc_step [] [''-c''] None False)"
    by (simp add: sample_digest)
  show "fst (step_digest (\<lambda>_. ''0'') Map.empty (sample_step\<lparr>cs_output_object := Some ''/p''\<rparr>) (cache_new ''/c'' 1)) =
      Inr (enc_step [] [''-c''] None False)"
    by (subst step_digest_enc) (simp_all add: sample_step_def pch_hash_def)
qed (simp_all add: step_fits_def sample_step_def fits_def args_fit_def stamped_def hashes_inv_def cache_new_def
    mem_cached_def mem_cache_default_def)

lemma cached_step_replays_witness:
  "\<exists>st1 st3. compile_step_cached sample_host (sample_toolchain sample_worker) sample_step sample_state = (Inr sample_output, st1) \<and>
     compile_step_cached sample_host (sample_toolchain failing_worker) sample_step st1 =
       (Inr \<lparr>oi_status = Some 0, oi_stdout = oi_stdout sample_output, oi_stderr = oi_stderr sample_output\<rparr>, st3) \<and>
     (\<forall>p \<in> set (step_outputs sample_step). file_content (ss_fs st3) p = file_content (ss_fs st1) p)"
proof -
  obtain w where w: "run_cached stored_lz4 (\<lambda>_. Inr ()) [] 7 sample_cache statistic_new ''abc'' [''/o''] sample_worker True Map.empty =
      (Inr sample_output, add_miss (of_nat (length (4 # w))) statistic_new, sample_fs (4 # w))"
    using sample_run by blast
  have files: "ch_files (cache_new ''/c'' 1) = sample_cache" by (simp add: cache_new_def sample_cache_def)
  have outs: "step_outputs sample_step = [''/o'']" by (simp add: step_outputs_def sample_step_def)
  let ?st1 = "sample_state\<lparr>ss_stat := add_miss (of_nat (length (4 # w))) statistic_new, ss_fs := sample_fs (4 # w)\<rparr>"
  have run: "compile_step_cached sample_host (sample_toolchain sample_worker) sample_step sample_state =
      (Inr sample_output, ?st1)"
    using w by (simp add: compile_step_cached_def sample_digest run_file_cached_def outs files
        sample_host_def sample_state_def sample_toolchain_def)
  have "\<exists>st3. compile_step_cached sample_host (sample_toolchain failing_worker) sample_step ?st1 =
      (Inr \<lparr>oi_status = Some 0, oi_stdout = oi_stdout sample_output, oi_stderr = oi_stderr sample_output\<rparr>, st3) \<and>
    (\<forall>p \<in> set (step_outputs sample_step). file_content (ss_fs st3) p = file_content (ss_fs ?st1) p)"
  proof (rule cached_step_replays [OF _ run])
    show "lz4_ok (he_lz4 sample_host) (\<lambda>w. w) (\<lambda>_. True)" by (simp add: sample_host_def stored_lz4_ok)
    show "cache_path (ch_files (ss_cache sample_state)) (he_sha sample_host (enc_step [] [''-c''] None False)) = Inr ''/c/ab/c.lz4''"
      by (simp add: sample_state_def sample_host_def files cache_path_sample)
  qed (simp_all add: sample_digest success_sample outs good_outputs_sample sample_state_def sample_fs_def
      fits_def file_content_def sample_output_def success_def)
  then show ?thesis using run by blast
qed

text \<open>However the lookups of the threads interleave, all threads that ask for the toolchain
  of a path get the same one, even when several of them have built one.\<close>

theorem holder_threads_agree:
  assumes "(p, t) \<in> set (answers holder_read holder_write ops holder_new)"
    "(p, t') \<in> set (answers holder_read holder_write ops holder_new)"
  shows "t = t'"
  using holder.answers_agree assms by metis

lemma holder_threads_agree_witness: "fst (holder_write ''/cc'' 1 holder_new) = (1 :: nat)"
  by (rule holder_threads_agree [of "''/cc''" _ "[Peek ''/cc'', Fill ''/cc'' 1, Fill ''/cc'' 2, Peek ''/cc'']"])
    (simp_all add: holder_write_def holder_read_def holder_new_def)

end
