(* ===== verification/Process.thy ===== *)
theory Process
  imports Toolchain
begin

text \<open>
  Child processes as the compilers of \<open>src/clang/compiler.rs\<close> and \<open>src/vs/compiler.rs\<close> use them. A
  \<open>runner\<close> is the operating system: it runs a command on what is written to its standard input, and
  gives the two streams the child writes and its exit code (none after a signal), or fails; it may
  change the file system. The semaphore \<open>wrap_slow\<close> takes around a run only delays it.
\<close>

record child =
  ch_status :: "int option"
  ch_stdout :: reader
  ch_stderr :: reader

type_synonym runner = "process_command \<Rightarrow> bytes \<Rightarrow> filesystem \<Rightarrow> child result \<times> filesystem"

text \<open>\<open>Command::output\<close> and \<open>Child::wait_with_output\<close>: both streams to their end, then the code.\<close>

definition child_output :: "child \<Rightarrow> output_info result" where
  "child_output ch =
     rbind (read_all (ch_stdout ch)) (\<lambda>out.
     rbind (read_all (ch_stderr ch)) (\<lambda>err.
       Inr (output_info_new (ch_status ch) out err)))"

definition run_output :: "runner \<Rightarrow> process_command \<Rightarrow> bytes \<Rightarrow> filesystem \<Rightarrow> output_info result \<times> filesystem" where
  "run_output run cmd input fs = (let (res, fs') = run cmd input fs in (rbind res child_output, fs'))"

text \<open>A child that ends in order, with what it writes.\<close>

definition clean_child :: "child \<Rightarrow> bool" where
  "clean_child ch \<longleftrightarrow> clean_reader (ch_stdout ch) \<and> clean_reader (ch_stderr ch)"

lemma child_output_clean:
  "clean_child ch \<Longrightarrow>
     child_output ch = Inr (output_info_new (ch_status ch) (reader_bytes (ch_stdout ch)) (reader_bytes (ch_stderr ch)))"
  by (simp add: clean_child_def child_output_def read_all_clean)

text \<open>The argument filters of the steps: which scopes a step passes on.\<close>

definition for_preprocessor :: "scope \<Rightarrow> bool" where
  "for_preprocessor sc \<longleftrightarrow> sc = Preprocessor \<or> sc = Shared"

definition for_compiler :: "scope \<Rightarrow> bool" where
  "for_compiler sc \<longleftrightarrow> sc = Compiler \<or> sc = Shared"

fun scoped_arg :: "(scope \<Rightarrow> bool) \<Rightarrow> arg \<Rightarrow> bool" where
  "scoped_arg P (Flag sc flag) \<longleftrightarrow> P sc"
| "scoped_arg P (Param sc flag v) \<longleftrightarrow> P sc"
| "scoped_arg P _ \<longleftrightarrow> False"

end
