(* ===== verification/Cmd_Parse.thy ===== *)
theory Cmd_Parse
  imports Octo_Prelude
begin

text \<open>
  Splitting a command line into arguments: \<open>src/cmd/unix.rs\<close> and \<open>src/cmd/windows.rs\<close>. Each parser
  is a state with one step per character; the state holds the arguments found so far, the current
  argument and the flags of the source. Both have an inverse: a way to quote any list of arguments
  so that the parser gives it back.

  Every character the parsers treat on its own is ASCII, so that reading the bytes of the UTF-8 text
  one by one, as here, is reading its characters.
\<close>

abbreviation squote :: char where "squote \<equiv> CHR 0x27"
abbreviation dquote :: char where "dquote \<equiv> CHR 0x22"
abbreviation backslash :: char where "backslash \<equiv> CHR 0x5C"
abbreviation tab :: char where "tab \<equiv> CHR 0x09"

section \<open>Unix\<close>

datatype quote = NoQuote | Double | Single

record unix_parser =
  up_args :: "string list"
  up_arg :: string
  up_slash :: bool
  up_quote :: quote
  up_data :: bool

definition unix_init :: unix_parser where
  "unix_init = \<lparr>up_args = [], up_arg = [], up_slash = False, up_quote = NoQuote, up_data = False\<rparr>"

definition unix_push :: "string \<Rightarrow> unix_parser \<Rightarrow> unix_parser" where
  "unix_push s p = p\<lparr>up_arg := up_arg p @ s\<rparr>"

definition unix_step :: "unix_parser \<Rightarrow> char \<Rightarrow> unix_parser" where
  "unix_step p c =
     (if c = squote \<and> up_quote p = Single then p\<lparr>up_quote := NoQuote\<rparr>
      else if up_quote p = Single then unix_push [c] p
      else if c \<in> {CHR '' '', tab, dquote, squote, backslash} \<and> up_slash p
        then (unix_push [c] p)\<lparr>up_slash := False\<rparr>
      else if up_slash p then (unix_push [backslash, c] p)\<lparr>up_slash := False\<rparr>
      else if c = dquote \<and> up_quote p = Double then p\<lparr>up_quote := NoQuote\<rparr>
      else if c \<in> {CHR '' '', tab} \<and> up_quote p = NoQuote
        then (if up_data p then p\<lparr>up_args := up_args p @ [up_arg p], up_arg := [], up_data := False\<rparr> else p)
      else if c = backslash then p\<lparr>up_slash := True, up_data := True\<rparr>
      else if c = dquote then p\<lparr>up_quote := Double, up_data := True\<rparr>
      else if c = squote then p\<lparr>up_quote := Single, up_data := True\<rparr>
      else (unix_push [c] p)\<lparr>up_data := True\<rparr>)"

definition unix_end :: "unix_parser \<Rightarrow> string list result" where
  "unix_end p =
     (let args = (if up_data p then up_args p @ [up_arg p] else up_args p)
      in if up_slash p then Inl (IoError InvalidInput ''Unexpected line end: escape sequence is not finished'')
         else case up_quote p of
                Single \<Rightarrow> Inl (IoError InvalidInput ''Unexpected line end: single quote is not closed'')
              | Double \<Rightarrow> Inl (IoError InvalidInput ''Unexpected line end: double quote is not closed'')
              | NoQuote \<Rightarrow> Inr args)"

definition parse_unix :: "string \<Rightarrow> string list result" where
  "parse_unix cmd = unix_end (foldl unix_step unix_init cmd)"

section \<open>Windows\<close>

record win_parser =
  wp_args :: "string list"
  wp_arg :: string
  wp_slash :: nat
  wp_quote :: bool
  wp_data :: bool

definition win_init :: win_parser where
  "win_init = \<lparr>wp_args = [], wp_arg = [], wp_slash = 0, wp_quote = False, wp_data = False\<rparr>"

definition add_slashes :: "string \<Rightarrow> nat \<Rightarrow> string" where
  "add_slashes line count = line @ replicate count backslash"

text \<open>How many backslashes a run stands for that no quote follows.\<close>

definition plain_slashes :: "win_parser \<Rightarrow> nat" where
  "plain_slashes p = (if wp_quote p \<and> wp_slash p mod 2 = 0 then wp_slash p div 2 else wp_slash p)"

definition flush_slashes :: "win_parser \<Rightarrow> win_parser" where
  "flush_slashes p = p\<lparr>wp_arg := add_slashes (wp_arg p) (plain_slashes p), wp_slash := 0\<rparr>"

definition is_blank :: "char \<Rightarrow> bool" where
  "is_blank c \<longleftrightarrow> c \<in> {CHR '' '', tab, CHR 0x0A, CHR 0x0D}"

definition win_step :: "win_parser \<Rightarrow> char \<Rightarrow> win_parser" where
  "win_step p c =
     (if is_blank c then
        let p1 = flush_slashes p
        in if wp_quote p then p1\<lparr>wp_arg := wp_arg p1 @ [c], wp_data := True\<rparr>
           else if wp_data p then p1\<lparr>wp_args := wp_args p1 @ [wp_arg p1], wp_arg := [], wp_data := False\<rparr>
           else p1
      else if c = backslash then p\<lparr>wp_slash := wp_slash p + 1, wp_data := True\<rparr>
      else if c = dquote then
        let arg = add_slashes (wp_arg p) (wp_slash p div 2)
        in if wp_slash p mod 2 = 0 then p\<lparr>wp_arg := arg, wp_quote := \<not> wp_quote p, wp_slash := 0, wp_data := True\<rparr>
           else p\<lparr>wp_arg := arg @ [c], wp_slash := 0, wp_data := True\<rparr>
      else let p1 = flush_slashes p in p1\<lparr>wp_arg := wp_arg p1 @ [c], wp_data := True\<rparr>)"

definition parse_windows :: "string \<Rightarrow> string list result" where
  "parse_windows cmd =
     (let p = flush_slashes (foldl win_step win_init cmd)
      in Inr (if wp_data p then wp_args p @ [wp_arg p] else wp_args p))"

section \<open>Quoting\<close>

text \<open>The inverse of the parsers: every argument in double quotes, with a backslash before the
  characters that \<open>special\<close> names; the arguments separated by blanks.\<close>

definition quote_arg :: "(char \<Rightarrow> bool) \<Rightarrow> string \<Rightarrow> string" where
  "quote_arg special s = dquote # concat (map (\<lambda>c. if special c then [backslash, c] else [c]) s) @ [dquote]"

fun unwords :: "string list \<Rightarrow> string" where
  "unwords [] = []"
| "unwords [w] = w"
| "unwords (w # ws) = w @ CHR '' '' # unwords ws"

definition quote_unix :: "string list \<Rightarrow> string" where
  "quote_unix args = unwords (map (quote_arg (\<lambda>c. c \<in> {dquote, squote, backslash})) args)"

definition quote_windows :: "string list \<Rightarrow> string" where
  "quote_windows args = unwords (map (quote_arg (\<lambda>c. c \<in> {dquote, backslash})) args)"

text \<open>Between two arguments.\<close>

definition unix_ready :: "string list \<Rightarrow> unix_parser" where
  "unix_ready xs = unix_init\<lparr>up_args := xs\<rparr>"

definition unix_inside :: "string list \<Rightarrow> string \<Rightarrow> quote \<Rightarrow> unix_parser" where
  "unix_inside xs a q = unix_init\<lparr>up_args := xs, up_arg := a, up_quote := q, up_data := True\<rparr>"

lemmas unix_states = unix_ready_def unix_inside_def unix_init_def unix_step_def unix_push_def

lemma unix_quoted_text:
  "foldl unix_step (unix_inside xs a Double)
     (concat (map (\<lambda>c. if c \<in> {dquote, squote, backslash} then [backslash, c] else [c]) s)) =
   unix_inside xs (a @ s) Double"
  by (induction s arbitrary: a) (auto simp: unix_states)

lemma unix_quoted_arg:
  "foldl unix_step (unix_ready xs) (quote_arg (\<lambda>c. c \<in> {dquote, squote, backslash}) a) = unix_inside xs a NoQuote"
proof -
  have "unix_step (unix_ready xs) dquote = unix_inside xs [] Double" by (simp add: unix_states)
  moreover have "unix_step (unix_inside xs a Double) dquote = unix_inside xs a NoQuote" by (simp add: unix_states)
  ultimately show ?thesis using unix_quoted_text [of xs "[]" a] by (simp add: quote_arg_def)
qed

lemma unix_blank: "unix_step (unix_inside xs a NoQuote) CHR '' '' = unix_ready (xs @ [a])"
  by (simp add: unix_states)

lemma unix_end_states: "unix_end (unix_ready xs) = Inr xs" "unix_end (unix_inside xs a NoQuote) = Inr (xs @ [a])"
  by (simp_all add: unix_end_def unix_states)

lemma unix_quoted_args:
  "unix_end (foldl unix_step (unix_ready xs)
     (unwords (map (quote_arg (\<lambda>c. c \<in> {dquote, squote, backslash})) args))) = Inr (xs @ args)"
proof (induction args arbitrary: xs)
  case (Cons a args)
  then show ?case
    by (cases args) (simp_all only: list.map unwords.simps foldl_append foldl_Cons unix_quoted_arg unix_blank
        unix_end_states append_assoc append_Cons append_Nil)
qed (simp add: unix_end_states)

lemma parse_unix_inverse: "parse_unix (quote_unix args) = Inr args"
  using unix_quoted_args [of "[]" args] by (simp add: parse_unix_def quote_unix_def unix_ready_def unix_init_def)

text \<open>C36: On Unix every list of arguments survives being written as a command line, each
  argument in double quotes with backslashes before quotes and backslashes, and being parsed again;
  the parser never fails on such a line.\<close>

theorem parse_unix_quoted: "parse_unix (quote_unix args) = Inr args"
  by (rule parse_unix_inverse)

text \<open>The same on Windows. Inside quotes a pending run of \<open>2 k\<close> backslashes stands for \<open>k\<close>.\<close>

definition win_ready :: "string list \<Rightarrow> win_parser" where
  "win_ready xs = win_init\<lparr>wp_args := xs\<rparr>"

definition win_inside :: "string list \<Rightarrow> string \<Rightarrow> nat \<Rightarrow> bool \<Rightarrow> win_parser" where
  "win_inside xs a k q = win_init\<lparr>wp_args := xs, wp_arg := a, wp_slash := k, wp_quote := q, wp_data := True\<rparr>"

lemmas win_states = win_ready_def win_inside_def win_init_def win_step_def flush_slashes_def plain_slashes_def
  add_slashes_def is_blank_def

lemma win_quoted_char:
  "foldl win_step (win_inside xs a (2 * k) True) (if c \<in> {dquote, backslash} then [backslash, c] else [c]) =
     (if c = backslash then win_inside xs a (2 * Suc k) True
      else win_inside xs (a @ replicate k backslash @ [c]) (2 * 0) True)"
  by (auto simp: win_states Let_def)

lemma win_quoted_text:
  "\<exists>b j. foldl win_step (win_inside xs a (2 * k) True)
     (concat (map (\<lambda>c. if c \<in> {dquote, backslash} then [backslash, c] else [c]) s)) = win_inside xs b (2 * j) True \<and>
   b @ replicate j backslash = a @ replicate k backslash @ s"
proof (induction s arbitrary: a k)
  case (Cons c s)
  show ?case
  proof (cases "c = backslash")
    case True
    have "replicate (Suc k) backslash @ s = replicate k backslash @ c # s"
      using True by (simp add: replicate_app_Cons_same)
    then show ?thesis
      using Cons.IH [of a "Suc k"] win_quoted_char [of xs a k c] True by (simp del: replicate.simps mult_Suc_right)
  next
    case False
    then show ?thesis
      using Cons.IH [of "a @ replicate k backslash @ [c]" 0] win_quoted_char [of xs a k c] by (simp del: insert_iff)
  qed
qed (auto)

lemma win_quoted_arg:
  "foldl win_step (win_ready xs) (quote_arg (\<lambda>c. c \<in> {dquote, backslash}) a) = win_inside xs a 0 False"
proof -
  have "win_step (win_ready xs) dquote = win_inside xs [] (2 * 0) True" by (simp add: win_states)
  moreover obtain b j where "foldl win_step (win_inside xs [] (2 * 0) True)
      (concat (map (\<lambda>c. if c \<in> {dquote, backslash} then [backslash, c] else [c]) a)) = win_inside xs b (2 * j) True"
    and b: "b @ replicate j backslash = a"
    using win_quoted_text [of xs "[]" 0 a] by auto
  moreover have "win_step (win_inside xs b (2 * j) True) dquote = win_inside xs a 0 False"
    using b by (simp add: win_states)
  ultimately show ?thesis by (simp add: quote_arg_def del: insert_iff)
qed

lemma win_blank: "win_step (win_inside xs a 0 False) CHR '' '' = win_ready (xs @ [a])"
  by (simp add: win_states)

definition win_end :: "win_parser \<Rightarrow> string list" where
  "win_end p = (let p1 = flush_slashes p in if wp_data p1 then wp_args p1 @ [wp_arg p1] else wp_args p1)"

lemma win_end_states: "win_end (win_ready xs) = xs" "win_end (win_inside xs a 0 False) = xs @ [a]"
  by (simp_all add: win_end_def win_states)

lemma win_quoted_args:
  "win_end (foldl win_step (win_ready xs) (unwords (map (quote_arg (\<lambda>c. c \<in> {dquote, backslash})) args))) = xs @ args"
proof (induction args arbitrary: xs)
  case (Cons a args)
  then show ?case
    by (cases args) (simp_all only: list.map unwords.simps foldl_append foldl_Cons win_quoted_arg win_blank
        win_end_states append_assoc append_Cons append_Nil)
qed (simp add: win_end_states)

lemma parse_windows_inverse: "parse_windows (quote_windows args) = Inr args"
  using win_quoted_args [of "[]" args]
  by (simp add: parse_windows_def quote_windows_def win_end_def win_ready_def win_init_def Let_def)


section \<open>Lines without quotes\<close>

text \<open>The pieces of a line between blanks.\<close>

fun split_blank :: "string \<Rightarrow> string list" where
  "split_blank [] = [[]]"
| "split_blank (c # cs) =
     (if is_blank c then [] # split_blank cs
      else (c # hd (split_blank cs)) # tl (split_blank cs))"

lemma split_blank_not_Nil [simp]: "split_blank s \<noteq> []"
  by (cases s) auto

text \<open>The parser before quotes: an argument of which the text \<open>a\<close> is stored and \<open>k\<close> backslashes are
  pending.\<close>

definition win_outside :: "string list \<Rightarrow> string \<Rightarrow> nat \<Rightarrow> win_parser" where
  "win_outside xs a k = win_init\<lparr>wp_args := xs, wp_arg := a, wp_slash := k, wp_data := (a \<noteq> [] \<or> k \<noteq> 0)\<rparr>"

lemma win_outside_step:
  assumes "c \<noteq> dquote"
  shows "win_step (win_outside xs a k) c =
    (if is_blank c then win_outside (xs @ (if a = [] \<and> k = 0 then [] else [a @ replicate k backslash])) [] 0
     else if c = backslash then win_outside xs a (Suc k)
     else win_outside xs (a @ replicate k backslash @ [c]) 0)"
  using assms by (auto simp: win_outside_def win_states Let_def)

lemma win_outside_end:
  "win_end (win_outside xs a k) = xs @ (if a = [] \<and> k = 0 then [] else [a @ replicate k backslash])"
  by (auto simp: win_end_def win_outside_def win_states Let_def)

lemma win_plain_words:
  "dquote \<notin> set s \<Longrightarrow> win_end (foldl win_step (win_outside xs a k) s) =
     xs @ filter (\<lambda>w. w \<noteq> []) ((a @ replicate k backslash @ hd (split_blank s)) # tl (split_blank s))"
proof (induction s arbitrary: xs a k)
  case (Cons c s)
  then show ?case
    by (cases "split_blank s") (auto simp: win_outside_step replicate_app_Cons_same is_blank_def)
qed (simp add: win_outside_end)

text \<open>On Windows the arguments of a line without quotation marks are its maximal runs
  of non-blank characters, with every backslash as it stands: paths need no quoting.\<close>

theorem parse_windows_unquoted:
  assumes "dquote \<notin> set cmd"
  shows "parse_windows cmd = Inr (filter (\<lambda>w. w \<noteq> []) (split_blank cmd))"
proof -
  have "parse_windows cmd = Inr (win_end (foldl win_step (win_outside [] [] 0) cmd))"
    by (simp add: parse_windows_def win_end_def win_outside_def win_init_def Let_def flush_slashes_def)
  then show ?thesis
    using win_plain_words [OF assms, of "[]" "[]" 0] by (cases "split_blank cmd") simp_all
qed

lemma parse_windows_unquoted_witness:
  "parse_windows (''C:'' @ [backslash, backslash] @ ''bin  /c'') = Inr [''C:'' @ [backslash, backslash] @ ''bin'', ''/c'']"
  using parse_windows_unquoted [of "''C:'' @ [backslash, backslash] @ ''bin  /c''"] by (simp add: is_blank_def)

section \<open>Where the parsers differ from the shells\<close>

text \<open>A single quote inside double quotes starts a quotation of its own on Unix.\<close>

lemma single_in_double_quotes:
  "parse_unix (dquote # ''it'' @ [squote] @ ''s'' @ [dquote]) =
     Inl (IoError InvalidInput ''Unexpected line end: single quote is not closed'')"
  by (simp add: parse_unix_def unix_end_def unix_states)

text \<open>Two backslashes inside quotes, with no quote behind them, become one on Windows; three remain.\<close>

lemma even_backslashes_halved:
  "parse_windows ([dquote, backslash, backslash] @ ''a'' @ [dquote]) = Inr [[backslash] @ ''a'']"
  "parse_windows ([dquote, backslash, backslash, backslash] @ ''a'' @ [dquote]) =
     Inr [[backslash, backslash, backslash] @ ''a'']"
  by (simp_all add: parse_windows_def win_states Let_def eval_nat_numeral mod_Suc)

end
