(* ===== verification/Text_Encoding.thy ===== *)
theory Text_Encoding
  imports Octo_Prelude
begin

text \<open>
  The encodings of \<open>decode_string\<close> in \<open>src/vs/prepare.rs\<close>: what the standard library does with UTF-8
  and UTF-16. A string of the program is the list of its UTF-8 bytes; byte values, UTF-16 units and
  Unicode scalar values are natural numbers here.
\<close>

section \<open>Unicode scalar values\<close>

definition scalar :: "nat \<Rightarrow> bool" where
  "scalar n \<longleftrightarrow> n < 0xD800 \<or> 0xE000 \<le> n \<and> n < 0x110000"

section \<open>UTF-8\<close>

definition utf8_char :: "nat \<Rightarrow> nat list" where
  "utf8_char n =
     (if n < 0x80 then [n]
      else if n < 0x800 then [0xC0 + n div 64, 0x80 + n mod 64]
      else if n < 0x10000 then [0xE0 + n div 4096, 0x80 + n div 64 mod 64, 0x80 + n mod 64]
      else [0xF0 + n div 262144, 0x80 + n div 4096 mod 64, 0x80 + n div 64 mod 64, 0x80 + n mod 64])"

definition utf8_encode :: "nat list \<Rightarrow> nat list" where
  "utf8_encode cs = concat (map utf8_char cs)"

definition continuation :: "nat \<Rightarrow> bool" where
  "continuation b \<longleftrightarrow> 0x80 \<le> b \<and> b \<le> 0xBF"

text \<open>The check of \<open>String::from_utf8\<close>: shortest forms only, no surrogates, nothing above \<open>U+10FFFF\<close>.\<close>

fun utf8_valid :: "nat list \<Rightarrow> bool" where
  "utf8_valid [] = True"
| "utf8_valid (b # bs) =
     (if b < 0x80 then utf8_valid bs
      else if 0xC2 \<le> b \<and> b \<le> 0xDF then
        (case bs of c1 # r \<Rightarrow> continuation c1 \<and> utf8_valid r | _ \<Rightarrow> False)
      else if 0xE0 \<le> b \<and> b \<le> 0xEF then
        (case bs of
           c1 # c2 # r \<Rightarrow>
             (if b = 0xE0 then 0xA0 else 0x80) \<le> c1 \<and> c1 \<le> (if b = 0xED then 0x9F else 0xBF) \<and>
             continuation c2 \<and> utf8_valid r
         | _ \<Rightarrow> False)
      else if 0xF0 \<le> b \<and> b \<le> 0xF4 then
        (case bs of
           c1 # c2 # c3 # r \<Rightarrow>
             (if b = 0xF0 then 0x90 else 0x80) \<le> c1 \<and> c1 \<le> (if b = 0xF4 then 0x8F else 0xBF) \<and>
             continuation c2 \<and> continuation c3 \<and> utf8_valid r
         | _ \<Rightarrow> False)
      else False)"

section \<open>UTF-16\<close>

definition utf16_char :: "nat \<Rightarrow> nat list" where
  "utf16_char n =
     (if n < 0x10000 then [n]
      else [0xD800 + (n - 0x10000) div 1024, 0xDC00 + (n - 0x10000) mod 1024])"

definition utf16_encode :: "nat list \<Rightarrow> nat list" where
  "utf16_encode cs = concat (map utf16_char cs)"

text \<open>The decoding of \<open>String::from_utf16\<close>, up to the encoding of the result; \<open>None\<close> is an unpaired
  surrogate.\<close>

fun utf16_decode :: "nat list \<Rightarrow> nat list option" where
  "utf16_decode [] = Some []"
| "utf16_decode (u # us) =
     (if u < 0xD800 \<or> 0xE000 \<le> u then map_option ((#) u) (utf16_decode us)
      else if 0xDC00 \<le> u then None
      else case us of
             v # vs \<Rightarrow>
               if 0xDC00 \<le> v \<and> v < 0xE000
               then map_option ((#) (0x10000 + (u - 0xD800) * 1024 + (v - 0xDC00))) (utf16_decode vs)
               else None
           | [] \<Rightarrow> None)"

section \<open>Lemmas\<close>

lemma mod64_le [simp]: "n mod 64 \<le> (63 :: nat)"
  using mod_less_divisor [of 64 n] by simp

lemma utf8_valid_char:
  assumes "scalar n"
  shows "utf8_valid (utf8_char n @ r) = utf8_valid r"
proof -
  consider "n < 0x80" | "0x80 \<le> n" "n < 0x800" | "0x800 \<le> n" "n < 0x10000" | "0x10000 \<le> n" "n < 0x110000"
    using assms unfolding scalar_def by linarith
  then show ?thesis
  proof cases
    case 1
    then show ?thesis by (simp add: utf8_char_def)
  next
    case 2
    then have "2 \<le> n div 64" "n div 64 < 32" by simp_all
    moreover have "n mod 64 \<le> 63" using mod_less_divisor [of 64 n] by simp
    ultimately show ?thesis using 2 by (simp add: utf8_char_def continuation_def)
  next
    case 3
    define a b where "a = n div 4096" and "b = n div 64 mod 64"
    have n: "n div 64 = 64 * a + b" "n div 64 < 1024" "b < 64" "n mod 64 < 64" "a < 16"
      using 3 div_mult2_eq [of n 64 64] mult_div_mod_eq [of 64 "n div 64"] by (simp_all add: a_def b_def)
    have "a = 0 \<Longrightarrow> 32 \<le> b" using 3 n by simp
    moreover have "b \<le> 31" if "a = 13"
    proof -
      have "n < 57344" using that mult_div_mod_eq [of 4096 n] mod_less_divisor [of 4096 n] by (simp add: a_def)
      then have "n < 55296" using assms by (simp add: scalar_def)
      then have "n div 64 < 864" by simp
      then show ?thesis using n(1) that by simp
    qed
    ultimately show ?thesis
      using 3 n by (simp add: utf8_char_def continuation_def a_def [symmetric] b_def [symmetric])
  next
    case 4
    define a b where "a = n div 262144" and "b = n div 4096 mod 64"
    have n: "n div 4096 = 64 * a + b" "b < 64" "n mod 64 < 64" "n div 64 mod 64 < 64" "a \<le> 4" "16 \<le> n div 4096" "n div 4096 < 272"
      using 4 div_mult2_eq [of n 4096 64] mult_div_mod_eq [of 64 "n div 4096"] by (simp_all add: a_def b_def)
    have "a = 0 \<Longrightarrow> 16 \<le> b" "a = 4 \<Longrightarrow> b \<le> 15" using n by simp_all
    then show ?thesis
      using 4 n by (simp add: utf8_char_def continuation_def a_def [symmetric] b_def [symmetric])
  qed
qed

lemma utf8_valid_encode: "\<forall>c \<in> set cs. scalar c \<Longrightarrow> utf8_valid (utf8_encode cs)"
proof (induction cs)
  case (Cons c cs)
  then have "utf8_valid (utf8_encode cs)" by simp
  moreover have "utf8_encode (c # cs) = utf8_char c @ utf8_encode cs" by (simp add: utf8_encode_def)
  ultimately show ?case using Cons.prems utf8_valid_char [of c] by simp
qed (simp add: utf8_encode_def)

lemma utf8_char_byte: "scalar n \<Longrightarrow> b \<in> set (utf8_char n) \<Longrightarrow> b < 256"
  by (auto simp: utf8_char_def scalar_def split: if_splits)

lemma utf16_char_unit: "scalar n \<Longrightarrow> u \<in> set (utf16_char n) \<Longrightarrow> u < 65536"
  by (auto simp: utf16_char_def scalar_def split: if_splits)

lemma utf16_decode_char:
  assumes "scalar n"
  shows "utf16_decode (utf16_char n @ us) = map_option ((#) n) (utf16_decode us)"
proof (cases "n < 0x10000")
  case True
  then show ?thesis using assms by (auto simp: utf16_char_def scalar_def)
next
  case False
  define m where "m = n - 0x10000"
  have n: "n = 0x10000 + m" "m < 0x100000" using False assms by (auto simp: m_def scalar_def)
  then have "m div 1024 < 1024" "m mod 1024 < 1024" by simp_all
  moreover have "utf16_char n = [0xD800 + m div 1024, 0xDC00 + m mod 1024]"
    using False by (simp add: utf16_char_def m_def)
  ultimately show ?thesis using n(1) by (simp add: add.commute)
qed

lemma utf16_roundtrip: "\<forall>c \<in> set cs. scalar c \<Longrightarrow> utf16_decode (utf16_encode cs) = Some cs"
proof (induction cs)
  case (Cons c cs)
  then show ?case using utf16_decode_char [of c "utf16_encode cs"] by (simp add: utf16_encode_def)
qed (simp add: utf16_encode_def)

end
