(* ===== verification/Prepare.thy ===== *)
theory Prepare
  imports Command Cmd_Parse Text_Encoding
begin

text \<open>
  What the two argument parsers share: \<open>src/vs/prepare.rs\<close> and \<open>src/clang/prepare.rs\<close> turn a command
  line into \<open>arg\<close>s and these into compilation tasks. The source reports failures as messages; here they
  are a datatype, and \<open>prepare_message\<close> gives the text (with Rust's debug output of a list as a
  parameter).
\<close>

section \<open>Strings and results\<close>

definition starts_with :: "string \<Rightarrow> string \<Rightarrow> bool" where
  "starts_with s p \<longleftrightarrow> take (length p) s = p"

lemma starts_with_append [simp]: "starts_with (p @ s) p"
  by (simp add: starts_with_def)

lemma starts_with_Nil [simp]: "starts_with s []"
  by (simp add: starts_with_def)

lemma starts_with_Cons [simp]:
  "starts_with (c # s) (d # p) \<longleftrightarrow> c = d \<and> starts_with s p"
  "\<not> starts_with [] (d # p)"
  by (simp_all add: starts_with_def)

lemma starts_withE: "starts_with s p \<Longrightarrow> s = p @ drop (length p) s"
  by (metis append_take_drop_id starts_with_def)

lemma starts_with_iff: "starts_with s p \<longleftrightarrow> (\<exists>t. s = p @ t)"
  by (metis starts_withE starts_with_append)

definition eq_ignore_ascii_case :: "string \<Rightarrow> string \<Rightarrow> bool" where
  "eq_ignore_ascii_case a b \<longleftrightarrow> map lower_char a = map lower_char b"

text \<open>Mapping with an operation that can fail, up to the first failure.\<close>

fun try_map :: "('a \<Rightarrow> 'e + 'b) \<Rightarrow> 'a list \<Rightarrow> 'e + 'b list" where
  "try_map f [] = Inr []"
| "try_map f (x # xs) = rbind (f x) (\<lambda>y. rbind (try_map f xs) (\<lambda>ys. Inr (y # ys)))"

lemma try_map_eq_Inr: "try_map f xs = Inr ys \<longleftrightarrow> list_all2 (\<lambda>x y. f x = Inr y) xs ys"
  by (induction xs arbitrary: ys) (auto simp: rbind_eq_Inr list_all2_Cons1)

lemma try_map_cong [fundef_cong]: "xs = ys \<Longrightarrow> (\<And>x. x \<in> set ys \<Longrightarrow> f x = g x) \<Longrightarrow> try_map f xs = try_map g ys"
  by (induction ys arbitrary: xs) auto

section \<open>Failures\<close>

datatype prepare_error =
    LoadFailed failure
  | UnknownArguments "string list"
  | NoSourceFile
  | TooManyPrecompiled "path list"
  | TooManyMarkers "string list"
  | TooManyOutputs "string list"
  | OutputForManySources
  | UnknownLanguageType string
  | UnknownLanguage path
  | NoFileName path

fun failure_message :: "failure \<Rightarrow> string" where
  "failure_message (IoError k m) = m"
| "failure_message (Panic m) = m"

fun prepare_message :: "(string list \<Rightarrow> string) \<Rightarrow> prepare_error \<Rightarrow> string" where
  "prepare_message debug (LoadFailed e) = ''IO error: '' @ failure_message e"
| "prepare_message debug (UnknownArguments es) = ''Found unknown command line arguments: '' @ debug es"
| "prepare_message debug NoSourceFile = ''Can't find source file path.''"
| "prepare_message debug (TooManyPrecompiled v) = ''Found too many precompiled header files: '' @ debug v"
| "prepare_message debug (TooManyMarkers v) = ''Found too many precompiled header markers: '' @ concat v"
| "prepare_message debug (TooManyOutputs v) = ''Found too many output object files: '' @ debug v"
| "prepare_message debug OutputForManySources = ''Cannot specify -o when generating multiple output files''"
| "prepare_message debug (UnknownLanguageType v) = ''Unknown source language type: '' @ v"
| "prepare_message debug (UnknownLanguage p) = ''Can't detect file language by extension: '' @ p"
| "prepare_message debug (NoFileName p) = ''Input file path does not contains file name: '' @ p"

section \<open>Parameters that occur at most once\<close>

datatype 'a param_value = NoParam | SingleParam 'a | ManyParams "'a list"

definition find_param :: "'a list \<Rightarrow> ('a \<Rightarrow> 'b option) \<Rightarrow> 'b param_value" where
  "find_param args f =
     (case List.map_filter f args of [] \<Rightarrow> NoParam | [v] \<Rightarrow> SingleParam v | vs \<Rightarrow> ManyParams vs)"

text \<open>The match on the three cases, with the failure of the third.\<close>

definition at_most_one :: "('b list \<Rightarrow> prepare_error) \<Rightarrow> 'b param_value \<Rightarrow> prepare_error + 'b option" where
  "at_most_one err v =
     (case v of NoParam \<Rightarrow> Inr None | SingleParam x \<Rightarrow> Inr (Some x) | ManyParams xs \<Rightarrow> Inl (err xs))"

lemma at_most_one_Inr:
  "at_most_one err (find_param args f) = Inr r \<longleftrightarrow>
     List.map_filter f args = (case r of None \<Rightarrow> [] | Some x \<Rightarrow> [x])"
  by (auto simp: at_most_one_def find_param_def split: list.split option.split)

lemma Nil_eq_option_list [simp]:
  "[] = (case r of None \<Rightarrow> [] | Some x \<Rightarrow> [x]) \<longleftrightarrow> r = None"
  "(case r of None \<Rightarrow> [] | Some x \<Rightarrow> [x]) = [] \<longleftrightarrow> r = None"
  by (auto split: option.split)

text \<open>The filters the tasks use.\<close>

fun arg_source :: "arg \<Rightarrow> path option" where
  "arg_source (Input Source flag p) = Some p"
| "arg_source _ = None"

fun arg_precompiled :: "arg \<Rightarrow> path option" where
  "arg_precompiled (Input Precompiled flag p) = Some p"
| "arg_precompiled _ = None"

fun arg_object :: "arg \<Rightarrow> path option" where
  "arg_object (Output Object flag p) = Some p"
| "arg_object _ = None"

fun arg_param :: "string \<Rightarrow> arg \<Rightarrow> string option" where
  "arg_param name (Param sc flag v) = (if flag = name then Some v else None)"
| "arg_param name _ = None"

section \<open>Lists of arguments\<close>

text \<open>\<open>cmd::native\<close>.\<close>

definition parse_native :: "host \<Rightarrow> string \<Rightarrow> string list result" where
  "parse_native h = (case h of Unix \<Rightarrow> parse_unix | Windows \<Rightarrow> parse_windows)"

definition quote_native :: "host \<Rightarrow> string list \<Rightarrow> string" where
  "quote_native h = (case h of Unix \<Rightarrow> quote_unix | Windows \<Rightarrow> quote_windows)"

text \<open>The arguments or, when one was not recognised, all that were not.\<close>

definition collect_arguments :: "(string + arg) list \<Rightarrow> prepare_error + arg list" where
  "collect_arguments rs =
     (let errors = List.map_filter (\<lambda>r. case r of Inl e \<Rightarrow> Some e | Inr _ \<Rightarrow> None) rs
      in if errors \<noteq> [] then Inl (UnknownArguments errors)
         else Inr (List.map_filter (\<lambda>r. case r of Inl _ \<Rightarrow> None | Inr a \<Rightarrow> Some a) rs))"

lemma map_filter_Cons: "List.map_filter f (x # xs) = (case f x of None \<Rightarrow> [] | Some y \<Rightarrow> [y]) @ List.map_filter f xs"
  by (simp add: map_filter_simps split: option.split)

lemma collect_arguments_Inr: "collect_arguments rs = Inr as \<longleftrightarrow> rs = map Inr as"
proof (induction rs arbitrary: as)
  case Nil
  then show ?case by (auto simp: collect_arguments_def map_filter_simps)
next
  case (Cons r rs)
  show ?case
  proof (cases r)
    case (Inl e)
    then show ?thesis by (auto simp: collect_arguments_def map_filter_Cons)
  next
    case (Inr a)
    then have "collect_arguments (r # rs) = rbind (collect_arguments rs) (\<lambda>as. Inr (a # as))"
      by (simp add: collect_arguments_def map_filter_Cons Let_def)
    then show ?thesis using Inr Cons.IH by (auto simp: rbind_eq_Inr)
  qed
qed

end
