(* ===== verification/Vs_Prepare.thy ===== *)
theory Vs_Prepare
  imports Prepare
begin

text \<open>
  \<open>src/vs/prepare.rs\<close>: the arguments of the Visual Studio compiler. Argument files are read and
  decoded, every argument is classified, and the tasks are made from the result, one for each source.
\<close>

section \<open>Classification\<close>

definition vs_has_param_prefix :: "string \<Rightarrow> bool" where
  "vs_has_param_prefix a \<longleftrightarrow> starts_with a ''/'' \<or> starts_with a ''-''"

definition vs_is_spaceable_param :: "string \<Rightarrow> (string \<times> scope) option" where
  "vs_is_spaceable_param flag =
     (if starts_with flag ''D'' then Some (''D'', Shared)
      else if starts_with flag ''I'' then Some (''I'', Preprocessor)
      else map_option (\<lambda>p. (p, Compiler)) (List.find (starts_with flag) [''W'', ''wd'', ''we'', ''wo'', ''w'']))"

text \<open>The arguments that take no separate value; the whole argument \<open>a\<close> is the error.\<close>

definition vs_flag :: "string \<Rightarrow> string \<Rightarrow> string + arg" where
  "vs_flag a flag =
     (if flag = ''c'' \<or> flag = ''nologo'' then Inr (Flag Ignore flag)
      else if flag = ''bigobj'' then Inr (Flag Compiler flag)
      else if starts_with flag ''T'' then Inr (Param Ignore ''T'' (drop 1 flag))
      else if starts_with flag ''O'' then Inr (Flag Shared flag)
      else if starts_with flag ''G'' then Inr (Flag Shared flag)
      else if starts_with flag ''RTC'' then Inr (Flag Shared flag)
      else if starts_with flag ''Z'' then Inr (Flag Shared flag)
      else if starts_with flag ''d2Zi+'' then Inr (Flag Shared flag)
      else if starts_with flag ''MP'' then Inr (Flag Compiler flag)
      else if starts_with flag ''MD'' then Inr (Flag Shared flag)
      else if starts_with flag ''MT'' then Inr (Flag Shared flag)
      else if starts_with flag ''EH'' then Inr (Flag Shared flag)
      else if starts_with flag ''fp:'' then Inr (Flag Shared flag)
      else if starts_with flag ''arch:'' then Inr (Flag Shared flag)
      else if starts_with flag ''errorReport:'' then Inr (Flag Shared flag)
      else if starts_with flag ''source-charset:'' then Inr (Flag Shared flag)
      else if starts_with flag ''execution-charset:'' then Inr (Flag Shared flag)
      else if starts_with flag ''Fo'' then Inr (Output Object ''Fo'' (drop 2 flag))
      else if starts_with flag ''Fp'' then Inr (Input Precompiled ''Fp'' (drop 2 flag))
      else if starts_with flag ''Yc'' then Inr (Output OutMarker ''Yc'' (drop 2 flag))
      else if starts_with flag ''Yu'' then Inr (Input InMarker ''Yu'' (drop 2 flag))
      else if starts_with flag ''Yl'' then Inr (Flag Shared flag)
      else if starts_with flag ''FI'' then Inr (Param Preprocessor ''FI'' (drop 2 flag))
      else if starts_with flag ''analyze'' then Inr (Flag Shared flag)
      else Inl a)"

text \<open>One call of \<open>parse_argument\<close> on the iterator: the result and what is left, \<open>None\<close> at the end.\<close>

fun vs_parse_argument :: "string list \<Rightarrow> ((string + arg) \<times> string list) option" where
  "vs_parse_argument [] = None"
| "vs_parse_argument (a # rest) =
     Some (if vs_has_param_prefix a then
             let flag = drop 1 a
             in case vs_is_spaceable_param flag of
                  Some (p, sc) \<Rightarrow>
                    if flag = p then
                      (case rest of
                         v # rest' \<Rightarrow> (if \<not> vs_has_param_prefix v then Inr (Param sc p v) else Inl a, rest')
                       | [] \<Rightarrow> (Inl a, []))
                    else (Inr (Param sc p (drop (length p) flag)), rest)
                | None \<Rightarrow> (vs_flag a flag, rest)
           else (Inr (Input Source [] a), rest))"

lemma vs_parse_argument_shorter: "vs_parse_argument as = Some (r, rest) \<Longrightarrow> length rest < length as"
  by (cases as) (auto simp: Let_def split: if_splits option.splits list.splits)

function vs_parse_results :: "string list \<Rightarrow> (string + arg) list" where
  "vs_parse_results as = (case vs_parse_argument as of None \<Rightarrow> [] | Some (r, rest) \<Rightarrow> r # vs_parse_results rest)"
  by pat_completeness auto
termination by (relation "measure length") (auto dest: vs_parse_argument_shorter)

declare vs_parse_results.simps [simp del]

definition vs_parse_arguments :: "string list \<Rightarrow> prepare_error + arg list" where
  "vs_parse_arguments args = collect_arguments (vs_parse_results args)"

section \<open>Argument files\<close>

definition text_of :: "bytes \<Rightarrow> string" where
  "text_of data = map (\<lambda>b. char_of (unat b)) data"

fun utf16_units :: "(16 word \<Rightarrow> 16 word \<Rightarrow> 16 word) \<Rightarrow> bytes \<Rightarrow> 16 word list" where
  "utf16_units endian (a # b # data) = endian (ucast a) (ucast b) # utf16_units endian data"
| "utf16_units endian _ = []"

definition decode_utf16 :: "bytes \<Rightarrow> (16 word \<Rightarrow> 16 word \<Rightarrow> 16 word) \<Rightarrow> string result" where
  "decode_utf16 data endian =
     (if length data mod 2 \<noteq> 0 then Inl (IoError InvalidInput ''Invalid UTF-16 line: odd bytes length'')
      else case utf16_decode (map unat (utf16_units endian data)) of
             None \<Rightarrow> Inl (IoError InvalidInput ''invalid utf-16: lone surrogate found'')
           | Some cs \<Rightarrow> Inr (map char_of (utf8_encode cs)))"

text \<open>\<open>ansi\<close> is \<open>Encoding::ANSI.to_string\<close> of the crate \<open>local_encoding\<close>.\<close>

definition decode_string :: "(bytes \<Rightarrow> string result) \<Rightarrow> bytes \<Rightarrow> string result" where
  "decode_string ansi data =
     (if take 3 data = [0xEF, 0xBB, 0xBF] then
        (if utf8_valid (map unat (drop 3 data)) then Inr (text_of (drop 3 data))
         else Inl (IoError InvalidInput ''invalid utf-8 sequence''))
      else if take 2 data = [0xFE, 0xFF] then decode_utf16 (drop 2 data) (\<lambda>a b. push_bit 8 a + b)
      else if take 2 data = [0xFF, 0xFE] then decode_utf16 (drop 2 data) (\<lambda>a b. push_bit 8 b + a)
      else ansi data)"

definition read_argument_file ::
    "host \<Rightarrow> (bytes \<Rightarrow> string result) \<Rightarrow> filesystem \<Rightarrow> path \<Rightarrow> string list result" where
  "read_argument_file h ansi fs p =
     (case fs p of
        None \<Rightarrow> Inl not_found
      | Some f \<Rightarrow> rbind (decode_string ansi (f_data f)) (parse_native h))"

fun load_arguments ::
    "host \<Rightarrow> (bytes \<Rightarrow> string result) \<Rightarrow> filesystem \<Rightarrow> path option \<Rightarrow> string list \<Rightarrow> string list result" where
  "load_arguments h ansi fs base [] = Inr []"
| "load_arguments h ansi fs base (item # items) =
     (if starts_with item ''@'' then
        let p = (case base of Some b \<Rightarrow> path_join b (drop 1 item) | None \<Rightarrow> drop 1 item)
        in rbind (read_argument_file h ansi fs p) (\<lambda>args.
           rbind (load_arguments h ansi fs base items) (\<lambda>rest. Inr (args @ rest)))
      else rbind (load_arguments h ansi fs base items) (\<lambda>rest. Inr (item # rest)))"

section \<open>Tasks\<close>

definition vs_get_output_object :: "(path \<Rightarrow> bool) \<Rightarrow> path \<Rightarrow> path option \<Rightarrow> prepare_error + path" where
  "vs_get_output_object is_dir input_source output_object =
     (case output_object of
        None \<Rightarrow> Inr (with_extension input_source ''obj'')
      | Some p \<Rightarrow>
          if is_dir p then
            (case file_name input_source of
               Some name \<Rightarrow> Inr (with_extension (path_join p name) ''obj'')
             | None \<Rightarrow> Inl (NoFileName input_source))
          else Inr p)"

text \<open>The marker of the precompiled header, with whether it is used or made.\<close>

fun vs_marker :: "arg \<Rightarrow> (bool \<times> string) option" where
  "vs_marker (Input InMarker flag p) = Some (True, p)"
| "vs_marker (Output OutMarker flag p) = Some (False, p)"
| "vs_marker _ = None"

definition vs_language :: "string option \<Rightarrow> path \<Rightarrow> prepare_error + string" where
  "vs_language language input_source =
     (case (case language of
              Some lang \<Rightarrow> Some lang
            | None \<Rightarrow>
                Option.bind (path_extension input_source) (\<lambda>e.
                  if eq_ignore_ascii_case e ''cpp'' then Some ''P''
                  else if eq_ignore_ascii_case e ''c'' then Some ''C''
                  else None)) of
        None \<Rightarrow> Inl (UnknownLanguage input_source)
      | Some lang \<Rightarrow> Inr lang)"

text \<open>The marker, the precompiled header that is used and the one that is made.\<close>

definition vs_precompiled ::
    "path option \<Rightarrow> (bool \<times> string) option \<Rightarrow> string option \<times> path option \<times> path option" where
  "vs_precompiled precompiled_file marker =
     (case marker of
        None \<Rightarrow> (None, None, None)
      | Some (used, p) \<Rightarrow>
          let precompiled_path = (case precompiled_file of Some v \<Rightarrow> v | None \<Rightarrow> with_extension p ''.pch'');
              m = (if p = [] then None else Some p)
          in if used then (m, Some precompiled_path, None) else (m, None, Some precompiled_path))"

definition vs_make_task ::
    "(path \<Rightarrow> bool) \<Rightarrow> compilation_args \<Rightarrow> string option \<Rightarrow> path option \<Rightarrow> path \<Rightarrow> prepare_error + compilation_task" where
  "vs_make_task is_dir shared language output_object source =
     (let input_source = current_dir_join (ca_command shared) source
      in rbind (vs_language language input_source) (\<lambda>lang.
         rbind (vs_get_output_object is_dir input_source output_object) (\<lambda>object.
         Inr \<lparr>ct_shared = shared, ct_language = lang, ct_input_source = input_source, ct_output_object = object\<rparr>)))"

definition vs_tasks_of :: "(path \<Rightarrow> bool) \<Rightarrow> command_info \<Rightarrow> arg list \<Rightarrow> prepare_error + compilation_task list" where
  "vs_tasks_of is_dir command parsed =
     (let sources = List.map_filter arg_source parsed
      in if sources = [] then Inl NoSourceFile
         else
           rbind (at_most_one TooManyPrecompiled (find_param parsed arg_precompiled)) (\<lambda>precompiled_file.
           rbind (at_most_one (\<lambda>v. TooManyMarkers (map snd v)) (find_param parsed vs_marker)) (\<lambda>marker.
           rbind (at_most_one TooManyOutputs (find_param parsed arg_object)) (\<lambda>object.
           rbind (at_most_one TooManyOutputs (find_param parsed (arg_param ''T''))) (\<lambda>language.
             let (m, input_pch, output_pch) = vs_precompiled precompiled_file marker;
                 shared = \<lparr>ca_command = command, ca_args = parsed,
                   ca_input_precompiled = map_option (current_dir_join command) input_pch,
                   ca_output_precompiled = map_option (current_dir_join command) output_pch,
                   ca_marker_precompiled = m\<rparr>
             in try_map (vs_make_task is_dir shared language (map_option (current_dir_join command) object)) sources)))))"

definition vs_create_tasks ::
    "host \<Rightarrow> (bytes \<Rightarrow> string result) \<Rightarrow> filesystem \<Rightarrow> (path \<Rightarrow> bool) \<Rightarrow> command_info \<Rightarrow> string list \<Rightarrow>
     prepare_error + compilation_task list" where
  "vs_create_tasks h ansi fs is_dir command args =
     rbind (case load_arguments h ansi fs (cmd_dir command) args of
              Inl e \<Rightarrow> Inl (LoadFailed e) | Inr a \<Rightarrow> Inr a) (\<lambda>a.
     rbind (vs_parse_arguments a) (\<lambda>parsed. vs_tasks_of is_dir command parsed))"

end
