(* ===== verification/Vs_Prepare_Correct.thy ===== *)
theory Vs_Prepare_Correct
  imports Vs_Prepare
begin

text \<open>
  Properties of the Visual Studio argument parser: argument files stand for their content in every
  encoding, arguments written out are read back, and the tasks have the shape the later steps rely on.
\<close>

section \<open>Encodings of argument files\<close>

text \<open>A text of Unicode scalar values as the program's strings hold it, and the three files that
  \<open>decode_string\<close> tells apart by their byte order marks.\<close>

definition text_string :: "nat list \<Rightarrow> string" where
  "text_string cs = map char_of (utf8_encode cs)"

definition utf8_file :: "nat list \<Rightarrow> bytes" where
  "utf8_file cs = [0xEF, 0xBB, 0xBF] @ map of_nat (utf8_encode cs)"

definition utf16_le_file :: "nat list \<Rightarrow> bytes" where
  "utf16_le_file cs = [0xFF, 0xFE] @ concat (map (\<lambda>u. [of_nat (u mod 256), of_nat (u div 256)]) (utf16_encode cs))"

definition utf16_be_file :: "nat list \<Rightarrow> bytes" where
  "utf16_be_file cs = [0xFE, 0xFF] @ concat (map (\<lambda>u. [of_nat (u div 256), of_nat (u mod 256)]) (utf16_encode cs))"

lemma utf16_unit_join:
  assumes "u < 65536"
  shows "push_bit 8 (ucast (of_nat (u div 256) :: 8 word)) + ucast (of_nat (u mod 256) :: 8 word) = (of_nat u :: 16 word)"
proof -
  have "u div 256 < 256" using assms by simp
  then have "ucast (of_nat (u div 256) :: 8 word) = (of_nat (u div 256) :: 16 word)"
    "ucast (of_nat (u mod 256) :: 8 word) = (of_nat (u mod 256) :: 16 word)"
    by (simp_all add: unsigned_of_nat take_bit_eq_mod)
  then have "push_bit 8 (ucast (of_nat (u div 256) :: 8 word)) + ucast (of_nat (u mod 256) :: 8 word) =
      of_nat (u div 256) * 256 + (of_nat (u mod 256) :: 16 word)"
    by (simp add: push_bit_eq_mult)
  also have "\<dots> = of_nat (u div 256 * 256 + u mod 256)" by (simp only: of_nat_add of_nat_mult of_nat_numeral)
  finally show ?thesis by (simp only: div_mult_mod_eq)
qed

lemma utf16_units_be:
  "\<forall>u \<in> set us. u < 65536 \<Longrightarrow>
     utf16_units (\<lambda>a b. push_bit 8 a + b) (concat (map (\<lambda>u. [of_nat (u div 256), of_nat (u mod 256)]) us)) = map of_nat us"
  by (induction us) (simp_all add: utf16_unit_join)

lemma utf16_units_le:
  "\<forall>u \<in> set us. u < 65536 \<Longrightarrow>
     utf16_units (\<lambda>a b. push_bit 8 b + a) (concat (map (\<lambda>u. [of_nat (u mod 256), of_nat (u div 256)]) us)) = map of_nat us"
  by (induction us) (simp_all add: utf16_unit_join)

lemma unat_units: "\<forall>u \<in> set us. u < 65536 \<Longrightarrow> map unat (map of_nat us :: 16 word list) = us"
  by (induction us) (simp_all add: unat_of_nat)

lemma unat_bytes: "\<forall>u \<in> set us. u < 256 \<Longrightarrow> map unat (map of_nat us :: 8 word list) = us"
  by (induction us) (simp_all add: unat_of_nat)

lemma length_pairs: "length (concat (map (\<lambda>u. [f u, g u]) us)) = 2 * length us"
  by (induction us) simp_all

lemma utf16_encode_units: "\<forall>c \<in> set cs. scalar c \<Longrightarrow> \<forall>u \<in> set (utf16_encode cs). u < 65536"
  using utf16_char_unit by (auto simp: utf16_encode_def)

lemma decode_files:
  assumes "\<forall>c \<in> set cs. scalar c"
  shows "decode_string ansi (utf8_file cs) = Inr (text_string cs)"
    and "decode_string ansi (utf16_le_file cs) = Inr (text_string cs)"
    and "decode_string ansi (utf16_be_file cs) = Inr (text_string cs)"
proof -
  have b: "map unat (map of_nat (utf8_encode cs) :: 8 word list) = utf8_encode cs"
    using assms utf8_char_byte by (intro unat_bytes) (auto simp: utf8_encode_def)
  have "text_of d = map char_of (map unat d)" for d by (simp add: text_of_def)
  then have "text_of (map of_nat (utf8_encode cs)) = text_string cs"
    by (simp add: b text_string_def del: map_map)
  then show "decode_string ansi (utf8_file cs) = Inr (text_string cs)"
    using b utf8_valid_encode [OF assms] by (simp add: decode_string_def utf8_file_def)
  note u = utf16_encode_units [OF assms]
  show "decode_string ansi (utf16_le_file cs) = Inr (text_string cs)"
    using utf16_roundtrip [OF assms]
    by (simp add: decode_string_def utf16_le_file_def decode_utf16_def length_pairs utf16_units_le [OF u]
        unat_units [OF u] text_string_def del: map_map)
  show "decode_string ansi (utf16_be_file cs) = Inr (text_string cs)"
    using utf16_roundtrip [OF assms]
    by (simp add: decode_string_def utf16_be_file_def decode_utf16_def length_pairs utf16_units_be [OF u]
        unat_units [OF u] text_string_def del: map_map)
qed

lemma parse_quote_native: "parse_native h (quote_native h args) = Inr args"
  by (cases h) (simp_all add: parse_native_def quote_native_def parse_unix_inverse parse_windows_inverse)

lemma load_append:
  "load_arguments h ansi fs base (xs @ ys) =
     rbind (load_arguments h ansi fs base xs) (\<lambda>as. rbind (load_arguments h ansi fs base ys) (\<lambda>bs. Inr (as @ bs)))"
  by (induction xs) (simp_all add: rbind_assoc Let_def, simp_all add: rbind_def split: sum.split)

lemma load_plain: "\<forall>a \<in> set args. \<not> starts_with a ''@'' \<Longrightarrow> load_arguments h ansi fs base args = Inr args"
  by (induction args) simp_all

text \<open>C26: An argument file stands for the arguments in it: when the file that \<open>@name\<close> names
  (relative to the working directory) holds quoted arguments as UTF-8 with a byte order mark or as
  UTF-16 in either order, the tasks are those of the command line with the arguments in its place,
  errors included.\<close>

theorem vs_argument_file:
  assumes "\<forall>c \<in> set cs. scalar c" "quote_native h args = text_string cs"
    "f_data f = utf8_file cs \<or> f_data f = utf16_le_file cs \<or> f_data f = utf16_be_file cs"
    "fs (current_dir_join command name) = Some f" "\<forall>a \<in> set args. \<not> starts_with a ''@''"
  shows "vs_create_tasks h ansi fs is_dir command (pre @ [CHR ''@'' # name] @ post) =
    vs_create_tasks h ansi fs is_dir command (pre @ args @ post)"
proof -
  have "decode_string ansi (f_data f) = Inr (quote_native h args)"
    using decode_files [OF assms(1)] assms(2,3) by auto
  then have "read_argument_file h ansi fs (current_dir_join command name) = Inr args"
    using assms(4) by (simp add: read_argument_file_def parse_quote_native)
  then have "load_arguments h ansi fs (cmd_dir command) [CHR ''@'' # name] = Inr args"
    by (cases "cmd_dir command") (simp_all add: starts_with_def current_dir_join_def)
  then have "load_arguments h ansi fs (cmd_dir command) (pre @ [CHR ''@'' # name] @ post) =
      load_arguments h ansi fs (cmd_dir command) (pre @ args @ post)"
    by (simp only: load_append load_plain [OF assms(5)])
  then show ?thesis by (simp only: vs_create_tasks_def)
qed

text \<open>An ASCII string is its own encoding.\<close>

lemma text_string_ascii: "\<forall>c \<in> set s. of_char c < (128 :: nat) \<Longrightarrow> text_string (map of_char s) = s"
  by (induction s) (simp_all add: text_string_def utf8_encode_def utf8_char_def)

definition sample_rsp :: filesystem where
  "sample_rsp = [''/w/a.rsp'' \<mapsto> \<lparr>f_data = utf16_le_file (map of_char (quote_unix [''/c'', ''a b.c''])), f_mtime = 0\<rparr>]"

lemma vs_argument_file_witness:
  "vs_create_tasks Unix (\<lambda>_. Inl not_found) sample_rsp (\<lambda>_. False)
     \<lparr>cmd_program = ''cl'', cmd_dir = Some ''/w'', cmd_env = env_new\<rparr> ([] @ [''@a.rsp''] @ [''/nologo'']) =
   vs_create_tasks Unix (\<lambda>_. Inl not_found) sample_rsp (\<lambda>_. False)
     \<lparr>cmd_program = ''cl'', cmd_dir = Some ''/w'', cmd_env = env_new\<rparr> ([] @ [''/c'', ''a b.c''] @ [''/nologo''])"
proof -
  have q: "quote_unix [''/c'', ''a b.c''] = [dquote] @ ''/c'' @ [dquote, CHR '' '', dquote] @ ''a b.c'' @ [dquote]"
    by (simp add: quote_unix_def quote_arg_def)
  have t: "quote_native Unix [''/c'', ''a b.c''] = text_string (map of_char (quote_unix [''/c'', ''a b.c'']))"
    by (subst text_string_ascii) (simp_all add: q quote_native_def)
  show ?thesis
    by (rule vs_argument_file [OF _ t])
      (simp_all add: q sample_rsp_def scalar_def current_dir_join_def path_join_def is_absolute_def starts_with_def)
qed

section \<open>The shape of the tasks\<close>

lemma vs_make_task_Inr:
  "vs_make_task is_dir shared language object source = Inr t \<Longrightarrow>
     ct_shared t = shared \<and> ct_input_source t = current_dir_join (ca_command shared) source \<and>
     vs_get_output_object is_dir (ct_input_source t) object = Inr (ct_output_object t) \<and>
     vs_language language (ct_input_source t) = Inr (ct_language t)"
  by (auto simp: vs_make_task_def Let_def rbind_eq_Inr)

text \<open>The parts a successful call is made of.\<close>

lemma vs_tasks_ofE:
  assumes "vs_tasks_of is_dir command parsed = Inr tasks"
  obtains pch marker object language m inp out where
    "List.map_filter arg_source parsed \<noteq> []"
    "List.map_filter arg_object parsed = (case object of None \<Rightarrow> [] | Some x \<Rightarrow> [x])"
    "List.map_filter (arg_param ''T'') parsed = (case language of None \<Rightarrow> [] | Some x \<Rightarrow> [x])"
    "vs_precompiled pch marker = (m, inp, out)"
    "list_all2 (\<lambda>source t.
       vs_make_task is_dir \<lparr>ca_command = command, ca_args = parsed,
           ca_input_precompiled = map_option (current_dir_join command) inp,
           ca_output_precompiled = map_option (current_dir_join command) out, ca_marker_precompiled = m\<rparr>
         language (map_option (current_dir_join command) object) source = Inr t)
       (List.map_filter arg_source parsed) tasks"
proof -
  obtain pch marker object language where *: "List.map_filter arg_source parsed \<noteq> []"
    "List.map_filter arg_object parsed = (case object of None \<Rightarrow> [] | Some x \<Rightarrow> [x])"
    "List.map_filter (arg_param ''T'') parsed = (case language of None \<Rightarrow> [] | Some x \<Rightarrow> [x])"
    "(let (m, inp, out) = vs_precompiled pch marker;
          shared = \<lparr>ca_command = command, ca_args = parsed,
            ca_input_precompiled = map_option (current_dir_join command) inp,
            ca_output_precompiled = map_option (current_dir_join command) out, ca_marker_precompiled = m\<rparr>
      in try_map (vs_make_task is_dir shared language (map_option (current_dir_join command) object))
           (List.map_filter arg_source parsed)) = Inr tasks"
    using assms by (auto simp: vs_tasks_of_def Let_def rbind_eq_Inr at_most_one_Inr split: if_splits)
  obtain m inp out where p: "vs_precompiled pch marker = (m, inp, out)" by (cases "vs_precompiled pch marker")
  show ?thesis by (rule that [OF *(1-3) p]) (use *(4) p in \<open>simp add: Let_def try_map_eq_Inr\<close>)
qed

lemma vs_create_tasksE:
  assumes "vs_create_tasks h ansi fs is_dir command args = Inr tasks"
  obtains loaded parsed where "load_arguments h ansi fs (cmd_dir command) args = Inr loaded"
    "vs_parse_arguments loaded = Inr parsed" "vs_tasks_of is_dir command parsed = Inr tasks"
  using assms by (auto simp: vs_create_tasks_def rbind_eq_Inr split: sum.splits)

lemma vs_tasks_shape:
  assumes "vs_create_tasks h ansi fs is_dir command args = Inr tasks"
  shows "tasks \<noteq> [] \<and> (\<exists>loaded parsed.
    load_arguments h ansi fs (cmd_dir command) args = Inr loaded \<and> vs_parse_arguments loaded = Inr parsed \<and>
    map ct_input_source tasks = map (current_dir_join command) (List.map_filter arg_source parsed) \<and>
    (\<forall>t \<in> set tasks. ca_args (ct_shared t) = parsed \<and> ca_command (ct_shared t) = command \<and>
      (ca_input_precompiled (ct_shared t) = None \<or> ca_output_precompiled (ct_shared t) = None)))"
proof -
  obtain loaded parsed where lp: "load_arguments h ansi fs (cmd_dir command) args = Inr loaded"
    "vs_parse_arguments loaded = Inr parsed" "vs_tasks_of is_dir command parsed = Inr tasks"
    using assms by (rule vs_create_tasksE)
  from lp(3) show ?thesis
  proof (rule vs_tasks_ofE)
    fix pch marker object language m inp out
    let ?shared = "\<lparr>ca_command = command, ca_args = parsed,
           ca_input_precompiled = map_option (current_dir_join command) inp,
           ca_output_precompiled = map_option (current_dir_join command) out, ca_marker_precompiled = m\<rparr>"
    assume ne: "List.map_filter arg_source parsed \<noteq> []" and p: "vs_precompiled pch marker = (m, inp, out)"
      and all: "list_all2 (\<lambda>source t. vs_make_task is_dir ?shared language
        (map_option (current_dir_join command) object) source = Inr t) (List.map_filter arg_source parsed) tasks"
    have pch: "inp = None \<or> out = None"
      using p by (auto simp: vs_precompiled_def Let_def split: option.splits if_splits prod.splits)
    from all have "list_all2 (\<lambda>source t. ct_shared t = ?shared \<and> ct_input_source t = current_dir_join command source)
        (List.map_filter arg_source parsed) tasks"
      by (rule list_all2_mono) (auto dest!: vs_make_task_Inr)
    then have "map ct_input_source tasks = map (current_dir_join command) (List.map_filter arg_source parsed) \<and>
        (\<forall>t \<in> set tasks. ct_shared t = ?shared) \<and> tasks \<noteq> []"
      using ne by (auto dest: list_all2_map_eq)
    then show ?thesis using lp(1,2) pch by auto
  qed
qed

text \<open>When the tasks of a command are made, there is at least one, one for every source
  argument and in their order, all share the parsed arguments and the command, and none both uses and
  makes a precompiled header.\<close>

theorem vs_create_tasks_shape:
  assumes "vs_create_tasks h ansi fs is_dir command args = Inr tasks"
  shows "tasks \<noteq> [] \<and> (\<exists>loaded parsed.
    load_arguments h ansi fs (cmd_dir command) args = Inr loaded \<and> vs_parse_arguments loaded = Inr parsed \<and>
    map ct_input_source tasks = map (current_dir_join command) (List.map_filter arg_source parsed) \<and>
    (\<forall>t \<in> set tasks. ca_args (ct_shared t) = parsed \<and> ca_command (ct_shared t) = command \<and>
      (ca_input_precompiled (ct_shared t) = None \<or> ca_output_precompiled (ct_shared t) = None)))"
  using assms by (rule vs_tasks_shape)

lemma vs_get_output_object_absolute:
  assumes "vs_get_output_object is_dir source object = Inr out" "is_absolute source" "\<forall>p. object = Some p \<longrightarrow> is_absolute p"
  shows "is_absolute out"
  using assms
  by (auto simp: vs_get_output_object_def with_extension_absolute path_join_absolute split: option.splits if_splits)

lemma vs_tasks_absolute:
  assumes "vs_create_tasks h ansi fs is_dir command args = Inr tasks" "cmd_dir command = Some cwd" "is_absolute cwd"
    "t \<in> set tasks"
  shows "is_absolute (ct_input_source t) \<and> is_absolute (ct_output_object t) \<and>
    (\<forall>p. ca_input_precompiled (ct_shared t) = Some p \<longrightarrow> is_absolute p) \<and>
    (\<forall>p. ca_output_precompiled (ct_shared t) = Some p \<longrightarrow> is_absolute p)"
proof -
  have join: "is_absolute (current_dir_join command p)" for p
    using assms(2,3) by (simp add: current_dir_join_def path_join_absolute)
  obtain parsed where "vs_tasks_of is_dir command parsed = Inr tasks"
    using assms(1) by (rule vs_create_tasksE)
  then show ?thesis
  proof (rule vs_tasks_ofE)
    fix pch marker object language m inp out
    let ?shared = "\<lparr>ca_command = command, ca_args = parsed,
           ca_input_precompiled = map_option (current_dir_join command) inp,
           ca_output_precompiled = map_option (current_dir_join command) out, ca_marker_precompiled = m\<rparr>"
    assume "list_all2 (\<lambda>source t. vs_make_task is_dir ?shared language
        (map_option (current_dir_join command) object) source = Inr t) (List.map_filter arg_source parsed) tasks"
    then obtain source where "vs_make_task is_dir ?shared language (map_option (current_dir_join command) object) source = Inr t"
      using list_all2_member [OF _ assms(4)] by blast
    then have t: "ct_shared t = ?shared" "ct_input_source t = current_dir_join command source"
      "vs_get_output_object is_dir (ct_input_source t) (map_option (current_dir_join command) object) = Inr (ct_output_object t)"
      by (auto dest: vs_make_task_Inr)
    have "is_absolute (ct_output_object t)"
      using t(2) join
      by (intro vs_get_output_object_absolute [OF t(3)]) auto
    then show ?thesis using t(1,2) join by auto
  qed
qed

text \<open>C27: When the working directory of the command is absolute, every path of every task is:
  its source, its object file and the precompiled headers. This is what the assertions of the
  compilation step ask for.\<close>

theorem vs_create_tasks_absolute:
  assumes "vs_create_tasks h ansi fs is_dir command args = Inr tasks" "cmd_dir command = Some cwd" "is_absolute cwd"
    "t \<in> set tasks"
  shows "is_absolute (ct_input_source t) \<and> is_absolute (ct_output_object t) \<and>
    (\<forall>p. ca_input_precompiled (ct_shared t) = Some p \<longrightarrow> is_absolute p) \<and>
    (\<forall>p. ca_output_precompiled (ct_shared t) = Some p \<longrightarrow> is_absolute p)"
  using assms by (rule vs_tasks_absolute)

section \<open>Arguments written out\<close>

text \<open>An argument the way the preprocessing and compilation steps write it.\<close>

fun vs_render :: "arg \<Rightarrow> string" where
  "vs_render (Flag sc flag) = CHR ''/'' # flag"
| "vs_render (Param sc flag v) = CHR ''/'' # flag @ v"
| "vs_render (Input k flag p) = (if flag = [] then p else CHR ''/'' # flag @ p)"
| "vs_render (Output k flag p) = CHR ''/'' # flag @ p"

text \<open>Parameters that the join of flag and value leaves readable: the value is there, and does not make
  the flag \<open>w\<close> one of \<open>wd\<close>, \<open>we\<close> and \<open>wo\<close>.\<close>

fun vs_clear :: "arg \<Rightarrow> bool" where
  "vs_clear (Param sc flag v) \<longleftrightarrow> v \<noteq> [] \<and> (flag = ''w'' \<longrightarrow> v \<notin> {''d'', ''e'', ''o''})"
| "vs_clear _ \<longleftrightarrow> True"

text \<open>What an argument means once read: \<open>vs_reads a b\<close> says that \<open>b\<close> is what the text of \<open>a\<close> gives.\<close>

definition vs_reads :: "arg \<Rightarrow> arg \<Rightarrow> bool" where
  "vs_reads a b \<longleftrightarrow> (\<forall>rest. vs_parse_argument (vs_render a # rest) = Some (Inr b, rest)) \<and> vs_render b = vs_render a"

lemma vs_prefix_slash [simp]: "vs_has_param_prefix (CHR ''/'' # s)"
  by (simp add: vs_has_param_prefix_def starts_with_def)

lemma starts_with_1: "starts_with s [c] \<Longrightarrow> c # drop (Suc 0) s = s"
  using starts_withE [of s "[c]", symmetric] by simp

lemma starts_with_2: "starts_with s [c, d] \<Longrightarrow> c # d # drop 2 s = s"
  using starts_withE [of s "[c, d]", symmetric] by (simp add: numeral_2_eq_2)

lemma vs_flag_error: "vs_flag x flag = Inr a \<Longrightarrow> vs_flag y flag = Inr a"
proof -
  have "vs_flag z flag = map_sum (\<lambda>_. z) id (vs_flag [] flag)" for z unfolding vs_flag_def by simp
  then show "vs_flag x flag = Inr a \<Longrightarrow> vs_flag y flag = Inr a"
    by (metis map_sum.simps(1,2) old.sum.exhaust sum.distinct(1))
qed

lemma vs_flag_render: "vs_flag x flag = Inr a \<Longrightarrow> vs_render a = CHR ''/'' # flag"
  unfolding vs_flag_def
  by (simp split: if_split_asm add: starts_with_1 starts_with_2) (auto simp add: starts_with_1 starts_with_2)

lemma vs_flag_reads:
  assumes "vs_is_spaceable_param flag = None" "vs_flag x flag = Inr a"
  shows "vs_reads a a"
  using assms vs_flag_error [OF assms(2)] vs_flag_render [OF assms(2)] by (simp add: vs_reads_def)

abbreviation vs_spaceable :: "string list" where
  "vs_spaceable \<equiv> [''D'', ''I'', ''W'', ''wd'', ''we'', ''wo'', ''w'']"

lemma vs_is_spaceable_Some: "vs_is_spaceable_param flag = Some (p, sc) \<Longrightarrow> p \<in> set vs_spaceable \<and> starts_with flag p"
  by (auto simp: vs_is_spaceable_param_def split: if_splits)

lemma vs_spaceable_join:
  assumes "p \<in> set vs_spaceable" "vs_clear (Param sc p v)"
  shows "\<exists>p' sc'. vs_is_spaceable_param (p @ v) = Some (p', sc') \<and> p @ v \<noteq> p'"
proof -
  obtain c w where v: "v = c # w" using assms(2) by (cases v) auto
  consider "p \<in> {''D'', ''I'', ''W'', ''wd'', ''we'', ''wo''}" | "p = ''w''" using assms(1) by auto
  then show ?thesis
  proof cases
    case 1
    then show ?thesis by (elim insertE emptyE) (simp_all add: v vs_is_spaceable_param_def)
  next
    case 2
    then show ?thesis
      using assms(2) by (cases "c \<in> {CHR ''d'', CHR ''e'', CHR ''o''}") (auto simp: v vs_is_spaceable_param_def)
  qed
qed

lemma vs_param_reads:
  assumes "p \<in> set vs_spaceable" "vs_clear (Param sc p v)"
  shows "\<exists>b. vs_reads (Param sc p v) b"
proof -
  obtain p' sc' where s: "vs_is_spaceable_param (p @ v) = Some (p', sc')" "p @ v \<noteq> p'"
    using vs_spaceable_join [OF assms] by blast
  then have "p' @ drop (length p') (p @ v) = p @ v" using vs_is_spaceable_Some starts_withE by metis
  then have "vs_reads (Param sc p v) (Param sc' p' (drop (length p') (p @ v)))"
    using s by (simp add: vs_reads_def)
  then show ?thesis by blast
qed

lemma vs_argument_reads:
  assumes "vs_parse_argument args = Some (Inr a, rest)" "vs_clear a"
  shows "\<exists>b. vs_reads a b"
proof (cases args)
  case (Cons x xs)
  show ?thesis
  proof (cases "vs_has_param_prefix x")
    case False
    then have "vs_reads a a" using assms(1) Cons by (auto simp: vs_reads_def)
    then show ?thesis by blast
  next
    case True
    show ?thesis
    proof (cases "vs_is_spaceable_param (drop 1 x)")
      case None
      then show ?thesis using assms(1) Cons True vs_flag_reads [of "drop 1 x" x a] by auto
    next
      case (Some ps)
      then obtain sc p v where a: "a = Param sc p v" "ps = (p, sc)"
        using assms(1) Cons True by (cases ps) (auto simp: Let_def split: if_splits list.splits)
      then show ?thesis using vs_param_reads [of p sc v] vs_is_spaceable_Some [of "drop 1 x" p sc] Some assms(2) by blast
    qed
  qed
qed (use assms(1) in simp)

lemma vs_reads_results:
  "\<forall>a \<in> set as. \<exists>b. vs_reads a b \<Longrightarrow>
     \<exists>bs. vs_parse_results (map vs_render as) = map Inr bs \<and> map vs_render bs = map vs_render as"
proof (induction as)
  case Nil
  have "vs_parse_results [] = []" by (simp add: vs_parse_results.simps [of "[]"])
  then show ?case by simp
next
  case (Cons a as)
  then obtain b bs where b: "vs_reads a b" "vs_parse_results (map vs_render as) = map Inr bs" "map vs_render bs = map vs_render as"
    by auto
  have "vs_parse_results (map vs_render (a # as)) = map Inr (b # bs)"
    using b(1,2) vs_parse_results.simps [of "map vs_render (a # as)"] by (simp add: vs_reads_def)
  then show ?case using b(1,3) by (metis list.simps(9) vs_reads_def)
qed

lemma vs_results_read:
  "vs = vs_parse_results args \<Longrightarrow> Inr a \<in> set vs \<Longrightarrow> vs_clear a \<Longrightarrow> \<exists>b. vs_reads a b"
proof (induction args arbitrary: vs rule: vs_parse_results.induct)
  case (1 args)
  show ?case
  proof (cases "vs_parse_argument args")
    case None
    then show ?thesis using 1(2,3) vs_parse_results.simps [of args] by simp
  next
    case (Some p)
    obtain r rest where p: "p = (r, rest)" by (cases p)
    then have "vs = r # vs_parse_results rest" using 1(2) Some vs_parse_results.simps [of args] by simp
    then show ?thesis
      using 1(1) [OF Some p [symmetric] refl] 1(3,4) vs_argument_reads [of args a rest] Some p by auto
  qed
qed

lemma vs_arguments_read:
  "vs_parse_arguments args = Inr as \<Longrightarrow> a \<in> set as \<Longrightarrow> vs_clear a \<Longrightarrow> \<exists>b. vs_reads a b"
  using vs_results_read [of "map Inr as" args a] by (auto simp: vs_parse_arguments_def collect_arguments_Inr)

lemma vs_reads_rendered:
  "\<forall>a \<in> set as. \<exists>b. vs_reads a b \<Longrightarrow>
     \<exists>bs. vs_parse_arguments (map vs_render as) = Inr bs \<and> map vs_render bs = map vs_render as"
  using vs_reads_results by (simp add: vs_parse_arguments_def collect_arguments_Inr)

section \<open>A command\<close>

definition sample_args :: "string list" where
  "sample_args = [''/c'', ''/DX=1'', ''/D'', ''Y'', ''/Yus.h'', ''/Fps.pch'', ''/Foo.o'', ''s.cpp'']"

definition sample_parsed :: "arg list" where
  "sample_parsed = [Flag Ignore ''c'', Param Shared ''D'' ''X=1'', Param Shared ''D'' ''Y'', Input InMarker ''Yu'' ''s.h'',
     Input Precompiled ''Fp'' ''s.pch'', Output Object ''Fo'' ''o.o'', Input Source [] ''s.cpp'']"

definition sample_cl :: command_info where
  "sample_cl = \<lparr>cmd_program = ''cl'', cmd_dir = Some ''/w'', cmd_env = env_new\<rparr>"

definition sample_task :: compilation_task where
  "sample_task = \<lparr>ct_shared = \<lparr>ca_command = sample_cl, ca_args = sample_parsed, ca_input_precompiled = Some ''/w/s.pch'',
       ca_output_precompiled = None, ca_marker_precompiled = Some ''s.h''\<rparr>,
     ct_language = ''P'', ct_input_source = ''/w/s.cpp'', ct_output_object = ''/w/o.o''\<rparr>"

lemma sample_results: "vs_parse_results sample_args = map Inr sample_parsed"
  by (simp add: sample_args_def sample_parsed_def vs_parse_results.simps vs_has_param_prefix_def
      vs_is_spaceable_param_def vs_flag_def)

lemma sample_arguments: "vs_parse_arguments sample_args = Inr sample_parsed"
  by (simp add: vs_parse_arguments_def sample_results collect_arguments_Inr)

lemma sample_language: "vs_language None ''/w/s.cpp'' = Inr ''P''"
  by code_simp

lemma sample_tasks:
  "vs_create_tasks h ansi fs (\<lambda>_. False) sample_cl sample_args = Inr [sample_task]"
proof -
  have "load_arguments h ansi fs (cmd_dir sample_cl) sample_args = Inr sample_args"
    by (rule load_plain) (simp add: sample_args_def)
  moreover have "vs_tasks_of (\<lambda>_. False) sample_cl sample_parsed = Inr [sample_task]"
    by (simp add: vs_tasks_of_def sample_parsed_def sample_cl_def sample_task_def map_filter_simps find_param_def
        at_most_one_def vs_precompiled_def vs_make_task_def current_dir_join_def path_join_def is_absolute_def
        vs_get_output_object_def sample_language)
  ultimately show ?thesis by (simp add: vs_create_tasks_def sample_arguments)
qed

lemma vs_create_tasks_shape_witness:
  "\<exists>parsed. map ct_input_source [sample_task] = map (current_dir_join sample_cl) (List.map_filter arg_source parsed)"
  using vs_create_tasks_shape [OF sample_tasks [of Unix "\<lambda>_. Inl not_found" "\<lambda>_. None"]] by blast

lemma vs_create_tasks_absolute_witness: "is_absolute (ct_output_object sample_task)"
  using vs_create_tasks_absolute [OF sample_tasks [of Unix "\<lambda>_. Inl not_found" "\<lambda>_. None"], of "''/w''" sample_task]
  by (simp add: sample_cl_def is_absolute_def)

text \<open>Without \<open>/Fp\<close> the name of the precompiled header gets two dots: \<open>with_extension\<close> adds one of its own.\<close>

lemma default_pch_name: "vs_precompiled None (Some (True, ''s.h'')) = (Some ''s.h'', Some ''s..pch'', None)"
  by code_simp

end
