(* ===== verification/Temp_File.thy ===== *)
theory Temp_File
  imports Os_Path
begin

text \<open>
  \<open>src/io/tempfile.rs\<close>: a file that is removed when its wrapper is dropped. The name is random (crate
  \<open>uuid\<close>), so that it is a parameter here.
\<close>

record temp_file =
  tf_path :: "path option"
  tf_disarmed :: bool

definition temp_wrap :: "path \<Rightarrow> temp_file" where
  "temp_wrap p = \<lparr>tf_path = Some p, tf_disarmed = False\<rparr>"

definition temp_new_in :: "string \<Rightarrow> path \<Rightarrow> string \<Rightarrow> temp_file" where
  "temp_new_in uuid p ext = temp_wrap (path_join p (uuid @ ext))"

definition temp_get_path :: "temp_file \<Rightarrow> path result" where
  "temp_get_path t =
     (case tf_path t of Some p \<Rightarrow> Inr p | None \<Rightarrow> Inl (Panic ''called `Option::unwrap()` on a `None` value''))"

definition cleanup_file :: "temp_file \<Rightarrow> filesystem \<Rightarrow> unit result \<times> temp_file \<times> filesystem" where
  "cleanup_file t fs =
     (if tf_disarmed t then (Inl (Panic ''assertion failed: !self.disarmed''), t, fs)
      else let t' = t\<lparr>tf_disarmed := True\<rparr>
           in case tf_path t of
                None \<Rightarrow> (Inr (), t', fs)
              | Some p \<Rightarrow> (case fs_remove p fs of Inl e \<Rightarrow> (Inl e, t', fs) | Inr fs' \<Rightarrow> (Inr (), t', fs')))"

definition temp_drop :: "temp_file \<Rightarrow> filesystem \<Rightarrow> filesystem" where
  "temp_drop t fs = (if tf_disarmed t then fs else snd (snd (cleanup_file t fs)))"

text \<open>Dropping a new wrapper leaves no file under its path, whether one was made or not.\<close>

lemma temp_drop_wrap [simp]: "temp_drop (temp_wrap p) fs = fs(p := None)"
  by (auto simp: temp_drop_def temp_wrap_def cleanup_file_def fs_remove_def fun_upd_idem split: option.split)

lemma temp_get_path_wrap [simp]: "temp_get_path (temp_wrap p) = Inr p"
  by (simp add: temp_get_path_def temp_wrap_def)

text \<open>Cleaning up twice is what the assertion forbids, and dropping never does it.\<close>

lemma cleanup_file_once:
  "cleanup_file t fs = (r, t', fs') \<Longrightarrow> tf_disarmed t' \<and> temp_drop t' fs' = fs'"
  by (auto simp: cleanup_file_def temp_drop_def Let_def split: if_splits option.splits sum.splits)

end
