(* ===== verification/Vs_Compiler.thy ===== *)
theory Vs_Compiler
  imports Process Vs_Prepare_Correct Temp_File Postprocess_Filter
begin

text \<open>
  \<open>src/vs/compiler.rs\<close>: the Visual Studio toolchain. It preprocesses, filters the output when a
  precompiled header is involved, and compiles from a temporary file. Parameters: the operating
  system (\<open>runner\<close>), the ANSI code page, the random names, and the replacement by the regular
  expression (crate \<open>regex\<close>) that removes a redundant warning.
\<close>

section \<open>The host\<close>

record vs_host =
  vsh_run :: runner
  vsh_junk :: "nat \<Rightarrow> byte"
  vsh_ansi :: "bytes \<Rightarrow> bytes result"
  vsh_uuid :: string
  vsh_now :: nat
  vsh_temp :: path
  vsh_env :: "string \<rightharpoonup> string"
  vsh_regex :: "bytes \<Rightarrow> bytes"

section \<open>Arguments\<close>

definition join_flag :: "string \<Rightarrow> path \<Rightarrow> string" where
  "join_flag flag p = flag @ p"

fun vs_preprocess_arg :: "arg \<Rightarrow> string option" where
  "vs_preprocess_arg (Flag sc flag) = (if for_preprocessor sc then Some (''/'' @ flag) else None)"
| "vs_preprocess_arg (Param sc flag v) = (if for_preprocessor sc then Some (''/'' @ flag @ v) else None)"
| "vs_preprocess_arg (Input k flag p) = None"
| "vs_preprocess_arg (Output k flag p) = None"

definition vs_preprocess_args :: "compilation_task \<Rightarrow> string list" where
  "vs_preprocess_args task =
     List.map_filter vs_preprocess_arg (ca_args (ct_shared task)) @
     [''/nologo'', ''/T'' @ ct_language task, ''/E'', ''/we4002'', ct_input_source task] @
     [join_flag ''/Fo'' (ct_output_object task)]"

text \<open>A step that makes a precompiled header also passes on the arguments of the preprocessor.\<close>

definition vs_compile_scope :: "bool \<Rightarrow> scope \<Rightarrow> bool" where
  "vs_compile_scope makes_pch sc \<longleftrightarrow> sc = Compiler \<or> sc = Shared \<or> sc = Preprocessor \<and> makes_pch"

fun vs_compile_arg :: "bool \<Rightarrow> arg \<Rightarrow> string option" where
  "vs_compile_arg makes_pch (Flag sc flag) = (if vs_compile_scope makes_pch sc then Some (''/'' @ flag) else None)"
| "vs_compile_arg makes_pch (Param sc flag v) = (if vs_compile_scope makes_pch sc then Some (''/'' @ flag @ v) else None)"
| "vs_compile_arg makes_pch (Input k flag p) = None"
| "vs_compile_arg makes_pch (Output k flag p) = None"

definition vs_compile_args :: "compilation_task \<Rightarrow> string list" where
  "vs_compile_args task =
     (let makes_pch = ca_output_precompiled (ct_shared task) \<noteq> None
      in List.map_filter (vs_compile_arg makes_pch) (ca_args (ct_shared task)) @
         [''/nologo'', ''/T'' @ ct_language task] @ (if makes_pch then [''/Yc''] else []))"

section \<open>Preprocessing\<close>

definition vs_preprocess_step ::
    "vs_host \<Rightarrow> compilation_task \<Rightarrow> statistic \<Rightarrow> filesystem \<Rightarrow> preprocess_result result \<times> statistic \<times> filesystem" where
  "vs_preprocess_step h task stat fs =
     (let shared = ct_shared task;
          cmd = (to_command (ca_command shared))\<lparr>pc_args := vs_preprocess_args task\<rparr>;
          (res, fs') = run_output (vsh_run h) cmd [] fs
      in (rbind res (\<lambda>out.
            if success out then
              rbind (if ca_input_precompiled shared \<noteq> None \<or> ca_output_precompiled shared \<noteq> None then
                       filter_preprocessed (ms_write (vsh_junk h)) (vsh_ansi h) (file_reader (oi_stdout out)) ms_new
                         (map_option ascii (ca_marker_precompiled shared)) (ca_output_precompiled shared \<noteq> None)
                     else ms_write (vsh_junk h) ms_new (oi_stdout out)) (\<lambda>content. Inr (Success content))
            else Inr (Failed \<lparr>oi_status = oi_status out, oi_stdout = [], oi_stderr = oi_stderr out\<rparr>)),
          stat, fs'))"

section \<open>Compilation\<close>

definition vs_compile_prepare_step :: "compilation_task \<Rightarrow> mem_stream \<Rightarrow> compile_step result" where
  "vs_compile_prepare_step task preprocessed = compile_step_new task preprocessed (vs_compile_args task) True"

definition is_eol :: "byte \<Rightarrow> bool" where
  "is_eol c \<longleftrightarrow> c = 0x0D \<or> c = 0x0A"

definition prepare_output :: "(bytes \<Rightarrow> bytes) \<Rightarrow> bytes \<Rightarrow> bytes \<Rightarrow> bool \<Rightarrow> bytes" where
  "prepare_output re line buffer ok =
     (let begin = (if length line < length buffer \<and> take (length line) buffer = line \<and> is_eol (buffer ! length line)
            then length line else 0);
          rest = dropWhile is_eol (drop begin buffer)
      in if ok then re rest else rest)"

text \<open>The assertion on the path of a precompiled header, and the arguments it adds.\<close>

definition vs_pch_args :: "string list \<Rightarrow> path option \<Rightarrow> string list result" where
  "vs_pch_args flags p =
     (case p of
        None \<Rightarrow> Inr []
      | Some p \<Rightarrow>
          if is_absolute p then Inr (flags @ [join_flag ''/Fp'' p])
          else Inl (Panic ''assertion failed: path.is_absolute()''))"

definition vs_passed_env :: "(string \<rightharpoonup> string) \<Rightarrow> command_env" where
  "vs_passed_env env = (\<lambda>name. if name \<in> set [''SystemDrive'', ''SystemRoot'', ''TEMP'', ''TMP'', ''PATH''] then env name else None)"

text \<open>The step from the temporary file on: \<open>fs\<close> has it already.\<close>

definition vs_run_step :: "vs_host \<Rightarrow> path \<Rightarrow> path \<Rightarrow> compile_step \<Rightarrow> filesystem \<Rightarrow> output_info result \<times> filesystem" where
  "vs_run_step h cl input step fs =
     (case cs_output_object step of
        None \<Rightarrow> (Inl (Panic ''Visual Studio don't support compilation to stdout.''), fs)
      | Some object \<Rightarrow>
          (case rbind (vs_pch_args [] (cs_output_precompiled step)) (\<lambda>out_args.
                rbind (vs_pch_args [''/Yu''] (cs_input_precompiled step)) (\<lambda>in_args. Inr (out_args @ in_args))) of
             Inl e \<Rightarrow> (Inl e, fs)
           | Inr pch \<Rightarrow>
               let cmd = \<lparr>pc_program = cl,
                     pc_args = [''/c''] @ cs_args step @ [input, join_flag ''/Fo'' object] @ pch,
                     pc_env = vs_passed_env (vsh_env h), pc_dir = Some (vsh_temp h)\<rparr>;
                   temp_name = (case file_name input of Some n \<Rightarrow> ascii n | None \<Rightarrow> []);
                   (res, fs') = run_output (vsh_run h) cmd [] fs
               in (rbind res (\<lambda>out. Inr (out\<lparr>oi_stdout :=
                     prepare_output (vsh_regex h) temp_name (oi_stdout out) (oi_status out = Some 0)\<rparr>)), fs')))"

text \<open>The whole step; the temporary file is removed on every way out, panics included.\<close>

definition vs_compile_step :: "vs_host \<Rightarrow> path \<Rightarrow> compile_step \<Rightarrow> worker" where
  "vs_compile_step h cl step stat fs =
     (let temp = temp_new_in (vsh_uuid h) (vsh_temp h) ''.i''
      in case temp_get_path temp of
           Inl e \<Rightarrow> (Inl e, stat, temp_drop temp fs)
         | Inr input \<Rightarrow>
             (case ms_copy vec_write (cs_preprocessed step) [] of
                Inl e \<Rightarrow> (Inl e, stat, temp_drop temp fs)
              | Inr (_, source) \<Rightarrow>
                  let (res, fs') = vs_run_step h cl input step (fs(input \<mapsto> \<lparr>f_data = source, f_mtime = vsh_now h\<rparr>))
                  in (res, stat, temp_drop temp fs')))"

text \<open>\<open>compile_memory\<close>: the object file goes to a second temporary file, whose content is the result.\<close>

definition vs_compile_memory ::
    "vs_host \<Rightarrow> string \<Rightarrow> path \<Rightarrow> compile_step \<Rightarrow> statistic \<Rightarrow> filesystem \<Rightarrow>
     (output_info \<times> bytes) result \<times> statistic \<times> filesystem" where
  "vs_compile_memory h object_uuid cl step stat fs =
     (let temp = temp_new_in object_uuid (vsh_temp h) ''.o''
      in case temp_get_path temp of
           Inl e \<Rightarrow> (Inl e, stat, temp_drop temp fs)
         | Inr object \<Rightarrow>
             let (res, stat', fs') = vs_compile_step h cl (step\<lparr>cs_output_object := Some object\<rparr>) stat fs
             in (rbind res (\<lambda>out. case fs' object of None \<Rightarrow> Inl not_found | Some f \<Rightarrow> Inr (out, f_data f)),
                 stat', temp_drop temp fs'))"

section \<open>The toolchain and the compiler\<close>

text \<open>On Unix the toolchain has no identifier and none is discovered.\<close>

definition vs_toolchain ::
    "vs_host \<Rightarrow> string \<Rightarrow> (command_info \<Rightarrow> string list \<Rightarrow> string + compilation_task list) \<Rightarrow> path \<Rightarrow> toolchain" where
  "vs_toolchain h object_uuid tasks cl =
     \<lparr>tc_identifier = None, tc_create_tasks = tasks, tc_preprocess = vs_preprocess_step h,
      tc_prepare = vs_compile_prepare_step, tc_compile = vs_compile_step h cl,
      tc_memory = vs_compile_memory h object_uuid cl\<rparr>"

definition vs_resolve_toolchain ::
    "(path \<Rightarrow> toolchain) \<Rightarrow> host \<Rightarrow> (path \<rightharpoonup> path) \<Rightarrow> command_info \<Rightarrow> toolchain toolchain_holder \<Rightarrow>
     toolchain option \<times> toolchain toolchain_holder" where
  "vs_resolve_toolchain factory os find_exec command holder =
     (case map_option (map lower_char) (file_name (cmd_program command)) of
        None \<Rightarrow> (None, holder)
      | Some name \<Rightarrow>
          if name = ''cl.exe'' \<or> name = ''cl'' then
            (case find_executable os find_exec command of
               None \<Rightarrow> (None, holder)
             | Some p \<Rightarrow> holder_resolve p factory holder)
          else (None, holder))"

end
