(* ===== verification/Vs_Compiler_Correct.thy ===== *)
theory Vs_Compiler_Correct
  imports Vs_Compiler
begin

text \<open>
  Properties of the Visual Studio toolchain on the tasks its argument parser makes: what the
  preprocessing step delivers, what the compilation step runs and leaves behind, and which arguments
  it passes on.
\<close>

section \<open>Preprocessing\<close>

text \<open>C21: When the preprocessor succeeds, the step delivers exactly what it wrote when no
  precompiled header is involved, and what the filter makes of it otherwise, or the error of the
  filter: here the reads of the scanner, its buffer and the stream play no part any more.\<close>

theorem vs_preprocess_step_content:
  assumes "vsh_run h ((to_command (ca_command (ct_shared t)))\<lparr>pc_args := vs_preprocess_args t\<rparr>) [] fs = (Inr ch, fs1)"
    "clean_child ch" "ch_status ch = Some 0"
  shows "case (if ca_input_precompiled (ct_shared t) = None \<and> ca_output_precompiled (ct_shared t) = None
               then Inr (reader_bytes (ch_stdout ch))
               else filter_output (vsh_ansi h) (map_option ascii (ca_marker_precompiled (ct_shared t)))
                 (ca_output_precompiled (ct_shared t) \<noteq> None) (reader_bytes (ch_stdout ch))) of
      Inl e \<Rightarrow> vs_preprocess_step h t stat fs = (Inl e, stat, fs1)
    | Inr out \<Rightarrow> \<exists>ms. vs_preprocess_step h t stat fs = (Inr (Success ms), stat, fs1) \<and> ms_inv ms \<and> ms_content ms = out"
proof -
  let ?out = "reader_bytes (ch_stdout ch)" and ?shared = "ct_shared t"
  let ?plain = "ca_input_precompiled ?shared = None \<and> ca_output_precompiled ?shared = None"
  have run: "run_output (vsh_run h) ((to_command (ca_command ?shared))\<lparr>pc_args := vs_preprocess_args t\<rparr>) [] fs =
      (Inr (output_info_new (Some 0) ?out (reader_bytes (ch_stderr ch))), fs1)"
    using assms by (simp add: run_output_def child_output_clean)
  show ?thesis
  proof (cases ?plain)
    case True
    obtain ms where "ms_write (vsh_junk h) ms_new ?out = Inr ms" "ms_inv ms" "ms_content ms = ms_content ms_new @ ?out"
      using mem_sink.wrE [of ms_new "vsh_junk h" ?out] by auto
    then show ?thesis
      using True run by (simp add: vs_preprocess_step_def Let_def success_def output_info_new_def)
  next
    case False
    let ?filter = "filter_preprocessed (ms_write (vsh_junk h)) (vsh_ansi h) (file_reader ?out) ms_new
        (map_option ascii (ca_marker_precompiled ?shared)) (ca_output_precompiled ?shared \<noteq> None)"
    have step: "vs_preprocess_step h t stat fs = (rbind ?filter (\<lambda>content. Inr (Success content)), stat, fs1)"
      using run False by (auto simp: vs_preprocess_step_def Let_def success_def output_info_new_def)
    have "case filter_output (vsh_ansi h) (map_option ascii (ca_marker_precompiled ?shared))
        (ca_output_precompiled ?shared \<noteq> None) ?out of
        Inl e \<Rightarrow> ?filter = Inl e
      | Inr out \<Rightarrow> \<exists>w'. ?filter = Inr w' \<and> ms_inv w' \<and> ms_content w' = ms_content ms_new @ out"
      using mem_sink.filter_ok [of "file_reader ?out" ms_new] by (simp only: file_reader_clean ms_new_ok simp_thms)
    then show ?thesis using False step by (auto split: sum.splits)
  qed
qed

section \<open>Compilation\<close>

lemma vs_prepare_fields:
  "vs_compile_prepare_step t ms = Inr step \<Longrightarrow>
     cs_args step = vs_compile_args t \<and> cs_preprocessed step = ms \<and> cs_output_object step = Some (ct_output_object t) \<and>
     cs_input_precompiled step = ca_input_precompiled (ct_shared t) \<and>
     cs_output_precompiled step = ca_output_precompiled (ct_shared t)"
  by (auto simp: vs_compile_prepare_step_def compile_step_new_def split: if_splits)

text \<open>The arguments for the precompiled header of a task.\<close>

definition vs_header_args :: "compilation_task \<Rightarrow> string list" where
  "vs_header_args t =
     (case ca_output_precompiled (ct_shared t) of Some p \<Rightarrow> [''/Fp'' @ p] | None \<Rightarrow> []) @
     (case ca_input_precompiled (ct_shared t) of Some p \<Rightarrow> [''/Yu'', ''/Fp'' @ p] | None \<Rightarrow> [])"

text \<open>C19: A task made from a command with an absolute working directory is always prepared, and
  its compilation runs the compiler once, on a temporary file that holds exactly the preprocessed
  source, with the headers of the task; the assertions hold, the result is the compiler's with its
  output cleaned up, and the temporary file is gone at the end.\<close>

theorem vs_compile_step_runs:
  assumes "vs_create_tasks os ansi fs0 is_dir command args = Inr tasks" "cmd_dir command = Some cwd" "is_absolute cwd"
    "t \<in> set tasks" "ms_inv ms"
  shows "\<exists>step. vs_compile_prepare_step t ms = Inr step \<and>
    vs_compile_step h cl step stat fs =
      (let input = path_join (vsh_temp h) (vsh_uuid h @ ''.i'');
           (res, fs2) = vsh_run h
             \<lparr>pc_program = cl,
              pc_args = [''/c''] @ vs_compile_args t @ [input, ''/Fo'' @ ct_output_object t] @ vs_header_args t,
              pc_env = vs_passed_env (vsh_env h), pc_dir = Some (vsh_temp h)\<rparr> []
             (fs(input \<mapsto> \<lparr>f_data = ms_content ms, f_mtime = vsh_now h\<rparr>))
       in (rbind (rbind res child_output) (\<lambda>out. Inr (out\<lparr>oi_stdout :=
             prepare_output (vsh_regex h) (case file_name input of Some n \<Rightarrow> ascii n | None \<Rightarrow> [])
               (oi_stdout out) (oi_status out = Some 0)\<rparr>)), stat, fs2(input := None)))"
proof -
  obtain step where step: "vs_compile_prepare_step t ms = Inr step"
    by (simp add: vs_compile_prepare_step_def compile_step_new_def)
  note f = vs_prepare_fields [OF step]
  have abs: "\<forall>p. ca_input_precompiled (ct_shared t) = Some p \<longrightarrow> is_absolute p"
    "\<forall>p. ca_output_precompiled (ct_shared t) = Some p \<longrightarrow> is_absolute p"
    using vs_tasks_absolute [OF assms(1-4)] by auto
  have "rbind (vs_pch_args [] (cs_output_precompiled step)) (\<lambda>out_args.
      rbind (vs_pch_args [''/Yu''] (cs_input_precompiled step)) (\<lambda>in_args. Inr (out_args @ in_args))) = Inr (vs_header_args t)"
    using f abs by (auto simp: vs_pch_args_def vs_header_args_def join_flag_def split: option.splits)
  moreover obtain n where "ms_copy vec_write ms [] = Inr (n, ms_content ms)"
    using vec_sink.ms_copy_ok [of ms "[]"] assms(5) by auto
  ultimately show ?thesis
    using step f
    by (auto simp: vs_compile_step_def vs_run_step_def temp_new_in_def Let_def join_flag_def run_output_def
        split: prod.splits)
qed

text \<open>The clean-up of the compiler's output removes from its front the name of the temporary
  file, when it is a line of its own, and line ends, and nothing else; what remains does not start
  with a line end. (A failed compilation, where no warning is removed.)\<close>

theorem prepare_output_removes:
  "\<exists>name eols. buffer = name @ eols @ prepare_output re line buffer False \<and> (name = [] \<or> name = line) \<and>
     list_all is_eol eols \<and> (name = line \<and> line \<noteq> [] \<longrightarrow> eols \<noteq> []) \<and>
     (prepare_output re line buffer False = [] \<or> \<not> is_eol (hd (prepare_output re line buffer False)))"
proof -
  define named where "named \<longleftrightarrow> length line < length buffer \<and> take (length line) buffer = line \<and> is_eol (buffer ! length line)"
  define name where "name = (if named then line else [])"
  define rest where "rest = drop (length name) buffer"
  have buffer: "buffer = name @ takeWhile is_eol rest @ dropWhile is_eol rest"
  proof -
    have "take (length name) buffer = name" by (simp add: name_def named_def)
    then have "buffer = name @ rest" unfolding rest_def by (metis append_take_drop_id)
    then show ?thesis by simp
  qed
  have out: "prepare_output re line buffer False = dropWhile is_eol rest"
    by (simp add: prepare_output_def rest_def name_def named_def Let_def)
  have "takeWhile is_eol rest \<noteq> []" if "named"
    using that by (auto simp: rest_def name_def named_def takeWhile_eq_Nil_iff hd_drop_conv_nth)
  moreover have "name = line \<and> line \<noteq> [] \<longrightarrow> named" by (auto simp: name_def)
  ultimately have "name = line \<and> line \<noteq> [] \<longrightarrow> takeWhile is_eol rest \<noteq> []" by blast
  moreover have "list_all is_eol (takeWhile is_eol rest)" by (auto simp: list_all_iff dest: set_takeWhileD)
  moreover have "dropWhile is_eol rest = [] \<or> \<not> is_eol (hd (dropWhile is_eol rest))" using hd_dropWhile by blast
  moreover have "name = [] \<or> name = line" by (simp add: name_def)
  ultimately show ?thesis unfolding out using buffer by blast
qed

section \<open>The arguments passed on\<close>

lemma map_filter_render:
  assumes "\<And>a. a \<in> set as \<Longrightarrow> f a = (if P a then Some (vs_render a) else None)"
  shows "List.map_filter f as = map vs_render (filter P as)"
  using assms by (induction as) (auto simp: map_filter_simps)

lemma vs_compile_arg_render: "vs_compile_arg makes_pch a = (if scoped_arg (vs_compile_scope makes_pch) a then Some (vs_render a) else None)"
  by (cases a) auto


section \<open>A run\<close>

definition sample_child :: child where
  "sample_child = \<lparr>ch_status = Some 0, ch_stdout = [Data (ascii ''int x;'')], ch_stderr = []\<rparr>"

definition sample_vs_host :: vs_host where
  "sample_vs_host = \<lparr>vsh_run = (\<lambda>_ _ fs. (Inr sample_child, fs)), vsh_junk = (\<lambda>_. 0), vsh_ansi = Inr, vsh_uuid = ''u'',
     vsh_now = 1, vsh_temp = ''/t'', vsh_env = (\<lambda>_. None), vsh_regex = (\<lambda>d. d)\<rparr>"

definition sample_plain_task :: compilation_task where
  "sample_plain_task = sample_task\<lparr>ct_shared := (ct_shared sample_task)\<lparr>ca_input_precompiled := None\<rparr>\<rparr>"

lemma vs_preprocess_step_content_witness:
  "\<exists>ms. vs_preprocess_step sample_vs_host sample_plain_task statistic_new Map.empty = (Inr (Success ms), statistic_new, Map.empty) \<and>
     ms_inv ms \<and> ms_content ms = ascii ''int x;''"
  using vs_preprocess_step_content [of sample_vs_host sample_plain_task Map.empty sample_child Map.empty statistic_new]
  by (simp add: sample_vs_host_def sample_child_def clean_child_def ascii_def sample_plain_task_def sample_task_def)

lemma vs_compile_step_runs_witness:
  "\<exists>step. vs_compile_prepare_step sample_task ms_new = Inr step \<and>
    snd (snd (vs_compile_step sample_vs_host ''/cl'' step statistic_new Map.empty)) = Map.empty"
  using vs_compile_step_runs [OF sample_tasks [of Unix "\<lambda>_. Inl not_found" Map.empty], of "''/w''" sample_task ms_new
      sample_vs_host "''/cl''" statistic_new Map.empty]
  by (auto simp: sample_cl_def is_absolute_def sample_vs_host_def Let_def fun_eq_iff)


end
