(* ===== verification/Worker.thy ===== *)
theory Worker
  imports Toolchain "HOL-Library.Multiset"
begin

text \<open>
  \<open>src/worker.rs\<close>: the build graph, the check that it has no cycle, and the execution of its tasks on
  worker threads.

  The graph type is the crate \<open>petgraph\<close>'s: here its node weights and the two neighbour functions the
  code calls, for which \<open>graph_ok\<close> is what a directed graph promises. The threads and the two channels
  are a step relation (\<open>step\<close>): a worker takes a task, a worker finishes one, the main thread receives a
  result. Which results a task can have is a parameter (\<open>outcome\<close>), and so is the progress callback.
\<close>

section \<open>Graphs\<close>

record 'n graph =
  node_weights :: "'n list"
  outgoing :: "nat \<Rightarrow> nat list"
  incoming :: "nat \<Rightarrow> nat list"

definition node_count :: "'n graph \<Rightarrow> nat" where
  "node_count g = length (node_weights g)"

definition externals :: "'n graph \<Rightarrow> nat list" where
  "externals g = filter (\<lambda>i. outgoing g i = []) [0..<node_count g]"

text \<open>Every edge is seen from both ends, as often, and its ends are nodes.\<close>

definition graph_ok :: "'n graph \<Rightarrow> bool" where
  "graph_ok g \<longleftrightarrow>
     (\<forall>i j. count (mset (outgoing g i)) j = count (mset (incoming g j)) i) \<and>
     (\<forall>i. \<forall>j \<in> set (outgoing g i). i < node_count g \<and> j < node_count g)"

text \<open>No two edges between the same nodes.\<close>

definition simple_graph :: "'n graph \<Rightarrow> bool" where
  "simple_graph g \<longleftrightarrow> (\<forall>i. distinct (outgoing g i))"

definition edges :: "'n graph \<Rightarrow> (nat \<times> nat) set" where
  "edges g = {(i, j). j \<in> set (outgoing g i)}"

section \<open>Tasks\<close>

datatype build_action =
    Empty
  | Exec command_info "string list"
  | Compilation toolchain compilation_task

record build_task =
  bt_title :: string
  bt_action :: build_action

text \<open>\<open>BuildAction::create_tasks\<close>: a command the compiler cannot handle is run as it is.\<close>

definition build_create_tasks :: "compiler \<Rightarrow> command_info \<Rightarrow> string list \<Rightarrow> build_action list" where
  "build_create_tasks cp command args =
     (let actions = (case create_tasks cp command args of
            Inr tasks \<Rightarrow> map (\<lambda>(tc, task). Compilation tc task) tasks
          | Inl _ \<Rightarrow> [])
      in if actions = [] then [Exec command args] else actions)"

text \<open>\<open>spawn\<close> runs a command: \<open>Command::output\<close>.\<close>

definition execute_compiler ::
    "'e host_env \<Rightarrow> (process_command \<Rightarrow> statistic \<Rightarrow> filesystem \<Rightarrow> output_info result \<times> statistic \<times> filesystem) \<Rightarrow>
     build_task \<Rightarrow> shared_state \<Rightarrow> output_info result \<times> shared_state" where
  "execute_compiler h spawn task st =
     (case bt_action task of
        Empty \<Rightarrow> (Inr \<lparr>oi_status = Some 0, oi_stdout = [], oi_stderr = []\<rparr>, st)
      | Exec command args \<Rightarrow>
          let (res, stat, fs) = spawn ((to_command command)\<lparr>pc_args := args\<rparr>) (ss_stat st) (ss_fs st)
          in (res, st\<lparr>ss_stat := stat, ss_fs := fs\<rparr>)
      | Compilation tc ctask \<Rightarrow> compile_task h tc ctask st)"

section \<open>Validation\<close>

text \<open>Reading a flag of the vector \<open>completed\<close>, which panics out of range.\<close>

definition get_flag :: "bool list \<Rightarrow> nat \<Rightarrow> bool result" where
  "get_flag completed i =
     (if i < length completed then Inr (completed ! i) else Inl (Panic ''index out of bounds''))"

fun all_completed :: "bool list \<Rightarrow> nat list \<Rightarrow> bool result" where
  "all_completed completed [] = Inr True"
| "all_completed completed (j # js) =
     rbind (get_flag completed j) (\<lambda>b. if b then all_completed completed js else Inr False)"

definition is_ready :: "'n graph \<Rightarrow> bool list \<Rightarrow> nat \<Rightarrow> bool result" where
  "is_ready g completed source = all_completed completed (outgoing g source)"

lemma get_flag_False: "get_flag completed i = Inr False \<Longrightarrow> i < length completed \<and> \<not> completed ! i"
  by (auto simp: get_flag_def split: if_splits)

lemma complete_fewer:
  "i < length completed \<Longrightarrow> \<not> completed ! i \<Longrightarrow>
     length (filter Not (completed[i := True])) < length (filter Not completed)"
proof (induction completed arbitrary: i)
  case (Cons c cs)
  then show ?case by (cases i) auto
qed simp

text \<open>The loop of \<open>validate_graph\<close>: \<open>pending\<close> is the part of the queue behind the position \<open>i\<close>.\<close>

function validate_loop :: "'n graph \<Rightarrow> bool list \<Rightarrow> nat \<Rightarrow> nat list \<Rightarrow> unit result" where
  "validate_loop g completed cnt [] = Inl (IoError InvalidInput ''Found cycles in build dependencies'')"
| "validate_loop g completed cnt (index # pending) =
     rbind (get_flag completed index) (\<lambda>seen.
       if seen then validate_loop g completed cnt pending
       else rbind (is_ready g completed index) (\<lambda>ready.
         if \<not> ready then validate_loop g completed cnt pending
         else if cnt + 1 = length completed then Inr ()
         else validate_loop g (completed[index := True]) (cnt + 1) (pending @ incoming g index)))"
  by pat_completeness auto
termination
  by (relation "measures [\<lambda>(g, completed, cnt, pending). length (filter Not completed),
      \<lambda>(g, completed, cnt, pending). length pending]")
    (auto dest!: get_flag_False complete_fewer)

definition validate_graph :: "'n graph \<Rightarrow> 'n graph result" where
  "validate_graph g =
     (if node_count g = 0 then Inr g
      else rbind (validate_loop g (replicate (node_count g) False) 0 [0..<node_count g]) (\<lambda>_. Inr g))"

section \<open>Execution\<close>

record result_message =
  rm_index :: nat
  rm_worker :: nat
  rm_result :: "output_info result"

text \<open>\<open>BuildResult\<close>, as the progress callback sees it.\<close>

record 'n build_result =
  br_task :: 'n
  br_worker :: nat
  br_result :: "output_info result"
  br_completed :: nat
  br_total :: nat

definition build_result_new :: "'n graph \<Rightarrow> result_message \<Rightarrow> nat \<Rightarrow> 'n build_result" where
  "build_result_new g m completed =
     \<lparr>br_task = node_weights g ! rm_index m, br_worker = rm_worker m, br_result = rm_result m,
      br_completed = completed, br_total = node_count g\<rparr>"

text \<open>Where the main thread is: waiting for results, emptying the task queue, waiting for the tasks in
  progress, or done; \<open>r\<close> is what \<open>execute_until_failed\<close> has returned.\<close>

type_synonym exit_result = "int option result"

datatype phase = Running | Cleanup exit_result | Draining exit_result | Finished exit_result

record system =
  sy_tasks :: "nat list"
  sy_busy :: "nat option list"
  sy_results :: "result_message list"
  sy_completed :: "bool list"
  sy_count :: nat
  sy_phase :: phase
  sy_started :: "nat list"

text \<open>\<open>sy_started\<close> is the history of the tasks workers have taken.\<close>

text \<open>The sources of a completed node that are ready now, in the order they are sent.\<close>

fun ready_sources :: "'n graph \<Rightarrow> bool list \<Rightarrow> nat list \<Rightarrow> nat list result" where
  "ready_sources g completed [] = Inr []"
| "ready_sources g completed (s # ss) =
     rbind (is_ready g completed s) (\<lambda>ready.
     rbind (ready_sources g completed ss) (\<lambda>rs. Inr (if ready then s # rs else rs)))"

text \<open>The body of the loop of \<open>execute_until_failed\<close> for one message: the new counters and either the
  tasks to send (the loop goes on) or the value it returns.\<close>

definition handle_message ::
    "'n graph \<Rightarrow> ('n build_result \<Rightarrow> unit result) \<Rightarrow> bool list \<Rightarrow> nat \<Rightarrow> result_message \<Rightarrow>
     bool list \<times> nat \<times> nat list \<times> exit_result option" where
  "handle_message g update completed cnt m =
     (let i = rm_index m in
      case get_flag completed i of
        Inl e \<Rightarrow> (completed, cnt, [], Some (Inl e))
      | Inr True \<Rightarrow> (completed, cnt, [], Some (Inl (Panic ''assertion failed: !completed[message.index.index()]'')))
      | Inr False \<Rightarrow>
          (case rbind (update (build_result_new g m (cnt + 1))) (\<lambda>_. rm_result m) of
             Inl e \<Rightarrow> (completed, cnt + 1, [], Some (Inl e))
           | Inr out \<Rightarrow>
               if \<not> success out then (completed, cnt + 1, [], Some (Inr (oi_status out)))
               else
                 let completed' = completed[i := True]
                 in case ready_sources g completed' (incoming g i) of
                      Inl e \<Rightarrow> (completed', cnt + 1, [], Some (Inl e))
                    | Inr sources \<Rightarrow>
                        (completed', cnt + 1, sources,
                         if cnt + 1 = length completed then Some (Inr (Some 0)) else None)))"

definition receive :: "'n graph \<Rightarrow> ('n build_result \<Rightarrow> unit result) \<Rightarrow> result_message \<Rightarrow> system \<Rightarrow> system" where
  "receive g update m s =
     (let (completed, cnt, sources, res) = handle_message g update (sy_completed s) (sy_count s) m
      in s\<lparr>sy_completed := completed, sy_count := cnt, sy_tasks := sy_tasks s @ sources,
           sy_results := tl (sy_results s),
           sy_phase := (case res of None \<Rightarrow> Running | Some r \<Rightarrow> Cleanup r)\<rparr>)"

definition system_init :: "'n graph \<Rightarrow> nat \<Rightarrow> system" where
  "system_init g workers =
     \<lparr>sy_tasks = externals g, sy_busy = replicate workers None, sy_results = [],
      sy_completed = replicate (node_count g) False, sy_count = 0, sy_phase = Running, sy_started = []\<rparr>"

text \<open>One step of a thread. \<open>outcome\<close> holds of the results a task may have.\<close>

inductive step ::
    "'n graph \<Rightarrow> ('n \<Rightarrow> output_info result \<Rightarrow> bool) \<Rightarrow> ('n build_result \<Rightarrow> unit result) \<Rightarrow> system \<Rightarrow> system \<Rightarrow> bool"
  for g outcome update where
  take_task:
    "w < length (sy_busy s) \<Longrightarrow> sy_busy s ! w = None \<Longrightarrow> sy_tasks s = t # ts \<Longrightarrow>
     step g outcome update s
       (s\<lparr>sy_tasks := ts, sy_busy := (sy_busy s)[w := Some t], sy_started := sy_started s @ [t]\<rparr>)"
| finish_task:
    "w < length (sy_busy s) \<Longrightarrow> sy_busy s ! w = Some t \<Longrightarrow> outcome (node_weights g ! t) r \<Longrightarrow>
     step g outcome update s
       (s\<lparr>sy_busy := (sy_busy s)[w := None],
          sy_results := sy_results s @ [\<lparr>rm_index = t, rm_worker = w, rm_result = r\<rparr>]\<rparr>)"
| receive_result:
    "sy_phase s = Running \<Longrightarrow> sy_results s = m # ms \<Longrightarrow> step g outcome update s (receive g update m s)"
| clear_task:
    "sy_phase s = Cleanup r \<Longrightarrow> sy_tasks s = t # ts \<Longrightarrow> step g outcome update s (s\<lparr>sy_tasks := ts\<rparr>)"
| clear_end:
    "sy_phase s = Cleanup r \<Longrightarrow> sy_tasks s = [] \<Longrightarrow> step g outcome update s (s\<lparr>sy_phase := Draining r\<rparr>)"
| drain_result:
    "sy_phase s = Draining r \<Longrightarrow> sy_results s = m # ms \<Longrightarrow>
     step g outcome update s
       (s\<lparr>sy_results := ms, sy_count := sy_count s + 1,
          sy_phase := (case update (build_result_new g m (sy_count s + 1)) of
             Inl e \<Rightarrow> Finished (Inl e) | Inr _ \<Rightarrow> Draining r)\<rparr>)"
| drain_end:
    "sy_phase s = Draining r \<Longrightarrow> sy_results s = [] \<Longrightarrow> \<forall>b \<in> set (sy_busy s). b = None \<Longrightarrow>
     step g outcome update s (s\<lparr>sy_phase := Finished r\<rparr>)"

inductive reachable ::
    "'n graph \<Rightarrow> ('n \<Rightarrow> output_info result \<Rightarrow> bool) \<Rightarrow> ('n build_result \<Rightarrow> unit result) \<Rightarrow> nat \<Rightarrow> system \<Rightarrow> bool"
  for g outcome update workers where
  init: "reachable g outcome update workers (system_init g workers)"
| more: "reachable g outcome update workers s \<Longrightarrow> step g outcome update s s' \<Longrightarrow>
    reachable g outcome update workers s'"

text \<open>\<open>execute_graph\<close>, up to the threads: small graphs are handled at once, larger ones start the
  system with that many workers.\<close>

datatype 'n execution = Returned exit_result | Started "'n graph" nat system

definition execute_graph ::
    "('n \<Rightarrow> output_info result) \<Rightarrow> ('n build_result \<Rightarrow> unit result) \<Rightarrow> 'n graph \<Rightarrow> nat \<Rightarrow> 'n execution" where
  "execute_graph execute update build_graph process_limit =
     (case validate_graph build_graph of
        Inl e \<Rightarrow> Returned (Inl e)
      | Inr g \<Rightarrow>
          if node_count g = 0 then Returned (Inr (Some 0))
          else if node_count g = 1 then
            let task = node_weights g ! 0; r = execute task
            in Returned (rbind (update \<lparr>br_task = task, br_worker = 0, br_result = r, br_completed = 1, br_total = 1\<rparr>)
                 (\<lambda>_. rbind r (\<lambda>out. Inr (oi_status out))))
          else let workers = max 1 (min process_limit (node_count g))
               in Started g workers (system_init g workers))"

end
