(* ===== verification/Petgraph.thy ===== *)
theory Petgraph
  imports Worker
begin

text \<open>
  Building a graph. The crate \<open>petgraph\<close> is not part of the sources: a graph under construction is the
  log of the calls of \<open>add_node\<close> and \<open>add_edge\<close>, and the graph the other operations see is a
  parameter \<open>view\<close> of that log, of which \<open>graph_view\<close> states what the crate documents: nodes are
  numbered in the order they are added, and the neighbours of a node are the ends of its edges, in
  some order.
\<close>

record 'n graph_log =
  gl_nodes :: "'n list"
  gl_edges :: "(nat \<times> nat) list"

definition log_new :: "'n graph_log" where
  "log_new = \<lparr>gl_nodes = [], gl_edges = []\<rparr>"

text \<open>\<open>add_node\<close> returns the index of the node.\<close>

definition log_node :: "'n \<Rightarrow> 'n graph_log \<Rightarrow> nat \<times> 'n graph_log" where
  "log_node n g = (length (gl_nodes g), g\<lparr>gl_nodes := gl_nodes g @ [n]\<rparr>)"

definition log_edge :: "nat \<Rightarrow> nat \<Rightarrow> 'n graph_log \<Rightarrow> 'n graph_log" where
  "log_edge a b g = g\<lparr>gl_edges := gl_edges g @ [(a, b)]\<rparr>"

text \<open>Edges join nodes that exist (\<open>add_edge\<close> panics otherwise), and no two join the same nodes.\<close>

definition log_ok :: "'n graph_log \<Rightarrow> bool" where
  "log_ok g \<longleftrightarrow> (\<forall>(a, b) \<in> set (gl_edges g). a < length (gl_nodes g) \<and> b < length (gl_nodes g))"

definition log_simple :: "'n graph_log \<Rightarrow> bool" where
  "log_simple g \<longleftrightarrow> distinct (gl_edges g)"

definition graph_view :: "('n graph_log \<Rightarrow> 'n graph) \<Rightarrow> bool" where
  "graph_view view \<longleftrightarrow>
     (\<forall>g. log_ok g \<longrightarrow>
       node_weights (view g) = gl_nodes g \<and>
       (\<forall>i. mset (outgoing (view g) i) = mset (map snd (filter (\<lambda>e. fst e = i) (gl_edges g)))) \<and>
       (\<forall>i. mset (incoming (view g) i) = mset (map fst (filter (\<lambda>e. snd e = i) (gl_edges g)))))"

text \<open>One view, with neighbours in the order of the calls.\<close>

definition list_view :: "'n graph_log \<Rightarrow> 'n graph" where
  "list_view g =
     \<lparr>node_weights = gl_nodes g,
      outgoing = (\<lambda>i. map snd (filter (\<lambda>e. fst e = i) (gl_edges g))),
      incoming = (\<lambda>i. map fst (filter (\<lambda>e. snd e = i) (gl_edges g)))\<rparr>"

lemma list_view_ok: "graph_view list_view"
  by (simp add: graph_view_def list_view_def)

section \<open>What a view shows\<close>

lemma view_nodes: "graph_view view \<Longrightarrow> log_ok g \<Longrightarrow> node_weights (view g) = gl_nodes g"
  by (simp add: graph_view_def)

lemma view_count: "graph_view view \<Longrightarrow> log_ok g \<Longrightarrow> node_count (view g) = length (gl_nodes g)"
  by (simp add: node_count_def view_nodes)

lemma view_outgoing_mset:
  "graph_view view \<Longrightarrow> log_ok g \<Longrightarrow> mset (outgoing (view g) i) = mset (map snd (filter (\<lambda>e. fst e = i) (gl_edges g)))"
  by (simp add: graph_view_def)

lemma view_outgoing:
  assumes "graph_view view" "log_ok g"
  shows "set (outgoing (view g) i) = {j. (i, j) \<in> set (gl_edges g)}"
proof -
  have "set (outgoing (view g) i) = set (map snd (filter (\<lambda>e. fst e = i) (gl_edges g)))"
    using view_outgoing_mset [OF assms] by (rule mset_eq_setD)
  then show ?thesis by force
qed

lemma view_edges: "graph_view view \<Longrightarrow> log_ok g \<Longrightarrow> edges (view g) = set (gl_edges g)"
  by (auto simp: edges_def view_outgoing)

lemma count_filter_ends:
  "count (mset (map snd (filter (\<lambda>e. fst e = i) es))) j = count (mset es) (i, j)"
  "count (mset (map fst (filter (\<lambda>e. snd e = j) es))) i = count (mset es) (i, j)"
  by (induction es) auto

lemma view_graph_ok:
  assumes "graph_view view" "log_ok g"
  shows "graph_ok (view g)"
proof -
  have "count (mset (outgoing (view g) i)) j = count (mset (incoming (view g) j)) i" for i j
    using assms count_filter_ends(1) [of i "gl_edges g" j] count_filter_ends(2) [of j "gl_edges g" i] by (simp add: graph_view_def del: mset_map mset_filter)
  moreover have "i < node_count (view g) \<and> j < node_count (view g)" if "j \<in> set (outgoing (view g) i)" for i j
    using that assms by (auto simp: view_outgoing view_count log_ok_def)
  ultimately show ?thesis by (auto simp: graph_ok_def)
qed

lemma view_simple:
  assumes "graph_view view" "log_ok g" "log_simple g"
  shows "simple_graph (view g)"
proof -
  have "distinct (map snd (filter (\<lambda>e. fst e = i) (gl_edges g)))" for i
    using assms(3) by (auto simp: log_simple_def distinct_map inj_on_def prod_eq_iff)
  then show ?thesis
    unfolding simple_graph_def using view_outgoing_mset [OF assms(1,2)] by (metis mset_eq_imp_distinct_iff)
qed

end
