(* ===== verification/Xg_Parser.thy ===== *)
theory Xg_Parser
  imports Petgraph Prepare "HOL-Library.AList"
begin

text \<open>
  \<open>src/xg/parser.rs\<close>: the build description of XGE, an XML document with environments (variables and
  tools) and projects (tasks with dependencies), becomes a graph of commands.

  The XML reader (crate \<open>xml\<close>) is the list of what its calls will return; past its end it fails. The
  order in which a \<open>HashMap\<close> is iterated is a parameter.
\<close>

section \<open>Data\<close>

record xg_node =
  xn_title :: string
  xn_command :: command_info
  xn_args :: "string list"

datatype xg_parse_error =
    AttributeNotFound string
  | EnvironmentNotFound string
  | ToolNotFound string
  | DependencyNotFound string
  | InvalidStreamFormat
  | EndOfStream
  | XmlError string

text \<open>Three messages begin with the Cyrillic letter that looks like \<open>c\<close>, as in the source.\<close>

fun xg_error_display :: "xg_parse_error \<Rightarrow> string" where
  "xg_error_display (AttributeNotFound attr) = ''attribute not found: '' @ attr"
| "xg_error_display (EnvironmentNotFound i) = [CHR 0xD1, CHR 0x81] @ ''an't find environment with id: '' @ i"
| "xg_error_display (ToolNotFound i) = [CHR 0xD1, CHR 0x81] @ ''an't find tool with id: '' @ i"
| "xg_error_display (DependencyNotFound i) = [CHR 0xD1, CHR 0x81] @ ''an't find task for dependency with id: '' @ i"
| "xg_error_display InvalidStreamFormat = ''unexpected XML-stream root element''"
| "xg_error_display EndOfStream = ''unexpended end of stream''"
| "xg_error_display (XmlError e) = ''xml reading error: '' @ e"

definition xg_failure :: "xg_parse_error \<Rightarrow> failure" where
  "xg_failure e = IoError InvalidInput (xg_error_display e)"

record xg_tool =
  xo_exec :: path
  xo_args :: string
  xo_output :: "string option"

record xg_environment =
  xe_variables :: command_env
  xe_tools :: "string \<rightharpoonup> xg_tool"

record xg_task =
  xt_title :: "string option"
  xt_tool :: string
  xt_working_dir :: path
  xt_depends_on :: "string list"

record xg_project =
  xp_env :: string
  xp_tasks :: "(string \<times> xg_task) list"

section \<open>Events\<close>

datatype xml_event = StartElement string "(string \<times> string) list" | EndElement | OtherEvent

type_synonym events = "(string + xml_event) list"

definition next_xml_event :: "events \<Rightarrow> (xml_event \<times> events) result" where
  "next_xml_event es =
     (case es of
        [] \<Rightarrow> Inl (xg_failure (XmlError ''end of stream''))
      | Inl e # rest \<Rightarrow> Inl (xg_failure (XmlError e))
      | Inr ev # rest \<Rightarrow> Inr (ev, rest))"

lemma next_xml_event_shorter: "next_xml_event es = Inr (ev, rest) \<Longrightarrow> length rest < length es"
  by (auto simp: next_xml_event_def split: list.splits sum.splits)

type_synonym attributes = "string \<rightharpoonup> string"

text \<open>A later attribute replaces an earlier one of its name.\<close>

definition map_attributes :: "(string \<times> string) list \<Rightarrow> attributes" where
  "map_attributes as = map_of (rev as)"

definition take_attr :: "attributes \<Rightarrow> string \<Rightarrow> (string \<times> attributes) result" where
  "take_attr attrs attr =
     (case attrs attr of
        None \<Rightarrow> Inl (xg_failure (AttributeNotFound attr))
      | Some v \<Rightarrow> Inr (v, attrs(attr := None)))"

section \<open>Elements\<close>

text \<open>\<open>parse_skip\<close> with its depth.\<close>

function parse_skip :: "nat \<Rightarrow> events \<Rightarrow> events result" where
  "parse_skip depth es =
     rbind (next_xml_event es) (\<lambda>(ev, rest).
       case ev of
         StartElement _ _ \<Rightarrow> parse_skip (depth + 1) rest
       | EndElement \<Rightarrow> if depth = 0 then Inr rest else parse_skip (depth - 1) rest
       | OtherEvent \<Rightarrow> parse_skip depth rest)"
  by pat_completeness auto
termination by (relation "measure (\<lambda>(d, es). length es)") (auto dest: next_xml_event_shorter)

declare parse_skip.simps [simp del]

lemma parse_skip_shorter: "parse_skip depth es = Inr rest \<Longrightarrow> length rest < length es"
proof (induction depth es rule: parse_skip.induct)
  case (1 depth es)
  obtain ev r where ev: "next_xml_event es = Inr (ev, r)"
    using 1(4) parse_skip.simps [of depth es] by (auto simp: rbind_eq_Inr)
  then have r: "length r < length es" by (rule next_xml_event_shorter)
  show ?case
    using 1 ev r parse_skip.simps [of depth es]
    by (cases ev) (fastforce split: if_splits dest: order.strict_trans)+
qed

function parse_variables :: "host \<Rightarrow> events \<Rightarrow> command_env \<Rightarrow> (command_env \<times> events) result" where
  "parse_variables h es variables =
     rbind (next_xml_event es) (\<lambda>(ev, rest).
       case ev of
         StartElement name attributes \<Rightarrow>
           rbind (if name = ''Variable'' then
                    rbind (take_attr (map_attributes attributes) ''Name'') (\<lambda>(n, attrs).
                    rbind (take_attr attrs ''Value'') (\<lambda>(v, _). Inr (snd (env_insert h n v variables))))
                  else Inr variables) (\<lambda>variables'.
           rbind (parse_skip 0 rest) (\<lambda>rest'. parse_variables h rest' variables'))
       | EndElement \<Rightarrow> Inr (variables, rest)
       | OtherEvent \<Rightarrow> parse_variables h rest variables)"
  by pat_completeness auto
termination
  by (relation "measure (\<lambda>(h, es, v). length es)") (auto dest!: next_xml_event_shorter parse_skip_shorter)

declare parse_variables.simps [simp del]

function parse_tools :: "events \<Rightarrow> (string \<rightharpoonup> xg_tool) \<Rightarrow> ((string \<rightharpoonup> xg_tool) \<times> events) result" where
  "parse_tools es tools =
     rbind (next_xml_event es) (\<lambda>(ev, rest).
       case ev of
         StartElement name attributes \<Rightarrow>
           rbind (if name = ''Tool'' then
                    rbind (take_attr (map_attributes attributes) ''Name'') (\<lambda>(n, attrs).
                    rbind (take_attr attrs ''Path'') (\<lambda>(exec, attrs).
                      Inr (tools(n \<mapsto> \<lparr>xo_exec = exec,
                        xo_args = (case attrs ''Params'' of Some a \<Rightarrow> a | None \<Rightarrow> []), xo_output = attrs ''OutputPrefix''\<rparr>))))
                  else Inr tools) (\<lambda>tools'.
           rbind (parse_skip 0 rest) (\<lambda>rest'. parse_tools rest' tools'))
       | EndElement \<Rightarrow> Inr (tools, rest)
       | OtherEvent \<Rightarrow> parse_tools rest tools)"
  by pat_completeness auto
termination
  by (relation "measure (\<lambda>(es, t). length es)") (auto dest!: next_xml_event_shorter parse_skip_shorter)

declare parse_tools.simps [simp del]

lemma parse_variables_shorter: "parse_variables h es v = Inr (v', rest) \<Longrightarrow> length rest < length es"
proof (induction h es v rule: parse_variables.induct)
  case (1 h es v)
  obtain ev r where ev: "next_xml_event es = Inr (ev, r)"
    using 1(3) parse_variables.simps [of h es v] by (auto simp: rbind_eq_Inr)
  note r = next_xml_event_shorter [OF ev]
  show ?case
  proof (cases ev)
    case (StartElement name as)
    then obtain v1 r1 where p: "parse_skip 0 r = Inr r1" "parse_variables h r1 v1 = Inr (v', rest)"
      using 1(3) ev parse_variables.simps [of h es v] by (auto simp: rbind_eq_Inr)
    have "length rest < length r1"
      using 1(3) ev StartElement p parse_variables.simps [of h es v] 1(1) [OF ev refl StartElement _ p(1)]
      by (auto simp: rbind_eq_Inr)
    then show ?thesis using r parse_skip_shorter [OF p(1)] by simp
  next
    case EndElement
    then show ?thesis using 1(3) ev r parse_variables.simps [of h es v] by simp
  next
    case OtherEvent
    then show ?thesis using 1(3) 1(2) [OF ev refl OtherEvent] ev r parse_variables.simps [of h es v] by simp
  qed
qed

lemma parse_tools_shorter: "parse_tools es t = Inr (t', rest) \<Longrightarrow> length rest < length es"
proof (induction es t rule: parse_tools.induct)
  case (1 es t)
  obtain ev r where ev: "next_xml_event es = Inr (ev, r)"
    using 1(3) parse_tools.simps [of es t] by (auto simp: rbind_eq_Inr)
  note r = next_xml_event_shorter [OF ev]
  show ?case
  proof (cases ev)
    case (StartElement name as)
    then obtain t1 r1 where p: "parse_skip 0 r = Inr r1" "parse_tools r1 t1 = Inr (t', rest)"
      using 1(3) ev parse_tools.simps [of es t] by (auto simp: rbind_eq_Inr)
    have "length rest < length r1"
      using 1(3) ev StartElement p parse_tools.simps [of es t] 1(1) [OF ev refl StartElement _ p(1)]
      by (auto simp: rbind_eq_Inr)
    then show ?thesis using r parse_skip_shorter [OF p(1)] by simp
  next
    case EndElement
    then show ?thesis using 1(3) ev r parse_tools.simps [of es t] by simp
  next
    case OtherEvent
    then show ?thesis using 1(3) 1(2) [OF ev refl OtherEvent] ev r parse_tools.simps [of es t] by simp
  qed
qed

text \<open>The loop of \<open>parse_environment\<close>, which starts from the variables of the process.\<close>

function parse_environment_loop ::
    "host \<Rightarrow> events \<Rightarrow> command_env \<Rightarrow> (string \<rightharpoonup> xg_tool) \<Rightarrow> (xg_environment \<times> events) result" where
  "parse_environment_loop h es variables tools =
     rbind (next_xml_event es) (\<lambda>(ev, rest).
       case ev of
         StartElement name attributes \<Rightarrow>
           if name = ''Variables'' then
             rbind (parse_variables h rest variables) (\<lambda>(v, rest'). parse_environment_loop h rest' v tools)
           else if name = ''Tools'' then
             rbind (parse_tools rest tools) (\<lambda>(t, rest'). parse_environment_loop h rest' variables t)
           else rbind (parse_skip 0 rest) (\<lambda>rest'. parse_environment_loop h rest' variables tools)
       | EndElement \<Rightarrow> Inr (\<lparr>xe_variables = variables, xe_tools = tools\<rparr>, rest)
       | OtherEvent \<Rightarrow> parse_environment_loop h rest variables tools)"
  by pat_completeness auto
termination
  by (relation "measure (\<lambda>(h, es, v, t). length es)")
    (auto dest!: next_xml_event_shorter parse_skip_shorter parse_variables_shorter parse_tools_shorter)

declare parse_environment_loop.simps [simp del]

definition parse_environment :: "host \<Rightarrow> (string \<times> string) list \<Rightarrow> events \<Rightarrow> (xg_environment \<times> events) result" where
  "parse_environment h vars es = parse_environment_loop h es (env_from_iter h vars) Map.empty"

lemma parse_environment_loop_shorter: "parse_environment_loop h es v t = Inr (e, rest) \<Longrightarrow> length rest < length es"
proof (induction h es v t rule: parse_environment_loop.induct)
  case (1 h es v t)
  obtain ev r where ev: "next_xml_event es = Inr (ev, r)"
    using 1(5) parse_environment_loop.simps [of h es v t] by (auto simp: rbind_eq_Inr)
  note r = next_xml_event_shorter [OF ev]
  show ?case
  proof (cases ev)
    case (StartElement name as)
    consider "name = ''Variables''" | "name \<noteq> ''Variables''" "name = ''Tools''" | "name \<noteq> ''Variables''" "name \<noteq> ''Tools''"
      by blast
    then show ?thesis
    proof cases
      case 1
      then obtain v1 r1 where "parse_variables h r v = Inr (v1, r1)" "parse_environment_loop h r1 v1 t = Inr (e, rest)"
        using 1 "1.prems" ev StartElement parse_environment_loop.simps [of h es v t] by (auto simp: rbind_eq_Inr)
      then show ?thesis
        using "1.IH"(1) [OF ev refl StartElement 1 _ refl] parse_variables_shorter r by fastforce
    next
      case 2
      then obtain t1 r1 where "parse_tools r t = Inr (t1, r1)" "parse_environment_loop h r1 v t1 = Inr (e, rest)"
        using "1.prems" ev StartElement parse_environment_loop.simps [of h es v t] by (auto simp: rbind_eq_Inr)
      then show ?thesis
        using "1.IH"(2) [OF ev refl StartElement 2(1) 2(2) _ refl] parse_tools_shorter r by fastforce
    next
      case 3
      then obtain r1 where "parse_skip 0 r = Inr r1" "parse_environment_loop h r1 v t = Inr (e, rest)"
        using "1.prems" ev StartElement parse_environment_loop.simps [of h es v t] by (auto simp: rbind_eq_Inr)
      then show ?thesis
        using "1.IH"(3) [OF ev refl StartElement 3(1) 3(2)] parse_skip_shorter r by fastforce
    qed
  next
    case EndElement
    then show ?thesis using 1(5) ev r parse_environment_loop.simps [of h es v t] by simp
  next
    case OtherEvent
    then show ?thesis using 1(5) 1(4) [OF ev refl OtherEvent] ev r parse_environment_loop.simps [of h es v t] by simp
  qed
qed

function parse_environments ::
    "host \<Rightarrow> (string \<times> string) list \<Rightarrow> events \<Rightarrow> (string \<rightharpoonup> xg_environment) \<Rightarrow>
     ((string \<rightharpoonup> xg_environment) \<times> events) result" where
  "parse_environments h vars es envs =
     rbind (next_xml_event es) (\<lambda>(ev, rest).
       case ev of
         StartElement name attributes \<Rightarrow>
           if name = ''Environment'' then
             rbind (take_attr (map_attributes attributes) ''Name'') (\<lambda>(n, _).
             rbind (parse_environment h vars rest) (\<lambda>(env, rest'). parse_environments h vars rest' (envs(n \<mapsto> env))))
           else rbind (parse_skip 0 rest) (\<lambda>rest'. parse_environments h vars rest' envs)
       | EndElement \<Rightarrow> Inr (envs, rest)
       | OtherEvent \<Rightarrow> parse_environments h vars rest envs)"
  by pat_completeness auto
termination
  by (relation "measure (\<lambda>(h, vars, es, e). length es)")
    (auto simp: parse_environment_def dest!: next_xml_event_shorter parse_skip_shorter parse_environment_loop_shorter)

declare parse_environments.simps [simp del]

lemma parse_environments_shorter: "parse_environments h vars es envs = Inr (e, rest) \<Longrightarrow> length rest < length es"
proof (induction h vars es envs rule: parse_environments.induct)
  case (1 h vars es envs)
  obtain ev r where ev: "next_xml_event es = Inr (ev, r)"
    using 1(4) parse_environments.simps [of h vars es envs] by (auto simp: rbind_eq_Inr)
  note r = next_xml_event_shorter [OF ev]
  show ?case
  proof (cases ev)
    case (StartElement name as)
    show ?thesis
    proof (cases "name = ''Environment''")
      case True
      then obtain n as' env r1 where p: "take_attr (map_attributes as) ''Name'' = Inr (n, as')"
        "parse_environment h vars r = Inr (env, r1)" "parse_environments h vars r1 (envs(n \<mapsto> env)) = Inr (e, rest)"
        using 1(4) ev StartElement parse_environments.simps [of h vars es envs] by (auto simp: rbind_eq_Inr)
      have "length rest < length r1" using 1(1) [OF ev refl StartElement True p(1) refl p(2) refl] p(3) by blast
      then show ?thesis using p(2) parse_environment_loop_shorter r by (fastforce simp: parse_environment_def)
    next
      case False
      then obtain r1 where p: "parse_skip 0 r = Inr r1" "parse_environments h vars r1 envs = Inr (e, rest)"
        using 1(4) ev StartElement parse_environments.simps [of h vars es envs] by (auto simp: rbind_eq_Inr)
      then show ?thesis using 1(2) [OF ev refl StartElement False p(1)] parse_skip_shorter r by fastforce
    qed
  next
    case EndElement
    then show ?thesis using 1(4) ev r parse_environments.simps [of h vars es envs] by simp
  next
    case OtherEvent
    then show ?thesis using 1(4) 1(3) [OF ev refl OtherEvent] ev r parse_environments.simps [of h vars es envs] by simp
  qed
qed

section \<open>Projects\<close>

text \<open>\<open>hash_order\<close> is the order in which the dependencies, a \<open>HashSet\<close>, are iterated.\<close>

definition task_of :: "(string list \<Rightarrow> string list) \<Rightarrow> attributes \<Rightarrow> (string \<times> xg_task) result" where
  "task_of hash_order attrs =
     rbind (take_attr attrs ''Name'') (\<lambda>(name, attrs).
     rbind (take_attr attrs ''Tool'') (\<lambda>(tool, attrs).
     rbind (take_attr attrs ''WorkingDir'') (\<lambda>(working_dir, attrs).
       let depends_on = (case attrs ''DependsOn'' of Some v \<Rightarrow> remdups (split_char (CHR '';'') v) | None \<Rightarrow> [])
       in Inr (name, \<lparr>xt_title = attrs ''Caption'', xt_tool = tool, xt_working_dir = working_dir,
            xt_depends_on = hash_order depends_on\<rparr>))))"

function parse_tasks ::
    "(string list \<Rightarrow> string list) \<Rightarrow> events \<Rightarrow> (string \<times> xg_task) list \<Rightarrow> ((string \<times> xg_task) list \<times> events) result" where
  "parse_tasks hash_order es tasks =
     rbind (next_xml_event es) (\<lambda>(ev, rest).
       case ev of
         StartElement name attributes \<Rightarrow>
           rbind (if name = ''Task'' then
                    rbind (task_of hash_order (map_attributes attributes)) (\<lambda>(n, t). Inr (AList.update n t tasks))
                  else Inr tasks) (\<lambda>tasks'.
           rbind (parse_skip 0 rest) (\<lambda>rest'. parse_tasks hash_order rest' tasks'))
       | EndElement \<Rightarrow> Inr (tasks, rest)
       | OtherEvent \<Rightarrow> parse_tasks hash_order rest tasks)"
  by pat_completeness auto
termination
  by (relation "measure (\<lambda>(ord, es, t). length es)") (auto dest!: next_xml_event_shorter parse_skip_shorter)

declare parse_tasks.simps [simp del]

lemma parse_tasks_shorter: "parse_tasks ord es ts = Inr (ts', rest) \<Longrightarrow> length rest < length es"
proof (induction ord es ts rule: parse_tasks.induct)
  case (1 ord es ts)
  obtain ev r where ev: "next_xml_event es = Inr (ev, r)"
    using 1(3) parse_tasks.simps [of ord es ts] by (auto simp: rbind_eq_Inr)
  note r = next_xml_event_shorter [OF ev]
  show ?case
  proof (cases ev)
    case (StartElement name as)
    then obtain t1 r1 where p: "parse_skip 0 r = Inr r1" "parse_tasks ord r1 t1 = Inr (ts', rest)"
      using 1(3) ev parse_tasks.simps [of ord es ts] by (auto simp: rbind_eq_Inr)
    have "length rest < length r1"
      using 1(3) ev StartElement p parse_tasks.simps [of ord es ts] 1(1) [OF ev refl StartElement _ p(1)]
      by (auto simp: rbind_eq_Inr)
    then show ?thesis using r parse_skip_shorter [OF p(1)] by simp
  next
    case EndElement
    then show ?thesis using 1(3) ev r parse_tasks.simps [of ord es ts] by simp
  next
    case OtherEvent
    then show ?thesis using 1(3) 1(2) [OF ev refl OtherEvent] ev r parse_tasks.simps [of ord es ts] by simp
  qed
qed

section \<open>The graph\<close>

text \<open>The parameters of a run: the host, the variables of the process and the two hash orders.\<close>

record xg_host =
  xh_os :: host
  xh_vars :: "(string \<times> string) list"
  xh_deps :: "string list \<Rightarrow> string list"
  xh_tasks :: "(string \<times> xg_task) list \<Rightarrow> (string \<times> xg_task) list"

definition xg_host_ok :: "xg_host \<Rightarrow> bool" where
  "xg_host_ok x \<longleftrightarrow> (\<forall>ds. mset (xh_deps x ds) = mset ds) \<and> (\<forall>ts. mset (xh_tasks x ts) = mset ts)"

definition task_node :: "xg_host \<Rightarrow> xg_environment \<Rightarrow> xg_task \<Rightarrow> xg_node result" where
  "task_node x env task =
     (case xe_tools env (xt_tool task) of
        None \<Rightarrow> Inl (xg_failure (ToolNotFound (xt_tool task)))
      | Some tool \<Rightarrow>
          rbind (parse_native (xh_os x) (xo_args tool)) (\<lambda>args.
            Inr \<lparr>xn_title = (case xt_title task of Some v \<Rightarrow> v
                   | None \<Rightarrow> (case xo_output tool of None \<Rightarrow> [] | Some v \<Rightarrow> v)),
                 xn_command = \<lparr>cmd_program = xo_exec tool, cmd_dir = Some (xt_working_dir task), cmd_env = xe_variables env\<rparr>,
                 xn_args = args\<rparr>))"

text \<open>The first loop of \<open>graph_project\<close>: the nodes, and where the task of each name is.\<close>

fun add_task_nodes ::
    "xg_host \<Rightarrow> xg_environment \<Rightarrow> (string \<times> xg_task) list \<Rightarrow> xg_node graph_log \<Rightarrow> (string \<rightharpoonup> nat) \<Rightarrow>
     ((string \<rightharpoonup> nat) \<times> xg_node graph_log) result" where
  "add_task_nodes x env [] g refs = Inr (refs, g)"
| "add_task_nodes x env ((i, task) # ts) g refs =
     rbind (task_node x env task) (\<lambda>n.
       let (node, g') = log_node n g
       in add_task_nodes x env ts g' (refs(i \<mapsto> node)))"

text \<open>The second loop: the edges.\<close>

fun add_dependencies :: "(string \<rightharpoonup> nat) \<Rightarrow> nat \<Rightarrow> string list \<Rightarrow> xg_node graph_log \<Rightarrow> xg_node graph_log result" where
  "add_dependencies refs src [] g = Inr g"
| "add_dependencies refs src (d # ds) g =
     (case refs d of
        None \<Rightarrow> Inl (xg_failure (DependencyNotFound d))
      | Some dst \<Rightarrow> add_dependencies refs src ds (log_edge src dst g))"

fun add_task_edges :: "(string \<rightharpoonup> nat) \<Rightarrow> (string \<times> xg_task) list \<Rightarrow> xg_node graph_log \<Rightarrow> xg_node graph_log result" where
  "add_task_edges refs [] g = Inr g"
| "add_task_edges refs ((i, task) # ts) g =
     (case refs i of
        None \<Rightarrow> Inl (Panic ''called `Option::unwrap()` on a `None` value'')
      | Some src \<Rightarrow> rbind (add_dependencies refs src (xt_depends_on task) g) (add_task_edges refs ts))"

definition graph_project :: "xg_host \<Rightarrow> xg_environment \<Rightarrow> xg_project \<Rightarrow> xg_node graph_log \<Rightarrow> xg_node graph_log result" where
  "graph_project x env project g =
     (let tasks = xh_tasks x (xp_tasks project)
      in rbind (add_task_nodes x env tasks g Map.empty) (\<lambda>(refs, g'). add_task_edges refs tasks g'))"

fun parse_create_graph ::
    "xg_host \<Rightarrow> (string \<rightharpoonup> xg_environment) \<Rightarrow> xg_project list \<Rightarrow> xg_node graph_log \<Rightarrow> xg_node graph_log result" where
  "parse_create_graph x envs [] g = Inr g"
| "parse_create_graph x envs (project # ps) g =
     (case envs (xp_env project) of
        None \<Rightarrow> Inl (xg_failure (EnvironmentNotFound (xp_env project)))
      | Some env \<Rightarrow> rbind (graph_project x env project g) (parse_create_graph x envs ps))"

section \<open>The document\<close>

function parse_build_set_loop ::
    "xg_host \<Rightarrow> events \<Rightarrow> (string \<rightharpoonup> xg_environment) \<Rightarrow> xg_project list \<Rightarrow>
     ((string \<rightharpoonup> xg_environment) \<times> xg_project list) result" where
  "parse_build_set_loop x es envs projects =
     rbind (next_xml_event es) (\<lambda>(ev, rest).
       case ev of
         StartElement name attributes \<Rightarrow>
           if name = ''Environments'' then
             rbind (parse_environments (xh_os x) (xh_vars x) rest envs) (\<lambda>(envs', rest').
               parse_build_set_loop x rest' envs' projects)
           else if name = ''Project'' then
             rbind (take_attr (map_attributes attributes) ''Env'') (\<lambda>(env, _).
             rbind (parse_tasks (xh_deps x) rest []) (\<lambda>(tasks, rest').
               parse_build_set_loop x rest' envs (projects @ [\<lparr>xp_env = env, xp_tasks = tasks\<rparr>])))
           else rbind (parse_skip 0 rest) (\<lambda>rest'. parse_build_set_loop x rest' envs projects)
       | EndElement \<Rightarrow> Inr (envs, projects)
       | OtherEvent \<Rightarrow> parse_build_set_loop x rest envs projects)"
  by pat_completeness auto
termination
  by (relation "measure (\<lambda>(x, es, e, p). length es)")
    (auto dest!: next_xml_event_shorter parse_skip_shorter parse_environments_shorter parse_tasks_shorter)

declare parse_build_set_loop.simps [simp del]

definition parse_build_set :: "xg_host \<Rightarrow> events \<Rightarrow> xg_node graph_log \<Rightarrow> xg_node graph_log result" where
  "parse_build_set x es g =
     rbind (parse_build_set_loop x es Map.empty []) (\<lambda>(envs, projects). parse_create_graph x envs projects g)"

function xg_parse :: "xg_host \<Rightarrow> events \<Rightarrow> xg_node graph_log \<Rightarrow> xg_node graph_log result" where
  "xg_parse x es g =
     rbind (next_xml_event es) (\<lambda>(ev, rest).
       case ev of
         StartElement name _ \<Rightarrow>
           if name = ''BuildSet'' then parse_build_set x rest g else Inl (xg_failure InvalidStreamFormat)
       | _ \<Rightarrow> xg_parse x rest g)"
  by pat_completeness auto
termination by (relation "measure (\<lambda>(x, es, g). length es)") (auto dest: next_xml_event_shorter)

declare xg_parse.simps [simp del]

end
