(* ===== verification/Xg_Console.thy ===== *)
theory Xg_Console
  imports Xg_Parser Vs_Prepare
begin

text \<open>
  \<open>src/bin/xgConsole.rs\<close>: the files of the command line are parsed into one graph of commands, every
  command becomes the actions that compile it, and the graph of the actions is handed to the executor.

  Parameters: the regular expressions (crate \<open>regex\<close>), the lower case of the whole of Unicode, the
  directory listing and the parts of a Windows path, the variables of the process and the documents themselves (\<open>Xg_Parser\<close>).
\<close>

record console =
  co_host :: host
  co_is_match :: "string \<Rightarrow> string \<Rightarrow> bool"
  co_escape :: "string \<Rightarrow> string"
  co_lower :: "string \<Rightarrow> string"
  co_read_dir :: "path \<Rightarrow> (failure + (string option \<times> path)) list result"
  co_file_name :: "path \<Rightarrow> string option"
  co_parent :: "path \<Rightarrow> path option"
  co_var :: "string \<Rightarrow> string option"
  co_open :: "path \<Rightarrow> events result"
  co_xg :: xg_host

section \<open>Arguments\<close>

definition is_flag :: "console \<Rightarrow> string \<Rightarrow> bool" where
  "is_flag co arg = co_is_match co (CHR ''^'' # CHR ''/'' # backslash # ''w+([=].*)?$'') arg"

definition is_mask_char :: "char \<Rightarrow> bool" where
  "is_mask_char c \<longleftrightarrow> c = CHR ''?'' \<or> c = CHR ''*''"

text \<open>\<open>chunk\<close> is the part of the mask behind the last separator, \<open>mask[begin..index]\<close>.\<close>

fun mask_loop :: "console \<Rightarrow> string \<Rightarrow> string \<Rightarrow> string" where
  "mask_loop co chunk [] = co_escape co chunk"
| "mask_loop co chunk (c # cs) =
     (if is_mask_char c
      then co_escape co chunk @ (if c = CHR ''?'' then ''.'' else ''.*'') @ mask_loop co [] cs
      else mask_loop co (chunk @ [c]) cs)"

definition mask_to_regex :: "console \<Rightarrow> string \<Rightarrow> string" where
  "mask_to_regex co wild = ''^'' @ mask_loop co [] wild @ ''$''"

fun matching_entries :: "console \<Rightarrow> string \<Rightarrow> (failure + (string option \<times> path)) list \<Rightarrow> path list result" where
  "matching_entries co expr [] = Inr []"
| "matching_entries co expr (Inl e # es) = Inl e"
| "matching_entries co expr (Inr (name, p) # es) =
     rbind (matching_entries co expr es) (\<lambda>ps.
       Inr (if (case name of None \<Rightarrow> False | Some s \<Rightarrow> co_is_match co expr (co_lower co s)) then p # ps else ps))"

definition find_files :: "console \<Rightarrow> path \<Rightarrow> string \<Rightarrow> path list result" where
  "find_files co dir wild =
     (let expr = mask_to_regex co (co_lower co wild)
      in rbind (co_read_dir co dir) (matching_entries co expr))"

definition expand_files :: "console \<Rightarrow> path list \<Rightarrow> string \<Rightarrow> path list" where
  "expand_files co files arg =
     (case co_host co of
        Unix \<Rightarrow> files @ [arg]
      | Windows \<Rightarrow>
          (case co_file_name co arg of
             Some wild \<Rightarrow>
               if \<exists>c \<in> set wild. is_mask_char c then
                 (case find_files co (case co_parent co arg of Some d \<Rightarrow> d | None \<Rightarrow> ''.'') wild of
                    Inr found \<Rightarrow> if found \<noteq> [] then files @ found else files @ [arg]
                  | Inl _ \<Rightarrow> files @ [arg])
               else files @ [arg]
           | None \<Rightarrow> files @ [arg]))"

fun str_find :: "string \<Rightarrow> string \<Rightarrow> nat option" where
  "str_find pat [] = (if pat = [] then Some 0 else None)"
| "str_find pat (c # cs) = (if starts_with (c # cs) pat then Some 0 else map_option Suc (str_find pat cs))"

lemma str_find_le: "str_find pat s = Some i \<Longrightarrow> i \<le> length s"
  by (induction pat s arbitrary: i rule: str_find.induct) (auto split: if_splits)

text \<open>The loop of \<open>expand_arg\<close>. The slice of the name starts behind \<open>$(\<close>, which lies before the
  parenthesis that closes it.\<close>

function expand_loop :: "(string \<Rightarrow> string option) \<Rightarrow> string \<Rightarrow> string \<Rightarrow> string" where
  "expand_loop resolver res rest =
     (case str_find ''$('' rest of
        None \<Rightarrow> res @ rest
      | Some start \<Rightarrow>
          (case str_find '')'' (drop start rest) of
             None \<Rightarrow> res @ rest
           | Some stop \<Rightarrow>
               let name = take (stop - 2) (drop (start + 2) rest);
                   res' = (case resolver name of
                       Some v \<Rightarrow> res @ take start rest @ v
                     | None \<Rightarrow> res @ take (start + stop + 1) rest)
               in expand_loop resolver res' (drop (start + stop + 1) rest)))"
  by pat_completeness auto
termination
proof (relation "measure (\<lambda>(r, res, rest). length rest)", simp)
  fix rest :: string and start stop
  assume "str_find ''$('' rest = Some start" "str_find '')'' (drop start rest) = Some stop"
  then have "rest \<noteq> []" by auto
  then show "((resolver, res', drop (start + stop + 1) rest), resolver, res, rest) \<in> measure (\<lambda>(r, res, rest). length rest)"
    for resolver :: "string \<Rightarrow> string option" and res res' :: string by simp
qed

declare expand_loop.simps [simp del]

definition expand_arg :: "(string \<Rightarrow> string option) \<Rightarrow> string \<Rightarrow> string" where
  "expand_arg resolver arg = expand_loop resolver [] arg"

section \<open>From commands to actions\<close>

definition node_actions :: "console \<Rightarrow> compiler \<Rightarrow> xg_node \<Rightarrow> build_action list" where
  "node_actions co cp node = build_create_tasks cp (xn_command node) (map (expand_arg (co_var co)) (xn_args node))"

text \<open>The actions of a group, numbered in their titles. \<open>depends\<close> records which node of the first graph an
  action stands for; a group has none (\<open>NodeIndex::end()\<close>).\<close>

fun add_actions ::
    "string \<Rightarrow> nat \<Rightarrow> nat \<Rightarrow> nat \<Rightarrow> nat \<Rightarrow> build_action list \<Rightarrow> nat option list \<Rightarrow> build_task graph_log \<Rightarrow>
     nat option list \<times> build_task graph_log" where
  "add_actions title node_index group_node cnt index [] depends g = (depends, g)"
| "add_actions title node_index group_node cnt index (action # actions) depends g =
     (let (action_node, g') = log_node
            \<lparr>bt_title = title @ '' ('' @ show_nat index @ ''/'' @ show_nat cnt @ '')'', bt_action = action\<rparr> g
      in add_actions title node_index group_node cnt (index + 1) actions (depends @ [Some node_index])
           (log_edge group_node action_node g'))"

type_synonym prepare_state = "nat list \<times> nat option list \<times> build_task graph_log"

definition prepare_node :: "console \<Rightarrow> compiler \<Rightarrow> xg_node \<Rightarrow> prepare_state \<Rightarrow> prepare_state" where
  "prepare_node co cp node = (\<lambda>(remap, depends, g).
     let actions = node_actions co cp node; node_index = length remap
     in if length actions = 1 then
          let (n, g') = log_node \<lparr>bt_title = xn_title node, bt_action = hd actions\<rparr> g
          in (remap @ [n], depends @ [Some node_index], g')
        else
          let (group_node, g') = log_node \<lparr>bt_title = xn_title node, bt_action = Empty\<rparr> g;
              (depends', g'') = add_actions (xn_title node) node_index group_node (length actions) 1 actions (depends @ [None]) g'
          in (remap @ [group_node], depends', g''))"

text \<open>The edges of one action, then of all.\<close>

fun add_depends :: "nat list \<Rightarrow> nat \<Rightarrow> nat list \<Rightarrow> build_task graph_log \<Rightarrow> build_task graph_log result" where
  "add_depends remap a [] g = Inr g"
| "add_depends remap a (neighbor # ns) g =
     (if neighbor < length remap then add_depends remap a ns (log_edge a (remap ! neighbor) g)
      else Inl (Panic ''called Option::unwrap() on a None value''))"

fun link_actions ::
    "xg_node graph \<Rightarrow> nat list \<Rightarrow> nat \<Rightarrow> nat option list \<Rightarrow> build_task graph_log \<Rightarrow> build_task graph_log result" where
  "link_actions xgraph remap i [] g = Inr g"
| "link_actions xgraph remap i (d # ds) g =
     rbind (add_depends remap i (case d of None \<Rightarrow> [] | Some k \<Rightarrow> outgoing xgraph k) g)
       (link_actions xgraph remap (Suc i) ds)"

definition prepare_graph ::
    "console \<Rightarrow> (build_task graph_log \<Rightarrow> build_task graph) \<Rightarrow> compiler \<Rightarrow> xg_node graph \<Rightarrow> build_task graph result" where
  "prepare_graph co view cp xgraph =
     (let (remap, depends, g) = fold (prepare_node co cp) (node_weights xgraph) ([], [], log_new)
      in if length remap \<noteq> node_count xgraph \<or> length depends \<noteq> length (gl_nodes g)
         then Inl (Panic ''assertion failed: (left == right)'')
         else rbind (link_actions xgraph remap 0 depends g) (\<lambda>g'. validate_graph (view g')))"

section \<open>The run\<close>

fun parse_files :: "console \<Rightarrow> path list \<Rightarrow> xg_node graph_log \<Rightarrow> xg_node graph_log result" where
  "parse_files co [] g = Inr g"
| "parse_files co (f # fs) g =
     rbind (co_open co f) (\<lambda>events. rbind (xg_parse (co_xg co) events g) (parse_files co fs))"

text \<open>The part of \<open>execute\<close> up to the graph of the actions; the two views are those of the two graph types.\<close>

definition console_graph ::
    "console \<Rightarrow> (xg_node graph_log \<Rightarrow> xg_node graph) \<Rightarrow> (build_task graph_log \<Rightarrow> build_task graph) \<Rightarrow> compiler \<Rightarrow>
     string list \<Rightarrow> build_task graph result" where
  "console_graph co xview bview cp args =
     (let files = fold (\<lambda>a files. expand_files co files a) (filter (\<lambda>a. \<not> is_flag co a) args) []
      in if files = [] then Inl (IoError InvalidInput ''Build task files not found'')
         else rbind (parse_files co files log_new) (\<lambda>g.
              rbind (validate_graph (xview g)) (prepare_graph co bview cp)))"

definition print_task_result ::
    "(string \<Rightarrow> unit result) \<Rightarrow> (bytes \<Rightarrow> unit result) \<Rightarrow> (bytes \<Rightarrow> unit result) \<Rightarrow> build_task build_result \<Rightarrow> unit result" where
  "print_task_result println out err r =
     rbind (println (''#'' @ show_nat (br_worker r) @ '' '' @ show_nat (br_completed r) @ ''/'' @ show_nat (br_total r) @
         '': '' @ bt_title (br_task r))) (\<lambda>_.
     case br_result r of
       Inl _ \<Rightarrow> Inr ()
     | Inr output \<Rightarrow> rbind (out (oi_stdout output)) (\<lambda>_. err (oi_stderr output)))"

definition console_execute ::
    "console \<Rightarrow> (xg_node graph_log \<Rightarrow> xg_node graph) \<Rightarrow> (build_task graph_log \<Rightarrow> build_task graph) \<Rightarrow> compiler \<Rightarrow>
     (build_task \<Rightarrow> output_info result) \<Rightarrow> (build_task build_result \<Rightarrow> unit result) \<Rightarrow> nat \<Rightarrow> string list \<Rightarrow> build_task execution" where
  "console_execute co xview bview cp run update process_limit args =
     (case console_graph co xview bview cp args of
        Inl e \<Rightarrow> Returned (Inl e)
      | Inr g \<Rightarrow> execute_graph run update g process_limit)"

text \<open>The exit code of \<open>main\<close>.\<close>

definition console_exit :: "exit_result \<Rightarrow> int" where
  "console_exit r = (case r of Inr (Some c) \<Rightarrow> c | Inr None \<Rightarrow> 501 | Inl _ \<Rightarrow> 500)"

end
