(* ===== verification/Xg_Parser_Correct.thy ===== *)
theory Xg_Parser_Correct
  imports Xg_Parser
begin

text \<open>
  Properties of the XGE parser: every project adds one node per task and exactly the edges its
  dependencies name, and a parsed graph has no edge out of range and no edge twice, which is what the
  executor asks for.
\<close>

section \<open>Projects\<close>

text \<open>What parsing promises of a project: names and the dependencies of a task occur once.\<close>

definition tasks_ok :: "(string \<times> xg_task) list \<Rightarrow> bool" where
  "tasks_ok ts \<longleftrightarrow> distinct (map fst ts) \<and> (\<forall>it \<in> set ts. distinct (xt_depends_on (snd it)))"

definition project_ok :: "xg_project \<Rightarrow> bool" where
  "project_ok p \<longleftrightarrow> tasks_ok (xp_tasks p)"

lemma task_of_distinct:
  assumes "\<And>ds. mset (ord ds) = mset ds" "task_of ord attrs = Inr (n, t)"
  shows "distinct (xt_depends_on t)"
proof -
  have "distinct (ord ds) = distinct ds" for ds using assms(1) by (metis mset_eq_imp_distinct_iff)
  then show ?thesis using assms(2) by (auto simp: task_of_def rbind_eq_Inr Let_def split: option.splits)
qed

lemma tasks_ok_update:
  assumes "tasks_ok ts" "distinct (xt_depends_on t)"
  shows "tasks_ok (AList.update n t ts)"
proof -
  have "set (AList.update n t ts) \<subseteq> insert (n, t) (set ts)" by (induction ts) auto
  then show ?thesis using assms by (auto simp: tasks_ok_def distinct_update)
qed

lemma parse_tasks_ok:
  "parse_tasks ord es ts = Inr (ts', rest) \<Longrightarrow> (\<And>ds. mset (ord ds) = mset ds) \<Longrightarrow> tasks_ok ts \<Longrightarrow> tasks_ok ts'"
proof (induction ord es ts rule: parse_tasks.induct)
  case (1 ord es ts)
  obtain ev r where ev: "next_xml_event es = Inr (ev, r)"
    using 1(3) parse_tasks.simps [of ord es ts] by (auto simp: rbind_eq_Inr)
  show ?case
  proof (cases ev)
    case (StartElement name as)
    let ?step = "if name = ''Task'' then rbind (task_of ord (map_attributes as)) (\<lambda>(n, t). Inr (AList.update n t ts)) else Inr ts"
    obtain t1 r1 where p: "?step = Inr t1" "parse_skip 0 r = Inr r1" "parse_tasks ord r1 t1 = Inr (ts', rest)"
      using 1(3) ev StartElement parse_tasks.simps [of ord es ts] by (auto simp: rbind_eq_Inr)
    have "tasks_ok t1"
    proof (cases "name = ''Task''")
      case True
      then obtain n t where "task_of ord (map_attributes as) = Inr (n, t)" "t1 = AList.update n t ts"
        using p(1) by (auto simp: rbind_eq_Inr)
      then show ?thesis using tasks_ok_update [OF 1(5)] task_of_distinct [OF 1(4)] by blast
    qed (use p(1) 1(5) in simp)
    then show ?thesis using 1(1) [OF ev refl StartElement p(1) p(2) p(3) 1(4)] by blast
  next
    case EndElement
    then show ?thesis using 1(3,5) ev parse_tasks.simps [of ord es ts] by simp
  next
    case OtherEvent
    then have "parse_tasks ord r ts = Inr (ts', rest)" using 1(3) ev parse_tasks.simps [of ord es ts] by simp
    then show ?thesis using 1(2) [OF ev refl OtherEvent _ 1(4,5)] by blast
  qed
qed

lemma parse_build_set_loop_ok:
  "parse_build_set_loop x es envs ps = Inr (envs', ps') \<Longrightarrow> xg_host_ok x \<Longrightarrow> list_all project_ok ps \<Longrightarrow> list_all project_ok ps'"
proof (induction x es envs ps rule: parse_build_set_loop.induct)
  case (1 x es envs ps)
  note simps = parse_build_set_loop.simps [of x es envs ps]
  obtain ev r where ev: "next_xml_event es = Inr (ev, r)" using 1(5) simps by (auto simp: rbind_eq_Inr)
  show ?case
  proof (cases ev)
    case (StartElement name as)
    consider (environments) "name = ''Environments''" | (project) "name \<noteq> ''Environments''" "name = ''Project''"
      | (other) "name \<noteq> ''Environments''" "name \<noteq> ''Project''" by blast
    then show ?thesis
    proof cases
      case environments
      then obtain envs1 r1 where p: "parse_environments (xh_os x) (xh_vars x) r envs = Inr (envs1, r1)"
        "parse_build_set_loop x r1 envs1 ps = Inr (envs', ps')"
        using "1.prems"(1) ev StartElement simps by (auto simp: rbind_eq_Inr)
      then show ?thesis using "1.IH"(1) [OF ev refl StartElement environments p(1) refl] "1.prems"(2,3) by blast
    next
      case project
      then obtain env as' ts r1 where p: "take_attr (map_attributes as) ''Env'' = Inr (env, as')"
        "parse_tasks (xh_deps x) r [] = Inr (ts, r1)"
        "parse_build_set_loop x r1 envs (ps @ [\<lparr>xp_env = env, xp_tasks = ts\<rparr>]) = Inr (envs', ps')"
        using "1.prems"(1) ev StartElement simps by (auto simp: rbind_eq_Inr)
      have "tasks_ok ts" using parse_tasks_ok [OF p(2)] "1.prems"(2) by (simp add: xg_host_ok_def tasks_ok_def)
      then have "list_all project_ok (ps @ [\<lparr>xp_env = env, xp_tasks = ts\<rparr>])"
        using "1.prems"(3) by (simp add: list_all_iff) (simp add: project_ok_def)
      then show ?thesis
        using "1.IH"(2) [OF ev refl StartElement project p(1) refl p(2) refl p(3) "1.prems"(2)] by blast
    next
      case other
      then obtain r1 where p: "parse_skip 0 r = Inr r1" "parse_build_set_loop x r1 envs ps = Inr (envs', ps')"
        using "1.prems"(1) ev StartElement simps by (auto simp: rbind_eq_Inr)
      then show ?thesis using "1.IH"(3) [OF ev refl StartElement other p(1)] "1.prems"(2,3) by blast
    qed
  next
    case EndElement
    then show ?thesis using 1(5,7) ev simps by simp
  next
    case OtherEvent
    then have "parse_build_set_loop x r envs ps = Inr (envs', ps')" using 1(5) ev simps by simp
    then show ?thesis using 1(4) [OF ev refl OtherEvent] "1.prems"(2,3) by blast
  qed
qed

section \<open>Nodes and edges\<close>

text \<open>Where the tasks are: numbered from \<open>n\<close> on.\<close>

fun numbered :: "nat \<Rightarrow> string list \<Rightarrow> string \<rightharpoonup> nat" where
  "numbered n [] = Map.empty"
| "numbered n (i # is) = (numbered (Suc n) is)(i \<mapsto> n)"

lemma dom_numbered [simp]: "dom (numbered n is) = set is"
  by (induction "is" arbitrary: n) auto

lemma numbered_nth: "distinct is \<Longrightarrow> k < length is \<Longrightarrow> numbered n is (is ! k) = Some (n + k)"
proof (induction "is" arbitrary: n k)
  case (Cons i "is")
  show ?case
  proof (cases k)
    case (Suc k')
    then have "is ! k' \<noteq> i" using Cons.prems by (metis Suc_less_eq distinct.simps(2) length_Cons nth_mem)
    then show ?thesis using Suc Cons.IH [of k' "Suc n"] Cons.prems by simp
  qed simp
qed simp

lemma numbered_inj: "distinct is \<Longrightarrow> inj_on (\<lambda>d. the (numbered n is d)) (set is)"
  by (rule inj_onI) (auto simp: in_set_conv_nth numbered_nth)

lemma add_task_nodes_ok:
  "add_task_nodes x env ts g refs = Inr (refs', g') \<Longrightarrow> distinct (map fst ts) \<Longrightarrow>
     refs' = refs ++ numbered (length (gl_nodes g)) (map fst ts) \<and> gl_edges g' = gl_edges g \<and>
     (\<exists>ns. gl_nodes g' = gl_nodes g @ ns \<and> list_all2 (\<lambda>it n. task_node x env (snd it) = Inr n) ts ns)"
proof (induction ts arbitrary: g refs)
  case (Cons it ts)
  obtain i t where it: "it = (i, t)" by (cases it)
  then obtain n where n: "task_node x env t = Inr n"
    "add_task_nodes x env ts (g\<lparr>gl_nodes := gl_nodes g @ [n]\<rparr>) (refs(i \<mapsto> length (gl_nodes g))) = Inr (refs', g')"
    using Cons.prems(1) by (auto simp: rbind_eq_Inr log_node_def Let_def)
  have ts: "distinct (map fst ts)" using Cons.prems(2) by simp
  have g1: "gl_nodes (g\<lparr>gl_nodes := gl_nodes g @ [n]\<rparr>) = gl_nodes g @ [n]"
    "gl_edges (g\<lparr>gl_nodes := gl_nodes g @ [n]\<rparr>) = gl_edges g" "length (gl_nodes g @ [n]) = Suc (length (gl_nodes g))"
    by simp_all
  note all = Cons.IH [OF n(2) ts, unfolded g1]
  have ih: "refs' = refs(i \<mapsto> length (gl_nodes g)) ++ numbered (Suc (length (gl_nodes g))) (map fst ts)"
    "gl_edges g' = gl_edges g"
    "\<exists>ns. gl_nodes g' = (gl_nodes g @ [n]) @ ns \<and> list_all2 (\<lambda>it n. task_node x env (snd it) = Inr n) ts ns"
    using all by blast+
  have "i \<notin> dom (numbered (Suc (length (gl_nodes g))) (map fst ts))"
    using Cons.prems(2) it by simp
  then have "refs' = refs ++ numbered (length (gl_nodes g)) (map fst (it # ts))"
    using ih(1) it by (simp add: map_add_upd_left del: fun_upd_apply)
  moreover obtain ns where "gl_nodes g' = gl_nodes g @ (n # ns)" "list_all2 (\<lambda>it n. task_node x env (snd it) = Inr n) ts ns"
    using ih(3) by auto
  ultimately show ?case using ih(2) it n(1) by (intro conjI exI [of _ "n # ns"]) (assumption | simp)+
qed simp

lemma add_dependencies_ok:
  "add_dependencies refs src ds g = Inr g' \<Longrightarrow>
     gl_nodes g' = gl_nodes g \<and> gl_edges g' = gl_edges g @ map (\<lambda>d. (src, the (refs d))) ds \<and> set ds \<subseteq> dom refs"
  by (induction ds arbitrary: g) (fastforce simp: log_edge_def split: option.splits)+

definition task_edges :: "(string \<rightharpoonup> nat) \<Rightarrow> string \<times> xg_task \<Rightarrow> (nat \<times> nat) list" where
  "task_edges refs it = map (\<lambda>d. (the (refs (fst it)), the (refs d))) (xt_depends_on (snd it))"

lemma add_task_edges_ok:
  "add_task_edges refs ts g = Inr g' \<Longrightarrow>
     gl_nodes g' = gl_nodes g \<and> gl_edges g' = gl_edges g @ concat (map (task_edges refs) ts) \<and>
     (\<forall>it \<in> set ts. set (xt_depends_on (snd it)) \<subseteq> dom refs)"
proof (induction ts arbitrary: g)
  case (Cons it ts)
  obtain i t where it: "it = (i, t)" by (cases it)
  then obtain src g1 where p: "refs i = Some src" "add_dependencies refs src (xt_depends_on t) g = Inr g1"
    "add_task_edges refs ts g1 = Inr g'"
    using Cons.prems by (auto simp: rbind_eq_Inr split: option.splits)
  then show ?case using Cons.IH [OF p(3)] add_dependencies_ok [OF p(2)] it by (auto simp: task_edges_def)
qed simp

lemma distinct_concat_map:
  assumes "distinct xs" "\<And>x. x \<in> set xs \<Longrightarrow> distinct (f x)"
    "\<And>x y. x \<in> set xs \<Longrightarrow> y \<in> set xs \<Longrightarrow> x \<noteq> y \<Longrightarrow> set (f x) \<inter> set (f y) = {}"
  shows "distinct (concat (map f xs))"
  using assms
proof (induction xs)
  case (Cons x xs)
  have "set (f x) \<inter> (\<Union>y \<in> set xs. set (f y)) = {}"
    using Cons.prems(1,3) by fastforce
  then show ?case using Cons by simp
qed simp

lemma set_concat_map_nth: "set (concat (map f xs)) = (\<Union>k < length xs. set (f (xs ! k)))"
proof -
  have "set xs = (!) xs ` {..<length xs}" by (auto simp: set_conv_nth)
  then show ?thesis by (simp add: image_image)
qed

text \<open>The two loops together.\<close>

lemma graph_project_ok:
  assumes "xg_host_ok x" "project_ok project" "graph_project x env project g = Inr g'"
  obtains ts ns where "mset ts = mset (xp_tasks project)" "tasks_ok ts"
    "gl_nodes g' = gl_nodes g @ ns" "list_all2 (\<lambda>it n. task_node x env (snd it) = Inr n) ts ns"
    "gl_edges g' = gl_edges g @ concat (map (task_edges (numbered (length (gl_nodes g)) (map fst ts))) ts)"
    "\<forall>it \<in> set ts. set (xt_depends_on (snd it)) \<subseteq> set (map fst ts)"
proof -
  define ts where "ts = xh_tasks x (xp_tasks project)"
  have m: "mset ts = mset (xp_tasks project)" using assms(1) by (simp add: ts_def xg_host_ok_def)
  have "distinct (map fst ts)"
    using assms(2) m by (metis mset_map mset_eq_imp_distinct_iff project_ok_def tasks_ok_def)
  then have ok: "tasks_ok ts" using assms(2) mset_eq_setD [OF m] by (simp add: project_ok_def tasks_ok_def)
  obtain refs g1 where p: "add_task_nodes x env ts g Map.empty = Inr (refs, g1)" "add_task_edges refs ts g1 = Inr g'"
    using assms(3) by (auto simp: graph_project_def ts_def Let_def rbind_eq_Inr)
  note n = add_task_nodes_ok [OF p(1)] and e = add_task_edges_ok [OF p(2)]
  have refs: "refs = numbered (length (gl_nodes g)) (map fst ts)" using n ok by (simp add: tasks_ok_def)
  then have "dom refs = set (map fst ts)" by simp
  moreover obtain ns where "gl_nodes g1 = gl_nodes g @ ns" "list_all2 (\<lambda>it n. task_node x env (snd it) = Inr n) ts ns"
    using n ok by (auto simp: tasks_ok_def)
  ultimately have "gl_nodes g' = gl_nodes g @ ns" "list_all2 (\<lambda>it n. task_node x env (snd it) = Inr n) ts ns"
    using e by simp_all
  moreover have "gl_edges g' = gl_edges g @ concat (map (task_edges (numbered (length (gl_nodes g)) (map fst ts))) ts)"
    using n e refs ok by (auto simp: tasks_ok_def)
  moreover have "\<forall>it \<in> set ts. set (xt_depends_on (snd it)) \<subseteq> set (map fst ts)"
    using e \<open>dom refs = set (map fst ts)\<close> by simp
  ultimately show ?thesis by (rule that [OF m ok])
qed

lemma task_edges_mem:
  assumes "tasks_ok ts" "\<forall>it \<in> set ts. set (xt_depends_on (snd it)) \<subseteq> set (map fst ts)" "k < length ts"
  shows "set (task_edges (numbered n (map fst ts)) (ts ! k)) =
    {(n + k, n + l) |l. l < length ts \<and> fst (ts ! l) \<in> set (xt_depends_on (snd (ts ! k)))}"
proof -
  let ?refs = "numbered n (map fst ts)"
  have refs: "?refs (fst (ts ! l)) = Some (n + l)" if "l < length ts" for l
    using numbered_nth [of "map fst ts" l n] assms(1) that by (simp add: tasks_ok_def)
  have deps: "\<exists>l < length ts. fst (ts ! l) = d" if "d \<in> set (xt_depends_on (snd (ts ! k)))" for d
  proof -
    have "ts ! k \<in> set ts" using assms(3) by simp
    then have "d \<in> set (map fst ts)" using assms(2) that by blast
    then obtain it where "it \<in> set ts" "fst it = d" by auto
    then show ?thesis by (auto simp: in_set_conv_nth)
  qed
  show ?thesis
  proof (intro equalityI subsetI)
    fix e assume "e \<in> set (task_edges ?refs (ts ! k))"
    then obtain d where d: "d \<in> set (xt_depends_on (snd (ts ! k)))" "e = (n + k, the (?refs d))"
      using refs [OF assms(3)] by (auto simp: task_edges_def)
    obtain l where "l < length ts" "fst (ts ! l) = d" using deps [OF d(1)] by blast
    then show "e \<in> {(n + k, n + l) |l. l < length ts \<and> fst (ts ! l) \<in> set (xt_depends_on (snd (ts ! k)))}"
      using d refs by auto
  next
    fix e assume "e \<in> {(n + k, n + l) |l. l < length ts \<and> fst (ts ! l) \<in> set (xt_depends_on (snd (ts ! k)))}"
    then show "e \<in> set (task_edges ?refs (ts ! k))"
      using refs [OF assms(3)] refs by (force simp: task_edges_def)
  qed
qed

text \<open>A project that is accepted adds to the graph one node for each of its tasks, made from
  the task and its tool, and exactly the edges from every task to the tasks it depends on, by name.\<close>

theorem graph_project_adds:
  assumes "xg_host_ok x" "project_ok project" "graph_project x env project g = Inr g'"
  shows "\<exists>ts. mset ts = mset (xp_tasks project) \<and> take (length (gl_nodes g)) (gl_nodes g') = gl_nodes g \<and>
    length (gl_nodes g') = length (gl_nodes g) + length ts \<and>
    (\<forall>k < length ts. task_node x env (snd (ts ! k)) = Inr (gl_nodes g' ! (length (gl_nodes g) + k))) \<and>
    set (gl_edges g') = set (gl_edges g) \<union>
      {(length (gl_nodes g) + k, length (gl_nodes g) + l) |k l.
         k < length ts \<and> l < length ts \<and> fst (ts ! l) \<in> set (xt_depends_on (snd (ts ! k)))}"
proof -
  let ?n = "length (gl_nodes g)"
  obtain ts ns where t: "mset ts = mset (xp_tasks project)" "tasks_ok ts"
    "gl_nodes g' = gl_nodes g @ ns" "list_all2 (\<lambda>it n. task_node x env (snd it) = Inr n) ts ns"
    "gl_edges g' = gl_edges g @ concat (map (task_edges (numbered ?n (map fst ts))) ts)"
    "\<forall>it \<in> set ts. set (xt_depends_on (snd it)) \<subseteq> set (map fst ts)"
    using assms by (rule graph_project_ok)
  have len: "length ns = length ts" using t(4) by (simp add: list_all2_lengthD)
  have nodes: "\<forall>k < length ts. task_node x env (snd (ts ! k)) = Inr (gl_nodes g' ! (?n + k))"
    using t(3,4) by (auto simp: list_all2_conv_all_nth nth_append split: prod.splits)
  have "set (concat (map (task_edges (numbered ?n (map fst ts))) ts)) =
      (\<Union>k < length ts. set (task_edges (numbered ?n (map fst ts)) (ts ! k)))"
    by (rule set_concat_map_nth)
  also have "\<dots> = {(?n + k, ?n + l) |k l. k < length ts \<and> l < length ts \<and> fst (ts ! l) \<in> set (xt_depends_on (snd (ts ! k)))}"
    using task_edges_mem [OF t(2,6)] by auto
  finally have "set (gl_edges g') = set (gl_edges g) \<union>
      {(?n + k, ?n + l) |k l. k < length ts \<and> l < length ts \<and> fst (ts ! l) \<in> set (xt_depends_on (snd (ts ! k)))}"
    using t(5) by simp
  then show ?thesis using t(1,3) len nodes by (intro exI [of _ ts]) simp
qed

section \<open>The whole graph\<close>

text \<open>What the executor asks of a graph, and that a project keeps it.\<close>

definition log_good :: "'n graph_log \<Rightarrow> bool" where
  "log_good g \<longleftrightarrow> log_ok g \<and> log_simple g"

lemma graph_project_good:
  assumes "xg_host_ok x" "project_ok project" "graph_project x env project g = Inr g'" "log_good g"
  shows "log_good g'"
proof -
  let ?n = "length (gl_nodes g)"
  obtain ts ns where t: "mset ts = mset (xp_tasks project)" "tasks_ok ts"
    "gl_nodes g' = gl_nodes g @ ns" "list_all2 (\<lambda>it n. task_node x env (snd it) = Inr n) ts ns"
    "gl_edges g' = gl_edges g @ concat (map (task_edges (numbered ?n (map fst ts))) ts)"
    "\<forall>it \<in> set ts. set (xt_depends_on (snd it)) \<subseteq> set (map fst ts)"
    using assms(1-3) by (rule graph_project_ok)
  let ?f = "task_edges (numbered ?n (map fst ts))"
  have len: "length ns = length ts" using t(4) by (simp add: list_all2_lengthD)
  note mem = task_edges_mem [OF t(2,6), of _ ?n]
  have new: "\<exists>k < length ts. \<exists>l < length ts. e = (?n + k, ?n + l)" if "e \<in> set (concat (map ?f ts))" for e
    using that mem unfolding set_concat_map_nth by auto
  have old: "a < ?n \<and> b < ?n" if "(a, b) \<in> set (gl_edges g)" for a b
    using assms(4) that by (auto simp: log_good_def log_ok_def)
  have "distinct ts" using t(2) by (auto simp: tasks_ok_def distinct_map)
  moreover have "distinct (?f it)" if "it \<in> set ts" for it
  proof -
    have "inj_on (\<lambda>d. the (numbered ?n (map fst ts) d)) (set (xt_depends_on (snd it)))"
      using numbered_inj [of "map fst ts" ?n] t(2,6) that by (intro inj_on_subset [OF numbered_inj]) (auto simp: tasks_ok_def)
    then show ?thesis using t(2) that by (auto simp: task_edges_def distinct_map tasks_ok_def inj_on_def)
  qed
  moreover have "set (?f it) \<inter> set (?f it') = {}" if its: "it \<in> set ts" "it' \<in> set ts" "it \<noteq> it'" for it it'
  proof -
    obtain k k' where "k < length ts" "k' < length ts" "it = ts ! k" "it' = ts ! k'" "k \<noteq> k'"
      using its by (metis in_set_conv_nth)
    then show ?thesis using mem by auto
  qed
  ultimately have "distinct (concat (map ?f ts))" by (rule distinct_concat_map)
  moreover have "set (gl_edges g) \<inter> set (concat (map ?f ts)) = {}"
    using new old by fastforce
  ultimately have "log_simple g'" using assms(4) t(5) by (simp add: log_good_def log_simple_def)
  moreover have "log_ok g'"
    unfolding log_ok_def
  proof (intro ballI)
    fix e assume "e \<in> set (gl_edges g')"
    then consider "e \<in> set (gl_edges g)" | "e \<in> set (concat (map ?f ts))" using t(5) by auto
    then show "case e of (a, b) \<Rightarrow> a < length (gl_nodes g') \<and> b < length (gl_nodes g')"
      by cases (use old new t(3) len in \<open>fastforce split: prod.splits\<close>)+
  qed
  ultimately show ?thesis by (simp add: log_good_def)
qed

lemma parse_create_graph_good:
  "parse_create_graph x envs ps g = Inr g' \<Longrightarrow> xg_host_ok x \<Longrightarrow> list_all project_ok ps \<Longrightarrow> log_good g \<Longrightarrow> log_good g'"
  by (induction x envs ps g rule: parse_create_graph.induct)
    (auto simp: rbind_eq_Inr split: option.splits dest: graph_project_good)

lemma xg_parse_good:
  "xg_parse x es g = Inr g' \<Longrightarrow> xg_host_ok x \<Longrightarrow> log_good g \<Longrightarrow> log_good g'"
proof (induction x es g rule: xg_parse.induct)
  case (1 x es g)
  note simps = xg_parse.simps [of x es g]
  obtain ev r where ev: "next_xml_event es = Inr (ev, r)" using "1.prems"(1) simps by (auto simp: rbind_eq_Inr)
  show ?case
  proof (cases ev)
    case (StartElement name as)
    then obtain envs ps where p: "parse_build_set_loop x r Map.empty [] = Inr (envs, ps)" "parse_create_graph x envs ps g = Inr g'"
      using "1.prems"(1) ev simps by (auto simp: rbind_eq_Inr parse_build_set_def split: if_splits)
    then show ?thesis
      using parse_build_set_loop_ok [OF p(1) "1.prems"(2)] parse_create_graph_good [OF p(2) "1.prems"(2)] "1.prems"(3) by simp
  qed (use "1.prems" "1.IH" ev simps in \<open>auto\<close>)
qed

text \<open>The graph of a task file, whatever the file holds, is one the executor accepts: every edge joins nodes of the
  graph, no two edges join the same tasks, and the incoming neighbours are the converse of the outgoing ones.\<close>

theorem xg_parse_graph:
  assumes "graph_view view" "xg_host_ok x" "xg_parse x es log_new = Inr g"
  shows "graph_ok (view g) \<and> simple_graph (view g) \<and> node_weights (view g) = gl_nodes g"
proof -
  have "log_good g" using xg_parse_good [OF assms(3,2)] by (simp add: log_good_def log_ok_def log_simple_def log_new_def)
  then show ?thesis using assms(1) by (auto simp: log_good_def view_graph_ok view_simple view_nodes)
qed

section \<open>A document\<close>

text \<open>One environment with one tool, and a task \<open>a\<close> that needs a task \<open>b\<close>.\<close>

definition xg_sample_host :: xg_host where
  "xg_sample_host = \<lparr>xh_os = Unix, xh_vars = [], xh_deps = (\<lambda>ds. ds), xh_tasks = (\<lambda>ts. ts)\<rparr>"

definition xg_sample_env :: xg_environment where
  "xg_sample_env = \<lparr>xe_variables = Map.empty, xe_tools =
     [''cc'' \<mapsto> \<lparr>xo_exec = ''clang'', xo_args = ''-c x.c'', xo_output = None\<rparr>]\<rparr>"

definition xg_sample_project :: xg_project where
  "xg_sample_project = \<lparr>xp_env = ''E'', xp_tasks =
     [(''a'', \<lparr>xt_title = Some ''A'', xt_tool = ''cc'', xt_working_dir = ''/w'', xt_depends_on = [''b'']\<rparr>),
      (''b'', \<lparr>xt_title = None, xt_tool = ''cc'', xt_working_dir = ''/w'', xt_depends_on = []\<rparr>)]\<rparr>"

definition xg_sample_node :: "string \<Rightarrow> xg_node" where
  "xg_sample_node title = \<lparr>xn_title = title,
     xn_command = \<lparr>cmd_program = ''clang'', cmd_dir = Some ''/w'', cmd_env = Map.empty\<rparr>, xn_args = [''-c'', ''x.c'']\<rparr>"

definition xg_sample_log :: "xg_node graph_log" where
  "xg_sample_log = \<lparr>gl_nodes = [xg_sample_node ''A'', xg_sample_node []], gl_edges = [(0, 1)]\<rparr>"

definition xg_sample_events :: events where
  "xg_sample_events = map Inr
     [OtherEvent, StartElement ''BuildSet'' [],
        StartElement ''Environments'' [],
          StartElement ''Environment'' [(''Name'', ''E'')],
            StartElement ''Tools'' [],
              StartElement ''Tool'' [(''Name'', ''cc''), (''Path'', ''clang''), (''Params'', ''-c x.c'')], EndElement,
            EndElement,
          EndElement,
        EndElement,
        StartElement ''Project'' [(''Env'', ''E'')],
          StartElement ''Task'' [(''Name'', ''a''), (''Caption'', ''A''), (''Tool'', ''cc''), (''WorkingDir'', ''/w''), (''DependsOn'', ''b'')], EndElement,
          StartElement ''Task'' [(''Name'', ''b''), (''Tool'', ''cc''), (''WorkingDir'', ''/w'')], EndElement,
        EndElement,
      EndElement]"

lemma xg_sample_host_ok: "xg_host_ok xg_sample_host"
  by (simp add: xg_host_ok_def xg_sample_host_def)

lemma xg_sample_args: "parse_native Unix ''-c x.c'' = Inr [''-c'', ''x.c'']"
  by code_simp

lemma rbind_weak_cong: "m = m' \<Longrightarrow> rbind m f = rbind m' f"
  by simp

lemma xg_sample_graph: "graph_project xg_sample_host xg_sample_env xg_sample_project log_new = Inr xg_sample_log"
  using xg_sample_args
  by (simp add: graph_project_def xg_sample_host_def xg_sample_env_def xg_sample_project_def xg_sample_log_def
      xg_sample_node_def task_node_def log_node_def log_edge_def log_new_def cong: rbind_weak_cong)

lemma graph_project_adds_witness:
  "graph_project xg_sample_host xg_sample_env xg_sample_project log_new = Inr xg_sample_log \<and>
     set (gl_edges xg_sample_log) \<subseteq> {0, 1} \<times> {0, 1}"
proof
  have ok: "project_ok xg_sample_project" by (simp add: project_ok_def tasks_ok_def xg_sample_project_def)
  obtain ts where ts: "mset ts = mset (xp_tasks xg_sample_project)"
    "set (gl_edges xg_sample_log) = {(k, l) |k l. k < length ts \<and> l < length ts \<and> fst (ts ! l) \<in> set (xt_depends_on (snd (ts ! k)))}"
    using graph_project_adds [OF xg_sample_host_ok ok xg_sample_graph] by (auto simp: log_new_def)
  have len: "length ts = 2" using mset_eq_length [OF ts(1)] by (simp add: xg_sample_project_def)
  have "k \<in> {0, 1}" if "k < length ts" for k using that len by auto
  then show "set (gl_edges xg_sample_log) \<subseteq> {0, 1} \<times> {0, 1}" unfolding ts(2) by blast
qed (rule xg_sample_graph)

lemma xg_sample_parse: "xg_parse xg_sample_host xg_sample_events log_new = Inr xg_sample_log"
proof -
  have "split_char (CHR '';'') ''b'' = [''b'']" by code_simp
  then show ?thesis
    using xg_sample_graph
    by (simp add: xg_sample_events_def xg_parse.simps next_xml_event_def parse_build_set_def parse_build_set_loop.simps
      parse_environments.simps parse_environment_def parse_environment_loop.simps parse_tools.simps parse_tasks.simps
      parse_skip.simps task_of_def take_attr_def map_attributes_def xg_sample_project_def xg_sample_env_def xg_sample_host_def
      env_from_iter_def env_new_def cong: rbind_weak_cong)
qed

lemma xg_parse_graph_witness: "simple_graph (list_view xg_sample_log) \<and> node_count (list_view xg_sample_log) = 2"
  using xg_parse_graph [OF list_view_ok xg_sample_host_ok xg_sample_parse]
  by (simp add: node_count_def xg_sample_log_def)

end
