(* ===== verification/Transition.thy ===== *)
theory Transition
  imports Main
begin

text \<open>
  Systems of threads as transition systems. The contract: an invariant that the first states have and every step keeps, and a
  well-founded relation along which every step of a good state descends. What follows from it is proved once: the invariant
  holds in every state of every run, no run is infinite, and from everywhere a state is reached in which nothing can move. The executor
  (\<open>Worker_Correct\<close>) and the semaphore of slow operations (\<open>Slow_Ops\<close>) are its instances.
\<close>

locale transition_system =
  fixes starts :: "'s \<Rightarrow> bool"
    and moves :: "'s \<Rightarrow> 's \<Rightarrow> bool"
    and good :: "'s \<Rightarrow> bool"
    and below :: "('s \<times> 's) set"
  assumes start_good: "starts s \<Longrightarrow> good s"
    and move_good: "good s \<Longrightarrow> moves s s' \<Longrightarrow> good s'"
    and below_wf: "wf below"
    and move_below: "good s \<Longrightarrow> moves s s' \<Longrightarrow> (s', s) \<in> below"

context transition_system
begin

lemma runs_good:
  assumes "moves\<^sup>*\<^sup>* s s'" "good s"
  shows "good s'"
  using assms by (induction rule: rtranclp_induct) (auto intro: move_good)

lemma run_good: "starts s \<Longrightarrow> moves\<^sup>*\<^sup>* s s' \<Longrightarrow> good s'"
  by (blast intro: runs_good start_good)

lemma no_infinite_run: "starts (f 0) \<Longrightarrow> \<exists>k. \<not> moves (f k) (f (Suc k))"
proof (rule ccontr)
  assume start: "starts (f 0)" and "\<not> (\<exists>k. \<not> moves (f k) (f (Suc k)))"
  then have move: "moves (f k) (f (Suc k))" for k by blast
  have "good (f k)" for k by (induction k) (use start start_good move move_good in blast)+
  then have "(f (Suc k), f k) \<in> below" for k using move move_below by blast
  then show False using below_wf by (meson wf_iff_no_infinite_down_chain)
qed

lemma good_ends: "good s \<Longrightarrow> \<exists>t. moves\<^sup>*\<^sup>* s t \<and> (\<forall>u. \<not> moves t u)"
proof (induction s rule: wf_induct_rule [OF below_wf])
  case (1 s)
  show ?case
  proof (cases "\<exists>u. moves s u")
    case True
    then obtain u where u: "moves s u" by blast
    then obtain t where "moves\<^sup>*\<^sup>* u t" "\<forall>v. \<not> moves t v" using 1 move_good move_below by blast
    then show ?thesis using u converse_rtranclp_into_rtranclp by metis
  qed blast
qed

text \<open>Where only final states are stuck, every run can be brought to a final state, and does not end elsewhere.\<close>

lemma run_reaches_final:
  assumes "starts s" "moves\<^sup>*\<^sup>* s s'" "\<And>t. good t \<Longrightarrow> (\<forall>u. \<not> moves t u) \<Longrightarrow> final t"
  shows "\<exists>t. moves\<^sup>*\<^sup>* s' t \<and> final t"
proof -
  note good = run_good [OF assms(1,2)]
  then obtain t where t: "moves\<^sup>*\<^sup>* s' t" "\<forall>u. \<not> moves t u" using good_ends by blast
  then show ?thesis using assms(3) [OF runs_good [OF t(1) good]] by blast
qed

end

end
