(* ===== verification/Worker_Correct.thy ===== *)
theory Worker_Correct
  imports Worker Transition
begin

text \<open>
  What the build executor guarantees. The validation accepts exactly the graphs without cycles. On an
  accepted graph without parallel edges, in every interleaving of workers and channels: no task is
  started twice, a task starts only after everything it depends on has succeeded, the assertion of the
  main loop holds, nothing waits forever, and the execution ends, with success only when all tasks have
  been run.
\<close>

section \<open>Graphs\<close>

lemma incoming_iff:
  assumes "graph_ok g"
  shows "i \<in> set (incoming g j) \<longleftrightarrow> j \<in> set (outgoing g i)"
proof -
  have "count (mset (outgoing g i)) j = count (mset (incoming g j)) i" using assms by (simp add: graph_ok_def)
  then show ?thesis by (metis count_eq_zero_iff set_mset_mset)
qed

lemma graph_range: "graph_ok g \<Longrightarrow> j \<in> set (outgoing g i) \<Longrightarrow> i < node_count g \<and> j < node_count g"
  by (auto simp: graph_ok_def)

lemma distinct_incoming:
  assumes "graph_ok g" "simple_graph g"
  shows "distinct (incoming g j)"
proof -
  have "count (mset (incoming g j)) i \<le> 1" for i
  proof -
    have "distinct (outgoing g i)" using assms(2) by (simp add: simple_graph_def)
    then have "count (mset (outgoing g i)) j \<le> 1" by (simp add: distinct_count_atmost_1)
    then show ?thesis using assms(1) by (simp add: graph_ok_def)
  qed
  then have "count (mset (incoming g j)) i = (if i \<in> set (incoming g j) then 1 else 0)" for i
    by (metis One_nat_def count_eq_zero_iff le_Suc_eq le_zero_eq set_mset_mset)
  then show ?thesis by (simp add: distinct_count_atmost_1)
qed

lemma finite_edges: "graph_ok g \<Longrightarrow> finite (edges g)"
  by (rule finite_subset [of _ "{..<node_count g} \<times> {..<node_count g}"]) (auto simp: edges_def dest: graph_range)

section \<open>Flags\<close>

definition done_set :: "bool list \<Rightarrow> nat set" where
  "done_set completed = {i. i < length completed \<and> completed ! i}"

text \<open>All dependencies of a node are done.\<close>

definition deps_done :: "'n graph \<Rightarrow> bool list \<Rightarrow> nat \<Rightarrow> bool" where
  "deps_done g completed i \<longleftrightarrow> set (outgoing g i) \<subseteq> done_set completed"

lemma finite_done [simp]: "finite (done_set completed)"
  by (rule finite_subset [of _ "{..<length completed}"]) (auto simp: done_set_def)

lemma done_set_update: "i < length completed \<Longrightarrow> done_set (completed[i := True]) = insert i (done_set completed)"
  by (auto simp: done_set_def nth_list_update)

lemma done_set_replicate [simp]: "done_set (replicate n False) = {}"
  by (auto simp: done_set_def)

lemma done_set_range: "i \<in> done_set completed \<Longrightarrow> i < length completed"
  by (simp add: done_set_def)

lemma card_done_le: "card (done_set completed) \<le> length completed"
  using card_mono [of "{..<length completed}" "done_set completed"] by (auto simp: done_set_def)

lemma card_done_full: "card (done_set completed) = length completed \<Longrightarrow> done_set completed = {..<length completed}"
  using card_subset_eq [of "{..<length completed}" "done_set completed"] by (auto simp: done_set_def)

lemma get_flag_ok: "i < length completed \<Longrightarrow> get_flag completed i = Inr (i \<in> done_set completed)"
  by (simp add: get_flag_def done_set_def)

lemma all_completed_ok:
  "\<forall>j \<in> set js. j < length completed \<Longrightarrow> all_completed completed js = Inr (set js \<subseteq> done_set completed)"
  by (induction js) (auto simp: get_flag_ok)

lemma is_ready_ok:
  "graph_ok g \<Longrightarrow> length completed = node_count g \<Longrightarrow> is_ready g completed i = Inr (deps_done g completed i)"
  by (simp add: is_ready_def deps_done_def all_completed_ok graph_range)

section \<open>Validation\<close>

definition cyclic_error :: failure where
  "cyclic_error = IoError InvalidInput ''Found cycles in build dependencies''"

text \<open>The nodes completed so far are ranked above all their dependencies; whatever is ready is still in
  the queue.\<close>

definition validating :: "'n graph \<Rightarrow> bool list \<Rightarrow> nat \<Rightarrow> nat list \<Rightarrow> (nat \<Rightarrow> nat) \<Rightarrow> bool" where
  "validating g completed cnt pending rank \<longleftrightarrow>
     length completed = node_count g \<and> cnt = card (done_set completed) \<and> cnt < node_count g \<and>
     (\<forall>i \<in> set pending. i < node_count g) \<and>
     (\<forall>i < node_count g. i \<notin> done_set completed \<and> deps_done g completed i \<longrightarrow> i \<in> set pending) \<and>
     (\<forall>i \<in> done_set completed. rank i < cnt \<and> (\<forall>j \<in> set (outgoing g i). j \<in> done_set completed \<and> rank j < rank i))"

lemma validating_skip:
  assumes "validating g completed cnt (index # pending) rank"
    "index \<in> done_set completed \<or> \<not> deps_done g completed index"
  shows "validating g completed cnt pending rank"
  using assms unfolding validating_def by (metis list.set_intros(2) set_ConsD)

lemma validating_complete:
  assumes "graph_ok g" "validating g completed cnt (index # pending) rank"
    "index \<notin> done_set completed" "deps_done g completed index" "cnt + 1 < node_count g"
  shows "validating g (completed[index := True]) (cnt + 1) (pending @ incoming g index) (rank(index := cnt))"
proof -
  note v = assms(2) [unfolded validating_def]
  have i: "index < length completed" using v by simp
  have "i < node_count g" if "i \<in> set (incoming g index)" for i
    using that assms(1) by (simp add: incoming_iff graph_range)
  moreover have "i \<in> set (pending @ incoming g index)"
    if "i < node_count g" "i \<notin> insert index (done_set completed)" "set (outgoing g i) \<subseteq> insert index (done_set completed)" for i
  proof (cases "index \<in> set (outgoing g i)")
    case True
    then show ?thesis using assms(1) by (simp add: incoming_iff)
  next
    case False
    then have "i \<in> set (index # pending)" using that v by (auto simp: deps_done_def)
    then show ?thesis using that(2) by auto
  qed
  moreover have "rank j < cnt" if "j \<in> set (outgoing g index)" for j
    using that assms(4) v by (auto simp: deps_done_def)
  moreover have "index \<notin> set (outgoing g index)"
    using assms(3,4) by (auto simp: deps_done_def)
  ultimately show ?thesis
    using v assms(3-5) i unfolding validating_def
    by (auto simp: done_set_update deps_done_def card_insert_if less_SucI)
qed

lemma validating_acyclic:
  assumes "validating g completed cnt pending rank" "index \<notin> done_set completed" "deps_done g completed index"
    "cnt + 1 = node_count g" "index < node_count g" "graph_ok g"
  shows "acyclic (edges g)"
proof (rule acyclicI_order [where f = "rank(index := cnt)"])
  note v = assms(1) [unfolded validating_def]
  have "card (insert index (done_set completed)) = node_count g" using v assms(2,4) by simp
  moreover have "insert index (done_set completed) \<subseteq> {..<node_count g}"
    using v assms(5) by (auto dest: done_set_range)
  ultimately have all: "insert index (done_set completed) = {..<node_count g}"
    using card_subset_eq [of "{..<node_count g}" "insert index (done_set completed)"] by simp
  fix a b assume e: "(a, b) \<in> edges g"
  then have "a < node_count g" "b \<in> set (outgoing g a)" using assms(6) by (auto simp: edges_def dest: graph_range)
  then consider "a = index" | "a \<in> done_set completed" using all by blast
  then show "(rank(index := cnt)) b < (rank(index := cnt)) a"
  proof cases
    case 1
    then have "b \<in> done_set completed" using assms(3) \<open>b \<in> set (outgoing g a)\<close> by (auto simp: deps_done_def)
    then show ?thesis using v 1 assms(2) by auto
  next
    case 2
    then have "b \<in> done_set completed" "rank b < rank a" using v \<open>b \<in> set (outgoing g a)\<close> by auto
    then show ?thesis using 2 assms(2) by auto
  qed
qed

text \<open>Some node of an acyclic graph is ready as long as not all are done.\<close>

lemma some_ready:
  assumes "graph_ok g" "acyclic (edges g)" "length completed = node_count g" "done_set completed \<noteq> {..<node_count g}"
  shows "\<exists>i < node_count g. i \<notin> done_set completed \<and> deps_done g completed i"
proof -
  have wf: "wf ((edges g)\<inverse>)" by (rule finite_acyclic_wf_converse [OF finite_edges [OF assms(1)] assms(2)])
  define N where "N = {..<node_count g} - done_set completed"
  have "N \<noteq> {}" using assms(3,4) by (auto simp: N_def done_set_def)
  then obtain z where z: "z \<in> N" "\<And>y. (y, z) \<in> (edges g)\<inverse> \<Longrightarrow> y \<notin> N"
    using wf by (metis wfE_min ex_in_conv)
  have "deps_done g completed z"
    using z(2) assms(1) by (auto simp: deps_done_def edges_def N_def dest: graph_range)
  then show ?thesis using z(1) by (auto simp: N_def)
qed

lemma validate_loop_ok:
  "graph_ok g \<Longrightarrow> validating g completed cnt pending rank \<Longrightarrow>
     validate_loop g completed cnt pending = (if acyclic (edges g) then Inr () else Inl cyclic_error)"
proof (induction g completed cnt pending arbitrary: rank rule: validate_loop.induct)
  case (1 g completed cnt)
  then have "done_set completed \<noteq> {..<node_count g}" by (auto simp: validating_def)
  then have "\<not> acyclic (edges g)" using some_ready [OF "1.prems"(1)] "1.prems"(2) by (auto simp: validating_def)
  then show ?case by (simp add: cyclic_error_def)
next
  case (2 g completed cnt index pending)
  have len: "length completed = node_count g" "index < node_count g"
    using "2.prems"(2) by (auto simp: validating_def)
  have flag: "get_flag completed index = Inr (index \<in> done_set completed)" using len by (simp add: get_flag_ok)
  note ready = is_ready_ok [OF "2.prems"(1) len(1), of index]
  show ?case
  proof (cases "index \<in> done_set completed \<or> \<not> deps_done g completed index")
    case True
    note v = validating_skip [OF "2.prems"(2) True]
    show ?thesis
      using "2.IH"(1) [OF flag _ "2.prems"(1) v] "2.IH"(2) [OF flag _ ready _ "2.prems"(1) v] True flag ready
      by (cases "index \<in> done_set completed") simp_all
  next
    case False
    show ?thesis
    proof (cases "cnt + 1 = node_count g")
      case True
      have "acyclic (edges g)"
        by (rule validating_acyclic [OF "2.prems"(2) _ _ True len(2) "2.prems"(1)]) (use False in auto)
      then show ?thesis using False True flag ready len by simp
    next
      case ne: False
      then have "cnt + 1 < node_count g" using "2.prems"(2) by (simp add: validating_def)
      then have "validating g (completed[index := True]) (cnt + 1) (pending @ incoming g index) (rank(index := cnt))"
        using validating_complete "2.prems" False by blast
      from "2.IH"(3) [OF flag _ ready _ _ "2.prems"(1) this] show ?thesis
        using False ne flag ready len by simp
    qed
  qed
qed

lemma validate_graph_result:
  assumes "graph_ok g"
  shows "validate_graph g = (if acyclic (edges g) then Inr g else Inl cyclic_error)"
proof (cases "node_count g = 0")
  case True
  then have "outgoing g i = []" for i using graph_range [OF assms, of _ i] by (cases "outgoing g i") auto
  then have "edges g = {}" by (simp add: edges_def)
  then show ?thesis using True by (simp add: validate_graph_def acyclic_def)
next
  case False
  then have "validating g (replicate (node_count g) False) 0 [0..<node_count g] (\<lambda>_. 0)"
    by (simp add: validating_def)
  from validate_loop_ok [OF assms this] show ?thesis using False by (simp add: validate_graph_def)
qed

text \<open>C4: \<open>validate_graph\<close> returns the graph exactly when it has no cycle, and the error
  otherwise; it never panics, and never gives up on an acyclic graph whatever the order of its nodes.\<close>

theorem validate_graph_acyclic:
  assumes "graph_ok g"
  shows "validate_graph g = (if acyclic (edges g) then Inr g else Inl cyclic_error)"
  using assms by (rule validate_graph_result)

text \<open>A task that needs two others, and two tasks that need each other.\<close>

definition sample_graph :: "nat graph" where
  "sample_graph = \<lparr>node_weights = [10, 11, 12], outgoing = (\<lambda>i. if i = 0 then [1, 2] else []),
     incoming = (\<lambda>j. if j = 1 \<or> j = 2 then [0] else [])\<rparr>"

lemma sample_graph_ok: "graph_ok sample_graph" "simple_graph sample_graph" "acyclic (edges sample_graph)"
proof -
  show "graph_ok sample_graph" by (auto simp: graph_ok_def sample_graph_def node_count_def)
  show "simple_graph sample_graph" by (simp add: simple_graph_def sample_graph_def)
  show "acyclic (edges sample_graph)"
    by (rule acyclicI_order [where f = "\<lambda>i. if i = 0 then 1 else 0 :: nat"])
      (auto simp: edges_def sample_graph_def split: if_splits)
qed

lemma validate_graph_acyclic_witness: "validate_graph sample_graph = Inr sample_graph"
  using validate_graph_acyclic [OF sample_graph_ok(1)] sample_graph_ok(3) by simp

section \<open>The invariant of the executor\<close>

fun somes :: "'a option list \<Rightarrow> 'a list" where
  "somes [] = []"
| "somes (None # xs) = somes xs"
| "somes (Some x # xs) = x # somes xs"

lemma somes_take:
  "w < length bs \<Longrightarrow> bs ! w = None \<Longrightarrow> mset (somes (bs[w := Some t])) = add_mset t (mset (somes bs))"
proof (induction bs arbitrary: w)
  case (Cons b bs)
  then show ?case by (cases b; cases w) auto
qed simp

lemma somes_finish:
  "w < length bs \<Longrightarrow> bs ! w = Some t \<Longrightarrow> mset (somes bs) = add_mset t (mset (somes (bs[w := None])))"
proof (induction bs arbitrary: w)
  case (Cons b bs)
  then show ?case by (cases b; cases w) auto
qed simp

lemma somes_replicate [simp]: "somes (replicate n None) = []"
  by (induction n) auto

lemma somes_Nil: "somes bs = [] \<longleftrightarrow> (\<forall>b \<in> set bs. b = None)"
  by (induction bs rule: somes.induct) auto

text \<open>Tasks sent whose result has not been received, and the nodes whose dependencies are done.\<close>

definition in_flight :: "system \<Rightarrow> nat multiset" where
  "in_flight s = mset (sy_tasks s) + mset (somes (sy_busy s)) + mset (map rm_index (sy_results s))"

definition ready_set :: "'n graph \<Rightarrow> bool list \<Rightarrow> nat set" where
  "ready_set g completed = {i. i < node_count g \<and> deps_done g completed i}"

lemma finite_ready [simp]: "finite (ready_set g completed)"
  by (simp add: ready_set_def)

text \<open>Every task in the list stands behind its dependencies.\<close>

definition topological :: "'n graph \<Rightarrow> nat list \<Rightarrow> bool" where
  "topological g ts \<longleftrightarrow> (\<forall>xs t ys. ts = xs @ t # ys \<longrightarrow> set (outgoing g t) \<subseteq> set xs)"

lemma topological_snoc:
  assumes "topological g ts" "set (outgoing g t) \<subseteq> set ts"
  shows "topological g (ts @ [t])"
  unfolding topological_def
proof (intro allI impI)
  fix xs u ys assume *: "ts @ [t] = xs @ u # ys"
  show "set (outgoing g u) \<subseteq> set xs"
  proof (cases ys rule: rev_exhaust)
    case Nil
    then show ?thesis using * assms(2) by simp
  next
    case (snoc zs z)
    then have "ts = xs @ u # zs" using * by simp
    then show ?thesis using assms(1) by (simp add: topological_def)
  qed
qed

text \<open>What a returned value says: success only with everything done, a status or an error only from a
  task, or an error of the callback.\<close>

definition exit_ok ::
    "'n graph \<Rightarrow> ('n \<Rightarrow> output_info result \<Rightarrow> bool) \<Rightarrow> ('n build_result \<Rightarrow> unit result) \<Rightarrow> bool list \<Rightarrow> exit_result \<Rightarrow> bool" where
  "exit_ok g outcome update completed r \<longleftrightarrow>
     (case r of
        Inr c \<Rightarrow> if c = Some 0 then done_set completed = {..<node_count g}
                 else \<exists>t < node_count g. \<exists>out. outcome (node_weights g ! t) (Inr out) \<and> oi_status out = c
      | Inl e \<Rightarrow> (\<exists>t < node_count g. outcome (node_weights g ! t) (Inl e)) \<or> (\<exists>b. update b = Inl e))"

fun phase_result :: "phase \<Rightarrow> exit_result option" where
  "phase_result Running = None"
| "phase_result (Cleanup r) = Some r"
| "phase_result (Draining r) = Some r"
| "phase_result (Finished r) = Some r"

fun phase_rank :: "phase \<Rightarrow> nat" where
  "phase_rank Running = 3"
| "phase_rank (Cleanup r) = 2"
| "phase_rank (Draining r) = 1"
| "phase_rank (Finished r) = 0"

definition task_succeeds :: "'n graph \<Rightarrow> ('n \<Rightarrow> output_info result \<Rightarrow> bool) \<Rightarrow> nat \<Rightarrow> bool" where
  "task_succeeds g outcome t \<longleftrightarrow> (\<exists>out. outcome (node_weights g ! t) (Inr out) \<and> success out)"

definition exec_inv ::
    "'n graph \<Rightarrow> ('n \<Rightarrow> output_info result \<Rightarrow> bool) \<Rightarrow> ('n build_result \<Rightarrow> unit result) \<Rightarrow> system \<Rightarrow> bool" where
  "exec_inv g outcome update s \<longleftrightarrow>
     length (sy_completed s) = node_count g \<and>
     mset (sy_tasks s) + mset (sy_started s) \<subseteq># mset_set (ready_set g (sy_completed s)) \<and>
     mset (somes (sy_busy s)) + mset (map rm_index (sy_results s)) \<subseteq># mset (sy_started s) \<and>
     done_set (sy_completed s) \<subseteq> set (sy_started s) \<and>
     topological g (sy_started s) \<and>
     (\<forall>t \<in> done_set (sy_completed s). task_succeeds g outcome t) \<and>
     (\<forall>m \<in> set (sy_results s). outcome (node_weights g ! rm_index m) (rm_result m)) \<and>
     (phase_rank (sy_phase s) \<le> 1 \<longrightarrow> sy_tasks s = []) \<and>
     (\<forall>r. phase_result (sy_phase s) = Some r \<longrightarrow> exit_ok g outcome update (sy_completed s) r)"

definition run_inv :: "'n graph \<Rightarrow> system \<Rightarrow> bool" where
  "run_inv g s \<longleftrightarrow>
     (sy_phase s = Running \<longrightarrow>
       in_flight s = mset_set (ready_set g (sy_completed s) - done_set (sy_completed s)) \<and>
       mset (sy_tasks s) + mset (sy_started s) = mset_set (ready_set g (sy_completed s)) \<and>
       sy_count s = card (done_set (sy_completed s)) \<and> sy_count s < node_count g)"

lemma mset_sub_distinct: "mset xs \<subseteq># mset_set A \<Longrightarrow> distinct xs"
proof -
  assume "mset xs \<subseteq># mset_set A"
  then have "count (mset xs) i \<le> 1" for i
  proof -
    have "count (mset xs) i \<le> count (mset_set A) i" by (rule mset_subset_eq_count) fact
    also have "... \<le> 1" by (simp add: count_mset_set')
    finally show ?thesis .
  qed
  then show ?thesis
    by (metis One_nat_def count_eq_zero_iff distinct_count_atmost_1 le_Suc_eq le_zero_eq set_mset_mset)
qed

lemma exec_inv_started:
  assumes "exec_inv g outcome update s"
  shows "distinct (sy_started s)" "set (sy_started s) \<subseteq> ready_set g (sy_completed s)"
    "set (sy_tasks s) \<subseteq> ready_set g (sy_completed s)" "length (sy_tasks s) + length (sy_started s) \<le> node_count g"
proof -
  let ?R = "ready_set g (sy_completed s)"
  have sub: "mset (sy_tasks s @ sy_started s) \<subseteq># mset_set ?R" using assms by (simp add: exec_inv_def)
  then have "distinct (sy_tasks s @ sy_started s)" by (rule mset_sub_distinct)
  moreover have set: "set (sy_tasks s @ sy_started s) \<subseteq> ?R" using set_mset_mono [OF sub] by simp
  ultimately show "distinct (sy_started s)" "set (sy_started s) \<subseteq> ?R" "set (sy_tasks s) \<subseteq> ?R" by auto
  have "size (mset (sy_tasks s @ sy_started s)) \<le> card ?R" using size_mset_mono [OF sub] by simp
  also have "card ?R \<le> node_count g"
    using card_mono [of "{..<node_count g}" ?R] by (auto simp: ready_set_def)
  finally show "length (sy_tasks s) + length (sy_started s) \<le> node_count g" by simp
qed

section \<open>Receiving a result\<close>

lemma ready_sources_ok:
  "graph_ok g \<Longrightarrow> length completed = node_count g \<Longrightarrow>
     ready_sources g completed ss = Inr (filter (deps_done g completed) ss)"
  by (induction ss) (simp_all add: is_ready_ok)

text \<open>The nodes that become ready when \<open>i\<close> is completed are the ready sources of \<open>i\<close>, all new.\<close>

lemma ready_set_complete:
  assumes "graph_ok g" "length completed = node_count g" "i \<in> ready_set g completed" "i \<notin> done_set completed"
    "done_set completed \<subseteq> ready_set g completed"
  defines "completed' \<equiv> completed[i := True]"
  defines "sources \<equiv> filter (deps_done g completed') (incoming g i)"
  shows "ready_set g completed' = ready_set g completed \<union> set sources"
    and "set sources \<inter> ready_set g completed = {}"
    and "set sources \<inter> done_set completed' = {}"
proof -
  have i: "i < length completed" using assms(2,3) by (simp add: ready_set_def)
  note done' = done_set_update [OF i, folded completed'_def]
  have new: "s \<notin> ready_set g completed" if "s \<in> set sources" for s
    using that assms(1,4) by (auto simp: sources_def incoming_iff ready_set_def deps_done_def)
  then show disj: "set sources \<inter> ready_set g completed = {}" by auto
  show "set sources \<inter> done_set completed' = {}"
    using new assms(3,5) by (auto simp: done')
  show "ready_set g completed' = ready_set g completed \<union> set sources"
  proof (intro equalityI subsetI)
    fix s assume s: "s \<in> ready_set g completed'"
    show "s \<in> ready_set g completed \<union> set sources"
    proof (cases "i \<in> set (outgoing g s)")
      case True
      then show ?thesis using s assms(1) by (simp add: sources_def incoming_iff ready_set_def)
    next
      case False
      then show ?thesis using s by (auto simp: ready_set_def deps_done_def done')
    qed
  next
    fix s assume "s \<in> ready_set g completed \<union> set sources"
    then show "s \<in> ready_set g completed'"
      using assms(1) by (auto simp: ready_set_def deps_done_def done' sources_def incoming_iff dest: graph_range)
  qed
qed

text \<open>The same for the tasks to come and those under way, counted.\<close>

lemma ready_mset_complete:
  assumes "graph_ok g" "simple_graph g" "length completed = node_count g" "i \<in> ready_set g completed" "i \<notin> done_set completed"
    "done_set completed \<subseteq> ready_set g completed"
  defines "completed' \<equiv> completed[i := True]"
  defines "sources \<equiv> filter (deps_done g completed') (incoming g i)"
  shows "mset_set (ready_set g completed') = mset_set (ready_set g completed) + mset sources"
    and "add_mset i (mset_set (ready_set g completed' - done_set completed')) =
      mset_set (ready_set g completed - done_set completed) + mset sources"
proof -
  note rc = ready_set_complete [OF assms(1,3-6), folded completed'_def, folded sources_def]
  let ?R = "ready_set g completed" and ?D = "done_set completed"
  have "i < length completed" using assms(3,4) by (simp add: ready_set_def)
  then have done': "done_set completed' = insert i ?D" by (simp add: completed'_def done_set_update)
  have "distinct sources" using distinct_incoming [OF assms(1,2)] by (simp add: sources_def)
  then have msrc: "mset sources = mset_set (set sources)" by (simp add: mset_set_set)
  then show "mset_set (ready_set g completed') = mset_set ?R + mset sources"
    using rc(1,2) by (simp add: mset_set_Union Int_commute)
  have "ready_set g completed' - done_set completed' = (?R - ?D - {i}) \<union> set sources"
    using rc done' by auto
  moreover have "(?R - ?D - {i}) \<inter> set sources = {}" using rc(2) by auto
  ultimately have "mset_set (ready_set g completed' - done_set completed') = mset_set (?R - ?D - {i}) + mset sources"
    using msrc by (simp add: mset_set_Union)
  moreover have "mset_set (?R - ?D) = add_mset i (mset_set (?R - ?D - {i}))"
    using assms(4,5) by (simp add: mset_set.remove)
  ultimately show "add_mset i (mset_set (ready_set g completed' - done_set completed')) = mset_set (?R - ?D) + mset sources"
    by simp
qed

text \<open>The cases of \<open>handle_message\<close> for a message of a node that is not completed.\<close>

lemma handle_message_cases:
  assumes "graph_ok g" "length completed = node_count g" "rm_index m < node_count g" "rm_index m \<notin> done_set completed"
  obtains (Error) e where "handle_message g update completed cnt m = (completed, cnt + 1, [], Some (Inl e))"
      "rm_result m = Inl e \<or> (\<exists>b. update b = Inl e)"
  | (Failure) out where "handle_message g update completed cnt m = (completed, cnt + 1, [], Some (Inr (oi_status out)))"
      "rm_result m = Inr out" "\<not> success out"
  | (Success) out where "handle_message g update completed cnt m =
        (completed[rm_index m := True], cnt + 1,
         filter (deps_done g (completed[rm_index m := True])) (incoming g (rm_index m)),
         if cnt + 1 = node_count g then Some (Inr (Some 0)) else None)"
      "rm_result m = Inr out" "success out"
proof -
  have flag: "get_flag completed (rm_index m) = Inr False" using assms(2-4) by (simp add: get_flag_ok)
  have sources: "ready_sources g (completed[rm_index m := True]) ss =
      Inr (filter (deps_done g (completed[rm_index m := True])) ss)" for ss
    using assms(1,2) by (simp add: ready_sources_ok)
  let ?b = "build_result_new g m (cnt + 1)"
  consider (u) e where "update ?b = Inl e" | (r) u e where "update ?b = Inr u" "rm_result m = Inl e"
    | (o) u out where "update ?b = Inr u" "rm_result m = Inr out" by (metis sum.exhaust)
  then show ?thesis
  proof cases
    case u
    then show ?thesis using flag by (intro Error [of e]) (auto simp: handle_message_def)
  next
    case r
    then show ?thesis using flag by (intro Error [of e]) (auto simp: handle_message_def)
  next
    case o
    then show ?thesis
      using flag sources assms(2) Failure [of out] Success [of out]
      by (cases "success out") (simp_all add: handle_message_def Let_def)
  qed
qed

lemma receive_inv:
  assumes "graph_ok g" "simple_graph g" "exec_inv g outcome update s" "run_inv g s"
    "sy_phase s = Running" "sy_results s = m # ms"
  shows "exec_inv g outcome update (receive g update m s) \<and> run_inv g (receive g update m s)"
proof -
  let ?c = "sy_completed s" and ?i = "rm_index m"
  note e = assms(3) [unfolded exec_inv_def]
  note r = assms(4) [unfolded run_inv_def, THEN mp, OF assms(5)]
  note st = exec_inv_started [OF assms(3)]
  have len: "length ?c = node_count g" using e by simp
  have "?i \<in># in_flight s" using assms(6) by (simp add: in_flight_def)
  then have i: "?i \<in> ready_set g ?c" "?i \<notin> done_set ?c" using r by simp_all
  then have lt: "?i < node_count g" by (simp add: ready_set_def)
  have started: "?i \<in> set (sy_started s)"
    using e assms(6) by (metis in_multiset_in_set list.set_intros(1) list.simps(9) mset_subset_eqD union_iff)
  have sub: "mset (somes (sy_busy s)) + mset (map rm_index ms) \<subseteq># mset (sy_started s)"
    using e assms(6) by (auto intro: subset_mset.order_trans [rotated])
  have outc: "outcome (node_weights g ! ?i) (rm_result m)" using e assms(6) by simp
  show ?thesis
  proof (rule handle_message_cases [OF assms(1) len lt i(2), of update "sy_count s"])
    fix x assume Error: "handle_message g update ?c (sy_count s) m = (?c, sy_count s + 1, [], Some (Inl x))"
      "rm_result m = Inl x \<or> (\<exists>b. update b = Inl x)"
    then have "exit_ok g outcome update ?c (Inl x)" using outc lt by (auto simp: exit_ok_def)
    then show ?thesis using Error e sub assms(6) by (simp add: receive_def exec_inv_def run_inv_def)
  next
    fix out assume Failure: "handle_message g update ?c (sy_count s) m = (?c, sy_count s + 1, [], Some (Inr (oi_status out)))"
      "rm_result m = Inr out" "\<not> success out"
    then have "oi_status out \<noteq> Some 0" by (auto simp: success_def split: option.splits)
    then have "exit_ok g outcome update ?c (Inr (oi_status out))"
      using outc lt Failure(2) by (auto simp: exit_ok_def)
    then show ?thesis using Failure e sub assms(6) by (simp add: receive_def exec_inv_def run_inv_def)
  next
    fix out assume Success: "handle_message g update ?c (sy_count s) m =
        (?c[?i := True], sy_count s + 1, filter (deps_done g (?c[?i := True])) (incoming g ?i),
         if sy_count s + 1 = node_count g then Some (Inr (Some 0)) else None)"
      "rm_result m = Inr out" "success out"
    then have succ: "task_succeeds g outcome ?i" using outc by (auto simp: task_succeeds_def)
    define c' where "c' = ?c[?i := True]"
    define src where "src = filter (deps_done g c') (incoming g ?i)"
    have dr: "done_set ?c \<subseteq> ready_set g ?c" using e st(2) by auto
    have done': "done_set c' = insert ?i (done_set ?c)" using lt len by (simp add: c'_def done_set_update)
    note mc = ready_mset_complete [OF assms(1,2) len i dr, folded c'_def, folded src_def]
    have ts: "mset (sy_tasks s @ src) + mset (sy_started s) = mset_set (ready_set g c')"
      using r mc(1) by (simp add: ac_simps)
    have now: "mset_set (ready_set g ?c - done_set ?c) =
        add_mset ?i (mset (sy_tasks s) + mset (somes (sy_busy s)) + mset (map rm_index ms))"
      using r assms(6) by (simp add: in_flight_def ac_simps)
    have flight: "mset (sy_tasks s @ src) + mset (somes (sy_busy s)) + mset (map rm_index ms) =
        mset_set (ready_set g c' - done_set c')"
      using mc(2) [unfolded now, symmetric] by (simp add: ac_simps)
    have cnt: "sy_count s + 1 = card (done_set c')" using r done' i(2) by simp
    then have le: "sy_count s + 1 \<le> node_count g" using card_done_le [of c'] len by (simp add: c'_def)
    have full: "exit_ok g outcome update c' (Inr (Some 0))" if "sy_count s + 1 = node_count g"
      using card_done_full [of c'] cnt that len by (simp add: exit_ok_def c'_def)
    have "receive g update m s = s\<lparr>sy_completed := c', sy_count := sy_count s + 1, sy_tasks := sy_tasks s @ src,
        sy_results := ms, sy_phase := (if sy_count s + 1 = node_count g then Cleanup (Inr (Some 0)) else Running)\<rparr>"
      using Success(1) assms(6) by (simp add: receive_def c'_def src_def)
    then show ?thesis
      using e ts flight cnt le full sub done' started succ assms(6)
      by (auto simp: exec_inv_def run_inv_def in_flight_def c'_def)
  qed
qed

section \<open>All steps\<close>

inductive_cases stepE: "step g outcome update s s'"

lemma step_inv:
  assumes "graph_ok g" "simple_graph g" "exec_inv g outcome update s" "run_inv g s" "step g outcome update s s'"
  shows "exec_inv g outcome update s' \<and> run_inv g s'"
  using assms(5)
proof (cases rule: step.cases)
  case (take_task w t ts)
  note e = assms(3) [unfolded exec_inv_def]
  have "t \<in> ready_set g (sy_completed s)" using exec_inv_started(3) [OF assms(3)] take_task(4) by auto
  then have "topological g (sy_started s @ [t])"
    using e by (intro topological_snoc) (auto simp: ready_set_def deps_done_def)
  moreover have "mset (somes ((sy_busy s)[w := Some t])) = add_mset t (mset (somes (sy_busy s)))"
    using take_task by (simp add: somes_take)
  moreover have "\<not> phase_rank (sy_phase s) \<le> 1" using e take_task(4) by auto
  ultimately show ?thesis
    using take_task assms(3,4) by (auto simp: exec_inv_def run_inv_def in_flight_def ac_simps)
next
  case (finish_task w t r)
  then have "mset (somes (sy_busy s)) = add_mset t (mset (somes ((sy_busy s)[w := None])))" by (simp add: somes_finish)
  then show ?thesis
    using finish_task assms(3,4) by (auto simp: exec_inv_def run_inv_def in_flight_def ac_simps)
next
  case (receive_result m ms)
  then show ?thesis using receive_inv [OF assms(1-4)] by simp
next
  case (clear_task r t ts)
  have "mset ts + mset (sy_started s) \<subseteq># mset (sy_tasks s) + mset (sy_started s)" using clear_task(3) by simp
  also have "... \<subseteq># mset_set (ready_set g (sy_completed s))" using assms(3) by (simp add: exec_inv_def)
  finally show ?thesis
    using clear_task assms(3) by (simp add: exec_inv_def run_inv_def)
next
  case (clear_end r)
  then show ?thesis using assms(3) by (simp add: exec_inv_def run_inv_def)
next
  case (drain_result r m ms)
  note e = assms(3) [unfolded exec_inv_def]
  have "mset (somes (sy_busy s)) + mset (map rm_index ms) \<subseteq># mset (sy_started s)"
    using e drain_result(3) by (auto intro: subset_mset.order_trans [rotated])
  moreover have "exit_ok g outcome update (sy_completed s) (Inl x)" if "update b = Inl x" for b x
    using that by (auto simp: exit_ok_def)
  ultimately show ?thesis
    using drain_result e by (auto simp: exec_inv_def run_inv_def split: sum.split)
next
  case (drain_end r)
  then show ?thesis using assms(3) by (auto simp: exec_inv_def run_inv_def)
qed

lemma init_inv:
  assumes "graph_ok g" "0 < node_count g"
  shows "exec_inv g outcome update (system_init g workers) \<and> run_inv g (system_init g workers)"
proof -
  have "ready_set g (replicate (node_count g) False) = set (externals g)"
    by (auto simp: ready_set_def deps_done_def externals_def)
  moreover have "distinct (externals g)" by (simp add: externals_def)
  ultimately have "mset_set (ready_set g (replicate (node_count g) False)) = mset (externals g)"
    by (simp add: mset_set_set)
  then show ?thesis
    using assms(2) by (simp add: exec_inv_def run_inv_def system_init_def in_flight_def topological_def)
qed

text \<open>Starting a task, leaving a phase, finishing or receiving a result, dropping a task.\<close>

definition step_measure :: "nat \<Rightarrow> (system \<times> system) set" where
  "step_measure n = measures [\<lambda>s. n - length (sy_started s), \<lambda>s. phase_rank (sy_phase s),
     \<lambda>s. 2 * length (somes (sy_busy s)) + length (sy_results s), \<lambda>s. length (sy_tasks s)]"

lemma step_decreases:
  assumes "exec_inv g outcome update s" "step g outcome update s s'"
  shows "(s', s) \<in> step_measure (node_count g)"
  using assms(2)
proof (cases rule: step.cases)
  case (take_task w t ts)
  then have "node_count g - Suc (length (sy_started s)) < node_count g - length (sy_started s)"
    using exec_inv_started(4) [OF assms(1)] by simp
  then show ?thesis using take_task by (simp add: step_measure_def)
next
  case (finish_task w t r)
  have "length (somes (sy_busy s)) = Suc (length (somes ((sy_busy s)[w := None])))"
    using arg_cong [OF somes_finish [OF finish_task(2,3)], of size] by simp
  then show ?thesis using finish_task by (simp add: step_measure_def)
next
  case (receive_result m ms)
  then show ?thesis by (auto simp: step_measure_def receive_def split: prod.split option.split)
next
  case (drain_result r m ms)
  then show ?thesis by (auto simp: step_measure_def split: sum.split)
qed (auto simp: step_measure_def)

section \<open>The executor as a transition system\<close>

definition exec_good ::
    "'n graph \<Rightarrow> ('n \<Rightarrow> output_info result \<Rightarrow> bool) \<Rightarrow> ('n build_result \<Rightarrow> unit result) \<Rightarrow> nat \<Rightarrow> system \<Rightarrow> bool" where
  "exec_good g outcome update workers s \<longleftrightarrow>
     graph_ok g \<and> simple_graph g \<and> 0 < node_count g \<and>
     exec_inv g outcome update s \<and> run_inv g s \<and> length (sy_busy s) = workers"

definition exec_start :: "'n graph \<Rightarrow> nat \<Rightarrow> system \<Rightarrow> bool" where
  "exec_start g workers s \<longleftrightarrow> graph_ok g \<and> simple_graph g \<and> 0 < node_count g \<and> s = system_init g workers"

interpretation executor: transition_system "exec_start g workers" "step g outcome update" "exec_good g outcome update workers"
    "step_measure (node_count g)" for g outcome update workers
proof
  fix s s' assume good: "exec_good g outcome update workers s" and move: "step g outcome update s s'"
  have "length (sy_busy s') = length (sy_busy s)"
    using move by (cases rule: step.cases) (auto simp: receive_def split: prod.split)
  then show "exec_good g outcome update workers s'" using good step_inv [OF _ _ _ _ move] by (auto simp: exec_good_def)
  show "(s', s) \<in> step_measure (node_count g)" using good move step_decreases by (auto simp: exec_good_def)
qed (auto simp: exec_start_def exec_good_def init_inv step_measure_def, simp add: system_init_def)

lemma reachable_runs: "reachable g outcome update workers s \<longleftrightarrow> (step g outcome update)\<^sup>*\<^sup>* (system_init g workers) s"
proof
  assume "reachable g outcome update workers s"
  then show "(step g outcome update)\<^sup>*\<^sup>* (system_init g workers) s"
    by induction (auto intro: rtranclp.rtrancl_into_rtrancl)
next
  assume "(step g outcome update)\<^sup>*\<^sup>* (system_init g workers) s"
  then show "reachable g outcome update workers s"
    by (induction rule: rtranclp_induct) (auto intro: reachable.intros)
qed

lemma reachable_inv:
  assumes "graph_ok g" "simple_graph g" "0 < node_count g" "reachable g outcome update workers s"
  shows "exec_inv g outcome update s \<and> run_inv g s \<and> length (sy_busy s) = workers"
  using executor.run_good [of g workers "system_init g workers" outcome update s] assms
  by (simp add: exec_start_def exec_good_def reachable_runs)

section \<open>Progress and termination\<close>

lemma run_inv_busy:
  assumes "graph_ok g" "acyclic (edges g)" "exec_inv g outcome update s" "run_inv g s" "sy_phase s = Running"
  shows "sy_tasks s \<noteq> [] \<or> somes (sy_busy s) \<noteq> [] \<or> sy_results s \<noteq> []"
proof -
  let ?c = "sy_completed s"
  note run = assms(4) [unfolded run_inv_def, THEN mp, OF assms(5)]
  have "card (done_set ?c) < node_count g" using run by linarith
  then have "done_set ?c \<noteq> {..<node_count g}" by (metis card_lessThan less_irrefl)
  moreover have "length ?c = node_count g" using assms(3) by (simp add: exec_inv_def)
  ultimately obtain i where "i \<in> ready_set g ?c - done_set ?c"
    using some_ready [OF assms(1,2)] unfolding ready_set_def by blast
  then have "mset_set (ready_set g ?c - done_set ?c) \<noteq> {#}" by (metis empty_iff finite_Diff finite_ready mset_set_empty_iff)
  then have "in_flight s \<noteq> {#}" using run by simp
  then show ?thesis by (auto simp: in_flight_def)
qed

lemma set_somes: "x \<in> set (somes bs) \<longleftrightarrow> Some x \<in> set bs"
  by (induction bs rule: somes.induct) auto

lemma busy_step:
  assumes "somes (sy_busy s) \<noteq> []" "\<forall>n. \<exists>r. outcome n r"
  shows "\<exists>s'. step g outcome update s s'"
proof -
  obtain x where "x \<in> set (somes (sy_busy s))" using assms(1) by (meson last_in_set)
  then have "Some x \<in> set (sy_busy s)" by (simp add: set_somes)
  then obtain w where "w < length (sy_busy s)" "sy_busy s ! w = Some x" by (auto simp: in_set_conv_nth)
  then show ?thesis using assms(2) by (blast intro: step.finish_task)
qed

lemma task_step:
  assumes "sy_tasks s = t # ts" "somes (sy_busy s) = []" "0 < length (sy_busy s)"
  shows "\<exists>s'. step g outcome update s s'"
  using step.take_task [of 0 s t ts g outcome update] assms by (auto simp: somes_Nil)

section \<open>Properties of execution\<close>

lemma started_in_order:
  assumes "graph_ok g" "simple_graph g" "0 < node_count g" "reachable g outcome update workers s"
  shows "distinct (sy_started s) \<and> set (sy_started s) \<subseteq> {..<node_count g} \<and>
    (\<forall>xs t ys. sy_started s = xs @ t # ys \<longrightarrow> set (outgoing g t) \<subseteq> set xs)"
proof -
  have "exec_inv g outcome update s" using reachable_inv [OF assms] by simp
  then show ?thesis
    using exec_inv_started(1,2) [of g outcome update s]
    by (auto simp: exec_inv_def topological_def ready_set_def)
qed

text \<open>C3: In every reachable state of the executor, whatever the interleaving of workers and
  channels, no task has been started twice, and each started task stands behind all the tasks it
  depends on.\<close>

theorem tasks_started_once_in_order:
  assumes "graph_ok g" "simple_graph g" "0 < node_count g" "reachable g outcome update workers s"
  shows "distinct (sy_started s) \<and> set (sy_started s) \<subseteq> {..<node_count g} \<and>
    (\<forall>xs t ys. sy_started s = xs @ t # ys \<longrightarrow> set (outgoing g t) \<subseteq> set xs)"
  using assms by (rule started_in_order)

lemma execution_value:
  assumes "graph_ok g" "simple_graph g" "0 < node_count g" "reachable g outcome update workers s"
    "sy_phase s = Finished r"
  shows "case r of
      Inr c \<Rightarrow> if c = Some 0 then done_set (sy_completed s) = {..<node_count g} \<and> set (sy_started s) = {..<node_count g} \<and>
                 (\<forall>t < node_count g. \<exists>out. outcome (node_weights g ! t) (Inr out) \<and> success out)
               else \<exists>t < node_count g. \<exists>out. outcome (node_weights g ! t) (Inr out) \<and> oi_status out = c
    | Inl e \<Rightarrow> (\<exists>t < node_count g. outcome (node_weights g ! t) (Inl e)) \<or> (\<exists>b. update b = Inl e)"
proof -
  have inv: "exec_inv g outcome update s" using reachable_inv [OF assms(1-4)] by simp
  have "exit_ok g outcome update (sy_completed s) r" using inv assms(5) by (simp add: exec_inv_def)
  moreover have "set (sy_started s) \<subseteq> {..<node_count g}" "done_set (sy_completed s) \<subseteq> set (sy_started s)"
    "\<forall>t \<in> done_set (sy_completed s). task_succeeds g outcome t"
    using inv exec_inv_started(2) [OF inv] by (auto simp: exec_inv_def ready_set_def)
  ultimately show ?thesis by (cases r) (auto simp: exit_ok_def task_succeeds_def)
qed

text \<open>C6: When the execution ends, its value is status 0 only if every task has been started and
  each of them can end with status 0; another status is one that some task returned, and an error is one of a task or
  of the progress callback. In particular the assertion of the main loop never fails.\<close>

theorem execution_result:
  assumes "graph_ok g" "simple_graph g" "0 < node_count g" "reachable g outcome update workers s"
    "sy_phase s = Finished r"
  shows "case r of
      Inr c \<Rightarrow> if c = Some 0 then done_set (sy_completed s) = {..<node_count g} \<and> set (sy_started s) = {..<node_count g} \<and>
                 (\<forall>t < node_count g. \<exists>out. outcome (node_weights g ! t) (Inr out) \<and> success out)
               else \<exists>t < node_count g. \<exists>out. outcome (node_weights g ! t) (Inr out) \<and> oi_status out = c
    | Inl e \<Rightarrow> (\<exists>t < node_count g. outcome (node_weights g ! t) (Inl e)) \<or> (\<exists>b. update b = Inl e)"
  using assms by (rule execution_value)

lemma good_never_stuck:
  assumes "exec_good g outcome update workers s" "acyclic (edges g)" "0 < workers" "\<forall>n. \<exists>r. outcome n r"
    "\<forall>r. sy_phase s \<noteq> Finished r"
  shows "\<exists>s'. step g outcome update s s'"
proof -
  have inv: "graph_ok g" "exec_inv g outcome update s" "run_inv g s" and len: "0 < length (sy_busy s)"
    using assms(1,3) by (auto simp: exec_good_def)
  show ?thesis
  proof (cases "somes (sy_busy s) = []")
    case False
    then show ?thesis using busy_step assms(4) by blast
  next
    case idle: True
    show ?thesis
    proof (cases "sy_phase s")
      case Running
      show ?thesis
      proof (cases "sy_tasks s")
        case Nil
        then obtain m ms where "sy_results s = m # ms"
          using run_inv_busy [OF inv(1) assms(2) inv(2,3) Running] idle by (cases "sy_results s") auto
        then show ?thesis using Running step.receive_result by blast
      next
        case (Cons t ts)
        then show ?thesis using task_step idle len by blast
      qed
    next
      case (Cleanup r)
      then show ?thesis using step.clear_task step.clear_end by (cases "sy_tasks s") blast+
    next
      case (Draining r)
      then show ?thesis
        using step.drain_result step.drain_end idle by (cases "sy_results s") (auto simp: somes_Nil, blast+)
    next
      case (Finished r)
      then show ?thesis using assms(5) by simp
    qed
  qed
qed

lemma execution_never_stuck:
  assumes "graph_ok g" "simple_graph g" "acyclic (edges g)" "0 < node_count g" "0 < workers"
    "reachable g outcome update workers s" "\<forall>n. \<exists>r. outcome n r" "\<forall>r. sy_phase s \<noteq> Finished r"
  shows "\<exists>s'. step g outcome update s s'"
  using reachable_inv [OF assms(1,2,4,6)] assms by (intro good_never_stuck [of g outcome update workers s]) (auto simp: exec_good_def)

text \<open>From wherever an execution has come to, its end can be reached.\<close>

lemma execution_reaches_end:
  assumes "graph_ok g" "simple_graph g" "acyclic (edges g)" "0 < node_count g" "0 < workers"
    "reachable g outcome update workers s" "\<forall>n. \<exists>r. outcome n r"
  shows "\<exists>t r. reachable g outcome update workers t \<and> (step g outcome update)\<^sup>*\<^sup>* s t \<and> sy_phase t = Finished r"
proof -
  have start: "exec_start g workers (system_init g workers)" using assms(1,2,4) by (simp add: exec_start_def)
  note run = assms(6) [unfolded reachable_runs]
  obtain t where t: "(step g outcome update)\<^sup>*\<^sup>* s t" "\<exists>r. sy_phase t = Finished r"
    using executor.run_reaches_final [OF start run, of "\<lambda>t. \<exists>r. sy_phase t = Finished r"] good_never_stuck assms(3,5,7) by blast
  then show ?thesis using rtranclp_trans [OF run t(1)] unfolding reachable_runs by blast
qed


text \<open>C8: Every execution ends: there is no infinite sequence of steps, whatever the threads
  do and whatever the tasks return.\<close>

theorem execution_terminates:
  assumes "graph_ok g" "simple_graph g" "0 < node_count g"
  shows "\<not> (\<exists>f. f 0 = system_init g workers \<and> (\<forall>k. step g outcome update (f k) (f (Suc k))))"
  using executor.no_infinite_run [of g workers _ outcome update] assms by (auto simp: exec_start_def)

section \<open>A run\<close>

text \<open>Task 0 needs task 1; one worker; both tasks succeed.\<close>

definition chain_graph :: "nat graph" where
  "chain_graph = \<lparr>node_weights = [10, 11], outgoing = (\<lambda>i. if i = 0 then [1] else []),
     incoming = (\<lambda>j. if j = 1 then [0] else [])\<rparr>"

definition ok_output :: output_info where
  "ok_output = \<lparr>oi_status = Some 0, oi_stdout = [], oi_stderr = []\<rparr>"

definition all_ok :: "nat \<Rightarrow> output_info result \<Rightarrow> bool" where
  "all_ok n r \<longleftrightarrow> r = Inr ok_output"

definition silent :: "nat build_result \<Rightarrow> unit result" where
  "silent b = Inr ()"

lemma chain_graph_ok: "graph_ok chain_graph" "simple_graph chain_graph" "0 < node_count chain_graph" "acyclic (edges chain_graph)"
proof -
  show "graph_ok chain_graph" by (auto simp: graph_ok_def chain_graph_def node_count_def)
  show "simple_graph chain_graph" by (simp add: simple_graph_def chain_graph_def)
  show "0 < node_count chain_graph" by (simp add: chain_graph_def node_count_def)
  show "acyclic (edges chain_graph)"
    by (rule acyclicI_order [where f = "\<lambda>i. if i = 0 then 1 else 0 :: nat"])
      (auto simp: edges_def chain_graph_def split: if_splits)
qed

abbreviation chain_state ::
    "nat list \<Rightarrow> nat option \<Rightarrow> nat option \<Rightarrow> bool list \<Rightarrow> nat \<Rightarrow> phase \<Rightarrow> nat list \<Rightarrow> system" where
  "chain_state tasks busy res completed cnt ph started \<equiv>
     \<lparr>sy_tasks = tasks, sy_busy = [busy],
      sy_results = (case res of None \<Rightarrow> [] | Some i \<Rightarrow> [\<lparr>rm_index = i, rm_worker = 0, rm_result = Inr ok_output\<rparr>]),
      sy_completed = completed, sy_count = cnt, sy_phase = ph, sy_started = started\<rparr>"

lemma chain_run:
  "reachable chain_graph all_ok silent 1 (chain_state [] (Some 0) None [False, True] 1 Running [1, 0])"
  "reachable chain_graph all_ok silent 1 (chain_state [] None None [True, True] 2 (Finished (Inr (Some 0))) [1, 0])"
proof -
  note defs = chain_graph_def node_count_def all_ok_def silent_def ok_output_def success_def receive_def
    handle_message_def get_flag_def is_ready_def build_result_new_def Let_def numeral_2_eq_2
  have "system_init chain_graph 1 = chain_state [1] None None [False, False] 0 Running []"
    by (simp add: system_init_def externals_def defs upt_rec)
  then have 0: "reachable chain_graph all_ok silent 1 (chain_state [1] None None [False, False] 0 Running [])"
    using reachable.init [of chain_graph all_ok silent 1] by simp
  have 1: "reachable chain_graph all_ok silent 1 (chain_state [] (Some 1) None [False, False] 0 Running [1])"
    using reachable.more [OF 0 step.take_task [where w = 0 and t = 1 and ts = "[]"]] by simp
  have 2: "reachable chain_graph all_ok silent 1 (chain_state [] None (Some 1) [False, False] 0 Running [1])"
    using reachable.more [OF 1 step.finish_task [where w = 0 and t = 1 and r = "Inr ok_output"]] by (simp add: all_ok_def)
  have 3: "reachable chain_graph all_ok silent 1 (chain_state [0] None None [False, True] 1 Running [1])"
    using reachable.more [OF 2 step.receive_result] by (simp add: defs)
  show 4: "reachable chain_graph all_ok silent 1 (chain_state [] (Some 0) None [False, True] 1 Running [1, 0])"
    using reachable.more [OF 3 step.take_task [where w = 0 and t = 0 and ts = "[]"]] by simp
  have 5: "reachable chain_graph all_ok silent 1 (chain_state [] None (Some 0) [False, True] 1 Running [1, 0])"
    using reachable.more [OF 4 step.finish_task [where w = 0 and t = 0 and r = "Inr ok_output"]] by (simp add: all_ok_def)
  have 6: "reachable chain_graph all_ok silent 1 (chain_state [] None None [True, True] 2 (Cleanup (Inr (Some 0))) [1, 0])"
    using reachable.more [OF 5 step.receive_result] by (simp add: defs)
  have 7: "reachable chain_graph all_ok silent 1 (chain_state [] None None [True, True] 2 (Draining (Inr (Some 0))) [1, 0])"
    using reachable.more [OF 6 step.clear_end] by simp
  show "reachable chain_graph all_ok silent 1 (chain_state [] None None [True, True] 2 (Finished (Inr (Some 0))) [1, 0])"
    using reachable.more [OF 7 step.drain_end] by simp
qed

lemma tasks_started_once_in_order_witness:
  "distinct [1, 0 :: nat] \<and> set (outgoing chain_graph 0) \<subseteq> set [1]"
proof -
  have "\<forall>xs t ys. [1, 0] = xs @ t # ys \<longrightarrow> set (outgoing chain_graph t) \<subseteq> set xs"
    using tasks_started_once_in_order [OF chain_graph_ok(1-3) chain_run(1)] by simp
  then show ?thesis by (metis append_Cons append_Nil distinct_length_2_or_more distinct_singleton one_neq_zero)
qed

lemma execution_result_witness:
  "done_set [True, True] = {..<node_count chain_graph} \<and> set [1, 0 :: nat] = {..<node_count chain_graph}"
  using execution_result [OF chain_graph_ok(1-3) chain_run(2), of "Inr (Some 0)"] by simp


lemma execution_terminates_witness:
  "\<not> (\<exists>f. f 0 = system_init chain_graph 1 \<and> (\<forall>k. step chain_graph all_ok silent (f k) (f (Suc k))))"
  by (rule execution_terminates [OF chain_graph_ok(1-3)])

end
