(* ===== verification/Xg_Console_Correct.thy ===== *)
theory Xg_Console_Correct
  imports Xg_Console Xg_Parser_Correct Worker_Correct
begin

text \<open>
  Properties of \<open>xgConsole\<close>: a variable is expanded once, and the graph of actions orders the actions
  of a task behind those of the tasks it depends on, without a cycle.
\<close>

section \<open>Variables\<close>

text \<open>An argument cut into pieces: a text, then the name of a variable.\<close>

definition show_piece :: "string \<times> string \<Rightarrow> string" where
  "show_piece p = fst p @ ''$('' @ snd p @ '')''"

definition expand_piece :: "(string \<Rightarrow> string option) \<Rightarrow> string \<times> string \<Rightarrow> string" where
  "expand_piece resolver p =
     (case resolver (snd p) of Some v \<Rightarrow> fst p @ v | None \<Rightarrow> show_piece p)"

definition piece_ok :: "string \<times> string \<Rightarrow> bool" where
  "piece_ok p \<longleftrightarrow> str_find ''$('' (fst p) = None \<and> CHR '')'' \<notin> set (snd p)"

text \<open>The rest of the argument has no complete variable.\<close>

definition plain_tail :: "string \<Rightarrow> bool" where
  "plain_tail s \<longleftrightarrow> (case str_find ''$('' s of None \<Rightarrow> True | Some i \<Rightarrow> CHR '')'' \<notin> set (drop i s))"

lemma str_find_dollar: "str_find ''$('' t = None \<Longrightarrow> str_find ''$('' (t @ CHR ''$'' # CHR ''('' # s) = Some (length t)"
proof (induction t)
  case (Cons c t)
  have "str_find ''$('' t = None" using Cons.prems by (auto split: if_splits)
  moreover have "\<not> starts_with (c # t @ CHR ''$'' # CHR ''('' # s) ''$(''"
    using Cons.prems by (cases t) (auto split: if_splits)
  ultimately show ?case using Cons.IH by simp
qed simp

lemma str_find_char: "str_find [c] s = (if c \<in> set s then Some (length (takeWhile (\<lambda>x. x \<noteq> c) s)) else None)"
  by (induction s) auto

lemma expand_loop_pieces:
  "list_all piece_ok ps \<Longrightarrow> plain_tail t \<Longrightarrow>
     expand_loop resolver res (concat (map show_piece ps) @ t) = res @ concat (map (expand_piece resolver) ps) @ t"
proof (induction ps arbitrary: res)
  case Nil
  then show ?case
    by (auto simp: plain_tail_def expand_loop.simps [of _ _ t] str_find_char split: option.splits)
next
  case (Cons p ps)
  obtain x n where p: "p = (x, n)" by (cases p)
  let ?rest = "concat (map show_piece ps) @ t"
  have x: "str_find ''$('' x = None" and n: "CHR '')'' \<notin> set n" using Cons.prems(1) p by (simp_all add: piece_ok_def)
  have whole: "concat (map show_piece (p # ps)) @ t = x @ CHR ''$'' # CHR ''('' # n @ CHR '')'' # ?rest"
    using p by (simp add: show_piece_def)
  have find1: "str_find ''$('' (x @ CHR ''$'' # CHR ''('' # n @ CHR '')'' # ?rest) = Some (length x)"
    using x by (rule str_find_dollar)
  have find2: "str_find '')'' (drop (length x) (x @ CHR ''$'' # CHR ''('' # n @ CHR '')'' # ?rest)) = Some (length n + 2)"
    using n by (simp add: str_find_char takeWhile_append)
  show ?case
    unfolding whole expand_loop.simps [of resolver res "x @ CHR ''$'' # CHR ''('' # n @ CHR '')'' # ?rest"]
    using Cons.IH Cons.prems p
    by (simp add: find1 find2 [simplified] expand_piece_def [of _ "(x, n)"] show_piece_def [of "(x, n)"]
        numeral_3_eq_3 split: option.split)
qed

text \<open>C40: An argument is expanded once from left to right: every \<open>$(name)\<close> becomes the value of the variable,
  whatever that value holds, and a name without a value stays as it is written.\<close>

theorem expand_arg_once:
  assumes "list_all piece_ok ps" "plain_tail t"
  shows "expand_arg resolver (concat (map show_piece ps) @ t) = concat (map (expand_piece resolver) ps) @ t"
  using expand_loop_pieces [OF assms] by (simp add: expand_arg_def)

lemma expand_arg_once_witness:
  "expand_arg [''test'' \<mapsto> ''foo'', ''inner'' \<mapsto> ''$(bar)''] ''A$(test)$(inner)$(none)B'' = ''Afoo$(bar)$(none)B''"
  using expand_arg_once [of "[(''A'', ''test''), ([], ''inner''), ([], ''none'')]" "''B''" "[''test'' \<mapsto> ''foo'', ''inner'' \<mapsto> ''$(bar)'']"]
  by (simp add: piece_ok_def plain_tail_def show_piece_def expand_piece_def)

section \<open>The layout of the actions\<close>

text \<open>Where the actions of the nodes are, for the lists of actions of the nodes in order: the action of
  a node alone, or a group followed by its actions.\<close>

definition block_size :: "'a list \<Rightarrow> nat" where
  "block_size as = (if length as = 1 then 1 else Suc (length as))"

fun starts :: "nat \<Rightarrow> 'a list list \<Rightarrow> nat list" where
  "starts n [] = []"
| "starts n (as # ass) = n # starts (n + block_size as) ass"

definition depends_of :: "nat \<Rightarrow> 'a list \<Rightarrow> nat option list" where
  "depends_of k as = (if length as = 1 then [Some k] else None # replicate (length as) (Some k))"

definition edges_of :: "nat \<Rightarrow> 'a list \<Rightarrow> (nat \<times> nat) list" where
  "edges_of n as = (if length as = 1 then [] else map (Pair n) [Suc n..<Suc n + length as])"

fun block_depends :: "nat \<Rightarrow> 'a list list \<Rightarrow> nat option list" where
  "block_depends k [] = []"
| "block_depends k (as # ass) =
     depends_of k as @ block_depends (Suc k) ass"

fun block_edges :: "nat \<Rightarrow> 'a list list \<Rightarrow> (nat \<times> nat) list" where
  "block_edges n [] = []"
| "block_edges n (as # ass) =
     edges_of n as @ block_edges (n + block_size as) ass"

lemma length_starts [simp]: "length (starts n ass) = length ass"
  by (induction n ass rule: starts.induct) auto

text \<open>What \<open>add_actions\<close> and \<open>prepare_node\<close> add.\<close>

lemma add_actions_layout:
  "add_actions title k grp cnt index as ds g = (ds', g') \<Longrightarrow>
     ds' = ds @ replicate (length as) (Some k) \<and>
     map bt_action (gl_nodes g') = map bt_action (gl_nodes g) @ as \<and>
     gl_edges g' = gl_edges g @ map (Pair grp) [length (gl_nodes g)..<length (gl_nodes g) + length as]"
proof (induction as arbitrary: index ds g)
  case (Cons a as)
  let ?t = "\<lparr>bt_title = title @ '' ('' @ show_nat index @ ''/'' @ show_nat cnt @ '')'', bt_action = a\<rparr>"
  have "add_actions title k grp cnt (index + 1) as (ds @ [Some k])
      (log_edge grp (length (gl_nodes g)) (g\<lparr>gl_nodes := gl_nodes g @ [?t]\<rparr>)) = (ds', g')"
    using Cons.prems by (simp add: log_node_def)
  from Cons.IH [OF this] show ?case
    by (simp add: log_edge_def upt_conv_Cons replicate_app_Cons_same del: upt_Suc)
qed simp

definition node_blocks :: "console \<Rightarrow> compiler \<Rightarrow> xg_node list \<Rightarrow> build_action list list" where
  "node_blocks co cp ns = map (node_actions co cp) ns"

definition block_actions :: "build_action list \<Rightarrow> build_action list" where
  "block_actions as = (if length as = 1 then as else Empty # as)"

lemma length_block_actions [simp]: "length (block_actions as) = block_size as"
  by (simp add: block_actions_def block_size_def)

lemma prepare_nodes_layout:
  "fold (prepare_node co cp) ns (remap, ds, g) = (remap', ds', g') \<Longrightarrow>
     remap' = remap @ starts (length (gl_nodes g)) (node_blocks co cp ns) \<and>
     ds' = ds @ block_depends (length remap) (node_blocks co cp ns) \<and>
     map bt_action (gl_nodes g') = map bt_action (gl_nodes g) @ concat (map block_actions (node_blocks co cp ns)) \<and>
     gl_edges g' = gl_edges g @ block_edges (length (gl_nodes g)) (node_blocks co cp ns)"
proof (induction ns arbitrary: remap ds g)
  case Nil
  then show ?case by (simp add: node_blocks_def)
next
  case (Cons n ns)
  let ?as = "node_actions co cp n" and ?k = "length (gl_nodes g)"
  obtain remap1 ds1 g1 where p: "prepare_node co cp n (remap, ds, g) = (remap1, ds1, g1)" by (metis prod_cases3)
  have one: "remap1 = remap @ [?k] \<and>
      ds1 = ds @ depends_of (length remap) ?as \<and>
      map bt_action (gl_nodes g1) = map bt_action (gl_nodes g) @ block_actions ?as \<and>
      gl_edges g1 = gl_edges g @ edges_of ?k ?as"
  proof (cases "length ?as = 1")
    case True
    then show ?thesis
      using p by (cases ?as) (auto simp: prepare_node_def log_node_def block_actions_def depends_of_def edges_of_def Let_def)
  next
    case False
    obtain ds2 g2 where a: "add_actions (xn_title n) (length remap) ?k (length ?as) 1 ?as (ds @ [None])
        (g\<lparr>gl_nodes := gl_nodes g @ [\<lparr>bt_title = xn_title n, bt_action = Empty\<rparr>]\<rparr>) = (ds2, g2)" by fastforce
    then have "remap1 = remap @ [?k]" "ds1 = ds2" "g1 = g2"
      using p False by (auto simp: prepare_node_def log_node_def Let_def)
    then show ?thesis
      using add_actions_layout [OF a] False by (simp add: block_actions_def depends_of_def edges_of_def)
  qed
  have len: "length (gl_nodes g1) = ?k + block_size ?as" using one arg_cong [of "map bt_action (gl_nodes g1)" _ length] by (metis length_append length_block_actions length_map)
  have "fold (prepare_node co cp) ns (remap1, ds1, g1) = (remap', ds', g')" using Cons.prems p by simp
  from Cons.IH [OF this] show ?case using one len by (simp add: node_blocks_def)
qed

section \<open>Blocks\<close>

text \<open>The blocks by their index: where block \<open>i\<close> starts, and what a list put together from blocks holds there.\<close>

definition bstart :: "'a list list \<Rightarrow> nat \<Rightarrow> nat" where
  "bstart ass i = (\<Sum>j<i. block_size (ass ! j))"

lemma bstart_0 [simp]: "bstart ass 0 = 0"
  by (simp add: bstart_def)

lemma bstart_Suc: "bstart ass (Suc i) = bstart ass i + block_size (ass ! i)"
  by (simp add: bstart_def)

lemma bstart_Cons: "bstart (as # ass) (Suc i) = block_size as + bstart ass i"
  by (simp add: bstart_def sum.lessThan_Suc_shift del: sum.lessThan_Suc)

lemma bstart_mono: "i \<le> j \<Longrightarrow> bstart ass i \<le> bstart ass j"
  by (induction j) (auto simp: bstart_Suc le_Suc_eq)

lemma bstart_block: "i < j \<Longrightarrow> bstart ass i + block_size (ass ! i) \<le> bstart ass j"
  using bstart_mono [of "Suc i" j ass] by (simp add: bstart_Suc)

lemma bstart_unique:
  assumes "bstart ass i + l = bstart ass j + l'" "l < block_size (ass ! i)" "l' < block_size (ass ! j)"
  shows "i = j \<and> l = l'"
proof -
  have "i = j" using bstart_block [of i j ass] bstart_block [of j i ass] assms by (cases i j rule: linorder_cases) auto
  then show ?thesis using assms(1) by simp
qed

lemma block_size_pos [simp]: "0 < block_size as"
  by (simp add: block_size_def)

lemma bstart_inj: "bstart ass i = bstart ass j \<Longrightarrow> i = j"
  using bstart_unique [of ass i 0 j 0] by simp

lemma bstart_cover: "a < bstart ass m \<Longrightarrow> \<exists>i < m. \<exists>l < block_size (ass ! i). a = bstart ass i + l"
proof (induction m)
  case (Suc m)
  show ?case
  proof (cases "a < bstart ass m")
    case True
    then show ?thesis using Suc.IH less_Suc_eq by blast
  next
    case False
    then show ?thesis
      using Suc.prems by (intro exI [of _ m] exI [of _ "a - bstart ass m"] conjI) (auto simp: bstart_Suc)
  qed
qed simp

lemma length_blocks:
  "\<forall>i < m. length (F i) = block_size (ass ! i) \<Longrightarrow> length (concat (map F [0..<m])) = bstart ass m"
  by (induction m) (auto simp: bstart_Suc)

lemma concat_blocks_nth:
  "\<forall>i < m. length (F i) = block_size (ass ! i) \<Longrightarrow> i < m \<Longrightarrow> l < block_size (ass ! i) \<Longrightarrow>
     concat (map F [0..<m]) ! (bstart ass i + l) = F i ! l"
proof (induction m)
  case (Suc m)
  have len: "length (concat (map F [0..<m])) = bstart ass m" using Suc.prems(1) by (intro length_blocks) simp
  show ?case
  proof (cases "i < m")
    case True
    then have "bstart ass i + l < bstart ass m" using bstart_block [OF True, of ass] Suc.prems(3) by simp
    then show ?thesis using Suc True len by (simp add: nth_append)
  next
    case False
    then have "i = m" using Suc.prems(2) by simp
    then show ?thesis using len by (simp add: nth_append)
  qed
qed simp

text \<open>The recursive descriptions in this form.\<close>

lemma starts_map: "starts n ass = map (\<lambda>i. n + bstart ass i) [0..<length ass]"
proof (induction n ass rule: starts.induct)
  case (2 n as ass)
  then show ?case by (simp add: map_upt_Suc bstart_Cons add.assoc del: upt_Suc)
qed simp

lemma length_depends_of [simp]: "length (depends_of k as) = block_size as"
  by (simp add: depends_of_def block_size_def)

lemma block_depends_map: "block_depends k ass = concat (map (\<lambda>i. depends_of (k + i) (ass ! i)) [0..<length ass])"
proof (induction k ass rule: block_depends.induct)
  case (2 k as ass)
  then show ?case by (simp add: map_upt_Suc del: upt_Suc)
qed simp

lemma block_edges_map: "block_edges n ass = concat (map (\<lambda>i. edges_of (n + bstart ass i) (ass ! i)) [0..<length ass])"
proof (induction n ass rule: block_edges.induct)
  case (2 n as ass)
  then show ?case
    by (simp add: map_upt_Suc bstart_Cons add.assoc del: upt_Suc)
qed simp

text \<open>Which places of a block are actions, and not the group.\<close>

definition is_action :: "'a list \<Rightarrow> nat \<Rightarrow> bool" where
  "is_action as l \<longleftrightarrow> l < block_size as \<and> (length as = 1 \<or> 0 < l)"

lemma depends_of_nth: "l < block_size as \<Longrightarrow> depends_of k as ! l = (if is_action as l then Some k else None)"
  by (auto simp: depends_of_def block_size_def is_action_def nth_Cons' split: if_splits)

lemma block_depends_nth:
  "i < length ass \<Longrightarrow> l < block_size (ass ! i) \<Longrightarrow>
     block_depends 0 ass ! (bstart ass i + l) = (if is_action (ass ! i) l then Some i else None)"
  by (simp add: block_depends_map concat_blocks_nth depends_of_nth)

lemma length_depends_bstart: "length (block_depends 0 ass) = bstart ass (length ass)"
  by (simp add: block_depends_map length_blocks)

lemma edges_of_mem: "e \<in> set (edges_of n as) \<longleftrightarrow> (\<exists>l. is_action as l \<and> 0 < l \<and> e = (n, n + l))"
proof
  assume "e \<in> set (edges_of n as)"
  then obtain b where b: "length as \<noteq> 1" "Suc n \<le> b" "b < Suc n + length as" "e = (n, b)"
    by (auto simp: edges_of_def split: if_splits)
  then show "\<exists>l. is_action as l \<and> 0 < l \<and> e = (n, n + l)"
    by (intro exI [of _ "b - n"]) (auto simp: is_action_def block_size_def)
qed (auto simp: edges_of_def is_action_def block_size_def split: if_splits)

lemma block_edges_mem:
  "e \<in> set (block_edges 0 ass) \<longleftrightarrow>
     (\<exists>i < length ass. \<exists>l. is_action (ass ! i) l \<and> 0 < l \<and> e = (bstart ass i, bstart ass i + l))"
  by (auto simp: block_edges_map edges_of_mem)

end
