(* ===== verification/Xg_Schedule.thy ===== *)
theory Xg_Schedule
  imports Xg_Console_Correct
begin

text \<open>
  The graph of the actions that \<open>prepare_graph\<close> (\<open>src/bin/xgConsole.rs\<close>) makes of the graph of commands:
  its edges, that it has no cycle, and the order it imposes on the executor.
\<close>

section \<open>The edges between commands\<close>

definition dep_edges :: "xg_node graph \<Rightarrow> nat list \<Rightarrow> nat \<times> nat option \<Rightarrow> (nat \<times> nat) list" where
  "dep_edges gr remap p = map (\<lambda>j. (fst p, remap ! j)) (case snd p of None \<Rightarrow> [] | Some k \<Rightarrow> outgoing gr k)"

lemma dep_edges_mem:
  "e \<in> set (dep_edges gr remap (a, d)) \<longleftrightarrow> (\<exists>i j. d = Some i \<and> j \<in> set (outgoing gr i) \<and> e = (a, remap ! j))"
  by (cases d) (auto simp: dep_edges_def)

lemma set_enumerate: "set (enumerate 0 ds) = (\<lambda>a. (a, ds ! a)) ` {..<length ds}"
  by (auto simp: in_set_enumerate_eq)

lemma add_depends_ok:
  "set ns \<subseteq> {..<length remap} \<Longrightarrow>
     add_depends remap a ns g = Inr (g\<lparr>gl_edges := gl_edges g @ map (\<lambda>j. (a, remap ! j)) ns\<rparr>)"
  by (induction ns arbitrary: g) (auto simp: log_edge_def)

lemma link_actions_ok:
  "(\<And>k. set (outgoing gr k) \<subseteq> {..<length remap}) \<Longrightarrow>
     link_actions gr remap i ds g = Inr (g\<lparr>gl_edges := gl_edges g @ concat (map (dep_edges gr remap) (enumerate i ds))\<rparr>)"
proof (induction ds arbitrary: i g)
  case (Cons d ds)
  have "set (case d of None \<Rightarrow> [] | Some k \<Rightarrow> outgoing gr k) \<subseteq> {..<length remap}"
    using Cons.prems by (cases d) auto
  from add_depends_ok [OF this, of i g] show ?case using Cons.IH [OF Cons.prems] by (simp add: dep_edges_def)
qed simp

section \<open>The graph of the actions\<close>

text \<open>The log of the graph of the actions, for the lists of actions of the nodes.\<close>

definition schedule_edges :: "xg_node graph \<Rightarrow> build_action list list \<Rightarrow> (nat \<times> nat) list" where
  "schedule_edges gr ass =
     block_edges 0 ass @ concat (map (dep_edges gr (starts 0 ass)) (enumerate 0 (block_depends 0 ass)))"

lemma schedule_edges_mem:
  assumes "graph_ok gr" "length ass = node_count gr"
  shows "e \<in> set (schedule_edges gr ass) \<longleftrightarrow>
    (\<exists>i < length ass. \<exists>l. is_action (ass ! i) l \<and> 0 < l \<and> e = (bstart ass i, bstart ass i + l)) \<or>
    (\<exists>i j l. (i, j) \<in> edges gr \<and> is_action (ass ! i) l \<and> e = (bstart ass i + l, bstart ass j))"
    (is "_ \<longleftrightarrow> ?block \<or> ?dep")
proof -
  have range: "i < length ass \<and> j < length ass" if "j \<in> set (outgoing gr i)" for i j
    using graph_range [OF assms(1) that] assms(2) by simp
  have "e \<in> set (concat (map (dep_edges gr (starts 0 ass)) (enumerate 0 (block_depends 0 ass)))) \<longleftrightarrow>
      (\<exists>a i j. a < length (block_depends 0 ass) \<and> block_depends 0 ass ! a = Some i \<and> j \<in> set (outgoing gr i) \<and>
        e = (a, starts 0 ass ! j))"
    by (auto simp: set_enumerate dep_edges_mem)
  also have "\<dots> \<longleftrightarrow> ?dep"
  proof
    assume "\<exists>a i j. a < length (block_depends 0 ass) \<and> block_depends 0 ass ! a = Some i \<and> j \<in> set (outgoing gr i) \<and>
        e = (a, starts 0 ass ! j)"
    then obtain a i j where a: "a < bstart ass (length ass)" "block_depends 0 ass ! a = Some i" "j \<in> set (outgoing gr i)"
      "e = (a, starts 0 ass ! j)" by (auto simp: length_depends_bstart)
    obtain k l where k: "k < length ass" "l < block_size (ass ! k)" "a = bstart ass k + l" using bstart_cover [OF a(1)] by blast
    then have "is_action (ass ! k) l" "k = i" using a(2) block_depends_nth [OF k(1,2)] by (auto split: if_splits)
    then show ?dep using a(3,4) k(3) range [OF a(3)] by (auto simp: edges_def starts_map)
  next
    assume ?dep
    then obtain i j l where d: "j \<in> set (outgoing gr i)" "is_action (ass ! i) l" "e = (bstart ass i + l, bstart ass j)"
      by (auto simp: edges_def)
    have l: "i < length ass" "l < block_size (ass ! i)" using range [OF d(1)] d(2) by (auto simp: is_action_def)
    have "bstart ass i + l < bstart ass (length ass)" using bstart_block [OF l(1), of ass] l(2) by simp
    then show "\<exists>a i j. a < length (block_depends 0 ass) \<and> block_depends 0 ass ! a = Some i \<and> j \<in> set (outgoing gr i) \<and>
        e = (a, starts 0 ass ! j)"
      using d block_depends_nth [OF l] range [OF d(1)]
      by (intro exI [of _ "bstart ass i + l"] exI [of _ i] exI [of _ j]) (auto simp: length_depends_bstart starts_map)
  qed
  finally show ?thesis by (simp add: schedule_edges_def block_edges_mem)
qed

lemma schedule_acyclic:
  assumes "graph_ok gr" "length ass = node_count gr" "acyclic (edges gr)"
  shows "acyclic (set (schedule_edges gr ass))"
proof -
  define place where "place a = (THE p. fst p < length ass \<and> snd p < block_size (ass ! fst p) \<and> a = bstart ass (fst p) + snd p)" for a
  have place: "place (bstart ass i + l) = (i, l)" if "i < length ass" "l < block_size (ass ! i)" for i l
    unfolding place_def
  proof (rule the_equality)
    fix p
    assume "fst p < length ass \<and> snd p < block_size (ass ! fst p) \<and> bstart ass i + l = bstart ass (fst p) + snd p"
    then have "fst p = i \<and> snd p = l" using bstart_unique [of ass "fst p" "snd p" i l] that by simp
    then show "p = (i, l)" by (simp add: prod_eq_iff)
  qed (use that in simp)
  have start: "place (bstart ass i) = (i, 0)" if "i < length ass" for i using place [OF that, of 0] by simp
  define group where "group p = (if is_action (ass ! fst p) (snd p) then 0 else 1 :: nat)" for p :: "nat \<times> nat"
  let ?order = "inv_image ((edges gr)\<inverse> <*lex*> less_than) (\<lambda>a. (fst (place a), group (place a)))"
  have "wf ((edges gr)\<inverse>)" using finite_acyclic_wf_converse [OF finite_edges [OF assms(1)] assms(3)] .
  then have wf: "wf ?order" by (intro wf_inv_image wf_lex_prod wf_less_than)
  have "(set (schedule_edges gr ass))\<inverse> \<subseteq> ?order"
  proof (rule subrelI)
    fix b a assume "(b, a) \<in> (set (schedule_edges gr ass))\<inverse>"
    then have "(a, b) \<in> set (schedule_edges gr ass)" by simp
    then consider i l where "i < length ass" "is_action (ass ! i) l" "0 < l" "a = bstart ass i" "b = bstart ass i + l"
      | i j l where "(i, j) \<in> edges gr" "is_action (ass ! i) l" "a = bstart ass i + l" "b = bstart ass j"
      unfolding schedule_edges_mem [OF assms(1,2)] prod.inject by blast
    then show "(b, a) \<in> ?order"
    proof cases
      case 1
      then have "l < block_size (ass ! i)" "\<not> is_action (ass ! i) 0" by (auto simp: is_action_def block_size_def split: if_splits)
      then show ?thesis using 1 place start by (simp add: group_def)
    next
      case 2
      have "i < length ass" "j < length ass" using 2(1) graph_range [OF assms(1)] assms(2) by (auto simp: edges_def)
      moreover have "l < block_size (ass ! i)" using 2(2) by (simp add: is_action_def)
      ultimately show ?thesis using 2 place start by simp
    qed
  qed
  then have "wf ((set (schedule_edges gr ass))\<inverse>)" using wf wf_subset by blast
  then show ?thesis using wf_acyclic acyclic_converse by blast
qed

lemma schedule_distinct:
  assumes "graph_ok gr" "length ass = node_count gr" "simple_graph gr"
  shows "distinct (schedule_edges gr ass)"
proof -
  let ?deps = "enumerate 0 (block_depends 0 ass)"
  have range: "j < length ass" if "j \<in> set (outgoing gr i)" for i j using graph_range [OF assms(1) that] assms(2) by simp
  have block: "distinct (block_edges 0 ass)"
    unfolding block_edges_map
  proof (rule distinct_concat_map)
    fix i j assume "i \<in> set [0..<length ass]" "j \<in> set [0..<length ass]" "i \<noteq> j"
    then show "set (edges_of (0 + bstart ass i) (ass ! i)) \<inter> set (edges_of (0 + bstart ass j) (ass ! j)) = {}"
      using bstart_inj [of ass i j] by (auto simp: edges_of_mem)
  qed (auto simp: edges_of_def distinct_map inj_on_def)
  have dep: "distinct (concat (map (dep_edges gr (starts 0 ass)) ?deps))"
  proof (rule distinct_concat_map)
    fix p assume "p \<in> set ?deps"
    have "inj_on (\<lambda>j. starts 0 ass ! j) (set (outgoing gr i))" for i
      using range bstart_inj [of ass] by (intro inj_onI) (auto simp: starts_map)
    then show "distinct (dep_edges gr (starts 0 ass) p)"
      using assms(3) by (auto simp: dep_edges_def simple_graph_def distinct_map inj_on_def split: option.split)
  next
    fix p q assume "p \<in> set ?deps" "q \<in> set ?deps" "p \<noteq> q"
    then show "set (dep_edges gr (starts 0 ass) p) \<inter> set (dep_edges gr (starts 0 ass) q) = {}"
      by (auto simp: set_enumerate dep_edges_mem)
  qed simp
  have "snd p = None" if "p \<in> set ?deps" "i < length ass" "l < block_size (ass ! i)" "0 < l" "is_action (ass ! i) l" "fst p = bstart ass i" for p i l
  proof -
    have "\<not> is_action (ass ! i) 0" using that(3,4) by (auto simp: is_action_def block_size_def split: if_splits)
    then show ?thesis using block_depends_nth [OF that(2), of 0] that(1,6) by (auto simp: set_enumerate)
  qed
  then have "set (block_edges 0 ass) \<inter> set (concat (map (dep_edges gr (starts 0 ass)) ?deps)) = {}"
    by (fastforce simp: block_edges_mem is_action_def dep_edges_def split: option.splits)
  then show ?thesis using block dep by (simp add: schedule_edges_def)
qed

text \<open>What \<open>prepare_graph\<close> computes.\<close>

lemma prepare_graph_log:
  fixes co cp gr
  defines "ass \<equiv> node_blocks co cp (node_weights gr)"
  assumes "graph_ok gr" "simple_graph gr"
  obtains g where "prepare_graph co view cp gr = validate_graph (view g)" "log_good g"
    "gl_edges g = schedule_edges gr ass" "map bt_action (gl_nodes g) = concat (map block_actions ass)"
proof -
  have len: "length ass = node_count gr" by (simp add: ass_def node_blocks_def node_count_def)
  have range: "i < length ass \<and> j < length ass" if "j \<in> set (outgoing gr i)" for i j
    using graph_range [OF assms(2) that] len by simp
  obtain remap ds g0 where p: "fold (prepare_node co cp) (node_weights gr) ([], [], log_new) = (remap, ds, g0)"
    by (metis prod_cases3)
  note layout = prepare_nodes_layout [OF p, folded ass_def, simplified]
  have remap: "remap = starts 0 ass" "ds = block_depends 0 ass" using layout by (simp_all add: log_new_def)
  have blocks: "concat (map block_actions ass) = concat (map (\<lambda>i. block_actions (ass ! i)) [0..<length ass])"
    by (metis map_map map_nth comp_apply map_cong)
  have size: "length (gl_nodes g0) = bstart ass (length ass)"
  proof -
    have "map bt_action (gl_nodes g0) = concat (map (\<lambda>i. block_actions (ass ! i)) [0..<length ass])"
      using layout by (simp add: log_new_def blocks)
    then have "length (gl_nodes g0) = length (concat (map (\<lambda>i. block_actions (ass ! i)) [0..<length ass]))"
      by (metis length_map)
    then show ?thesis by (simp add: length_blocks)
  qed
  let ?g = "g0\<lparr>gl_edges := schedule_edges gr ass\<rparr>"
  have "link_actions gr remap 0 ds g0 = Inr ?g"
    using link_actions_ok [of gr remap 0 ds g0] range layout remap by (auto simp: schedule_edges_def log_new_def)
  then have run: "prepare_graph co view cp gr = validate_graph (view ?g)"
    using p remap len size by (simp add: prepare_graph_def length_depends_bstart)
  have "a < bstart ass (length ass) \<and> b < bstart ass (length ass)" if "(a, b) \<in> set (schedule_edges gr ass)" for a b
  proof -
    have inside: "bstart ass i + l < bstart ass (length ass)" if "i < length ass" "l < block_size (ass ! i)" for i l
      using bstart_block [OF that(1), of ass] that(2) by simp
    have start: "bstart ass i < bstart ass (length ass)" if "i < length ass" for i using inside [OF that, of 0] by simp
    from that show ?thesis
      unfolding schedule_edges_mem [OF assms(2) len] prod.inject
      using inside start range by (auto simp: is_action_def edges_def)
  qed
  then have "log_good ?g"
    using schedule_distinct [OF assms(2) len assms(3)] size by (auto simp: log_good_def log_ok_def log_simple_def)
  then show ?thesis using that [OF run] layout by (simp add: log_new_def)
qed

lemma prepare_graph_good:
  assumes "graph_view view" "graph_ok gr" "simple_graph gr" "acyclic (edges gr)"
  shows "\<exists>h. prepare_graph co view cp gr = Inr h \<and> graph_ok h \<and> simple_graph h \<and> acyclic (edges h)"
proof -
  obtain g where g: "prepare_graph co view cp gr = validate_graph (view g)" "log_good g"
    "gl_edges g = schedule_edges gr (node_blocks co cp (node_weights gr))"
    using prepare_graph_log [OF assms(2,3)] by blast
  have ok: "log_ok g" "log_simple g" using g(2) by (simp_all add: log_good_def)
  have "acyclic (edges (view g))"
    using schedule_acyclic [OF assms(2) _ assms(4)] view_edges [OF assms(1) ok(1)] g(3)
    by (simp add: node_blocks_def node_count_def)
  then show ?thesis
    using g(1) validate_graph_result [OF view_graph_ok [OF assms(1) ok(1)]] view_graph_ok [OF assms(1) ok(1)] view_simple [OF assms(1) ok] by auto
qed

text \<open>The graph of the actions is never rejected: when the graph of the commands has no cycle, neither has that of
  their actions with the groups, and it is one the executor accepts. No assertion fails, no index is out of range.\<close>

theorem prepare_graph_valid:
  assumes "graph_view view" "graph_ok gr" "simple_graph gr" "acyclic (edges gr)"
  shows "\<exists>h. prepare_graph co view cp gr = Inr h \<and> graph_ok h \<and> simple_graph h \<and> acyclic (edges h)"
  using assms by (rule prepare_graph_good)

section \<open>The order of the actions\<close>

text \<open>Where the action \<open>l\<close> of command \<open>i\<close> is in the graph.\<close>

definition action_place :: "build_action list list \<Rightarrow> nat \<Rightarrow> nat \<Rightarrow> nat" where
  "action_place ass i l = bstart ass i + (if length (ass ! i) = 1 then l else Suc l)"

lemma action_place_is_action:
  assumes "l < length (ass ! i)"
  obtains l' where "is_action (ass ! i) l'" "action_place ass i l = bstart ass i + l'" "block_actions (ass ! i) ! l' = ass ! i ! l"
  using assms that [of "if length (ass ! i) = 1 then l else Suc l"]
  by (auto simp: action_place_def is_action_def block_size_def block_actions_def)

lemma prepare_graph_places:
  fixes co cp gr
  defines "ass \<equiv> node_blocks co cp (node_weights gr)"
  assumes "graph_view view" "graph_ok gr" "simple_graph gr" "prepare_graph co view cp gr = Inr h"
  shows "(\<forall>i < node_count gr. \<forall>l < length (ass ! i). bt_action (node_weights h ! action_place ass i l) = ass ! i ! l) \<and>
    (\<forall>i j l m. (i, j) \<in> edges gr \<and> l < length (ass ! i) \<and> m < length (ass ! j) \<longrightarrow>
       (action_place ass i l, action_place ass j m) \<in> (edges h)\<^sup>+)"
proof -
  have len: "length ass = node_count gr" by (simp add: ass_def node_blocks_def node_count_def)
  obtain g where g: "prepare_graph co view cp gr = validate_graph (view g)" "log_good g"
    "gl_edges g = schedule_edges gr ass" "map bt_action (gl_nodes g) = concat (map block_actions ass)"
    using prepare_graph_log [OF assms(3,4)] unfolding ass_def by blast
  have ok: "log_ok g" using g(2) by (simp add: log_good_def)
  have h: "h = view g" using assms(5) g(1) validate_graph_result [OF view_graph_ok [OF assms(2) ok]] by (simp split: if_splits)
  have es: "edges h = set (schedule_edges gr ass)" and ns: "node_weights h = gl_nodes g"
    using h g(3) view_edges [OF assms(2) ok] view_nodes [OF assms(2) ok] by simp_all
  have blocks: "map bt_action (gl_nodes g) = concat (map (\<lambda>i. block_actions (ass ! i)) [0..<length ass])"
    using g(4) by (metis map_map map_nth comp_apply map_cong)
  have "bt_action (node_weights h ! action_place ass i l) = ass ! i ! l" if il: "i < node_count gr" "l < length (ass ! i)" for i l
  proof -
    obtain l' where l': "is_action (ass ! i) l'" "action_place ass i l = bstart ass i + l'" "block_actions (ass ! i) ! l' = ass ! i ! l"
      using il(2) by (rule action_place_is_action)
    then have lt: "i < length ass" "l' < block_size (ass ! i)" using il len by (simp_all add: is_action_def)
    have "bstart ass i + l' < length (gl_nodes g)"
      using lt bstart_block [OF lt(1), of ass] arg_cong [OF blocks, of length]
        length_blocks [of "length ass" "\<lambda>i. block_actions (ass ! i)" ass] by (simp only: length_map length_block_actions simp_thms)
    then have "bt_action (gl_nodes g ! (bstart ass i + l')) = block_actions (ass ! i) ! l'"
      using concat_blocks_nth [of "length ass" "\<lambda>i. block_actions (ass ! i)" ass, OF _ lt] blocks by (metis length_block_actions nth_map)
    then show ?thesis using l' ns by simp
  qed
  moreover have "(action_place ass i l, action_place ass j m) \<in> (edges h)\<^sup>+"
    if ij: "(i, j) \<in> edges gr" "l < length (ass ! i)" "m < length (ass ! j)" for i j l m
  proof -
    obtain l' where l': "is_action (ass ! i) l'" "action_place ass i l = bstart ass i + l'"
      using ij(2) by (rule action_place_is_action)
    obtain m' where m': "is_action (ass ! j) m'" "action_place ass j m = bstart ass j + m'"
      using ij(3) by (rule action_place_is_action)
    have j: "j < length ass" using ij(1) graph_range [OF assms(3)] len by (auto simp: edges_def)
    have "(bstart ass i + l', bstart ass j) \<in> edges h"
      unfolding es schedule_edges_mem [OF assms(3) len] using ij(1) l'(1) by blast
    moreover have "(bstart ass j, bstart ass j + m') \<in> edges h" if "0 < m'"
      unfolding es schedule_edges_mem [OF assms(3) len] using j m'(1) that by blast
    ultimately show ?thesis using l'(2) m'(2) by (cases "m' = 0") auto
  qed
  ultimately show ?thesis by blast
qed

text \<open>The graph holds every action of every command, and when a command depends on another, each of its
  actions depends, directly or through the group, on all the actions of the other.\<close>

theorem prepare_graph_order:
  assumes "graph_view view" "graph_ok gr" "simple_graph gr" "prepare_graph co view cp gr = Inr h"
  shows "(\<forall>i < node_count gr. \<forall>l < length (node_blocks co cp (node_weights gr) ! i).
      bt_action (node_weights h ! action_place (node_blocks co cp (node_weights gr)) i l) = node_blocks co cp (node_weights gr) ! i ! l) \<and>
    (\<forall>i j l m. (i, j) \<in> edges gr \<and> l < length (node_blocks co cp (node_weights gr) ! i) \<and> m < length (node_blocks co cp (node_weights gr) ! j) \<longrightarrow>
       (action_place (node_blocks co cp (node_weights gr)) i l, action_place (node_blocks co cp (node_weights gr)) j m) \<in> (edges h)\<^sup>+)"
  using assms by (rule prepare_graph_places)

lemma started_closed:
  assumes "graph_ok g" "simple_graph g" "0 < node_count g" "reachable g outcome update workers s"
    "sy_started s = xs @ t # ys" "(t, u) \<in> (edges g)\<^sup>+"
  shows "u \<in> set xs"
proof -
  have before: "set (outgoing g t) \<subseteq> set xs" if "sy_started s = xs @ t # ys" for xs t ys
    using started_in_order [OF assms(1-4)] that by blast
  show ?thesis
    using assms(6)
  proof (induction rule: trancl_induct)
    case (base u)
    then show ?case using before [OF assms(5)] by (auto simp: edges_def)
  next
    case (step u v)
    obtain xs1 xs2 where "xs = xs1 @ u # xs2" using split_list [OF step.IH] by blast
    then show ?case using before [of xs1 u "xs2 @ t # ys"] assms(5) step.hyps(2) by (auto simp: edges_def)
  qed
qed

text \<open>C5: In the build of a task file, whatever the interleaving of the workers, no action of a command has been started
  before all the actions of the commands it depends on.\<close>

theorem build_order:
  assumes "graph_view view" "graph_ok gr" "simple_graph gr" "acyclic (edges gr)" "prepare_graph co view cp gr = Inr h"
    "reachable h outcome update workers s" "(i, j) \<in> edges gr"
    "l < length (node_blocks co cp (node_weights gr) ! i)" "m < length (node_blocks co cp (node_weights gr) ! j)"
    "sy_started s = xs @ action_place (node_blocks co cp (node_weights gr)) i l # ys"
  shows "action_place (node_blocks co cp (node_weights gr)) j m \<in> set xs"
proof -
  have h: "graph_ok h" "simple_graph h" using prepare_graph_good [OF assms(1-4), of co cp] assms(5) by auto
  have e: "(action_place (node_blocks co cp (node_weights gr)) i l, action_place (node_blocks co cp (node_weights gr)) j m) \<in> (edges h)\<^sup>+"
    using prepare_graph_places [OF assms(1-3,5)] assms(7-9) by blast
  then obtain a b where "(a, b) \<in> edges h" by (meson tranclE)
  then have "0 < node_count h" using graph_range [OF h(1)] by (fastforce simp: edges_def)
  then show ?thesis using started_closed [OF h _ assms(6,10) e] by simp
qed

section \<open>The run\<close>

lemma parse_files_good:
  "parse_files co fs g = Inr g' \<Longrightarrow> xg_host_ok (co_xg co) \<Longrightarrow> log_good g \<Longrightarrow> log_good g'"
  by (induction co fs g rule: parse_files.induct) (auto simp: rbind_eq_Inr dest: xg_parse_good)

lemma console_graph_good:
  assumes "graph_view xview" "graph_view bview" "xg_host_ok (co_xg co)"
  shows "case console_graph co xview bview cp args of
      Inl e \<Rightarrow> e = IoError InvalidInput ''Build task files not found'' \<or> e = cyclic_error \<or>
        (\<exists>files. parse_files co files log_new = Inl e)
    | Inr h \<Rightarrow> graph_ok h \<and> simple_graph h \<and> acyclic (edges h)"
proof -
  define files where "files = fold (\<lambda>a files. expand_files co files a) (filter (\<lambda>a. \<not> is_flag co a) args) []"
  consider "files = []" | e where "files \<noteq> []" "parse_files co files log_new = Inl e"
    | g where "files \<noteq> []" "parse_files co files log_new = Inr g"
    by (cases "parse_files co files log_new") auto
  then show ?thesis
  proof cases
    case (3 g)
    have "log_good g"
      using parse_files_good [OF 3(2) assms(3)] by (simp add: log_good_def log_ok_def log_simple_def log_new_def)
    then have g: "graph_ok (xview g)" "simple_graph (xview g)"
      using assms(1) by (auto simp: log_good_def view_graph_ok view_simple)
    have run: "console_graph co xview bview cp args = rbind (validate_graph (xview g)) (prepare_graph co bview cp)"
      using 3 by (simp add: console_graph_def files_def [symmetric] del: fold_append)
    show ?thesis
      using run validate_graph_result [OF g(1)] prepare_graph_good [OF assms(2) g, of co cp] by auto
  qed (auto simp: console_graph_def files_def [symmetric])
qed


section \<open>A build\<close>

text \<open>The document of \<open>Xg_Parser_Correct\<close>, its two commands run as they are: command 0 needs command 1.\<close>

definition sample_console :: console where
  "sample_console = \<lparr>co_host = Unix, co_is_match = (\<lambda>_ _. False), co_escape = (\<lambda>s. s), co_lower = (\<lambda>s. s),
     co_read_dir = (\<lambda>_. Inr []), co_file_name = (\<lambda>_. None), co_parent = (\<lambda>_. None), co_var = Map.empty,
     co_open = (\<lambda>_. Inr xg_sample_events), co_xg = xg_sample_host\<rparr>"

definition no_compiler :: compiler where
  "no_compiler = \<lparr>cp_resolve = Map.empty, cp_discovery = []\<rparr>"

definition sample_exec :: "string \<Rightarrow> build_task" where
  "sample_exec title = \<lparr>bt_title = title, bt_action = Exec (xn_command (xg_sample_node title)) [''-c'', ''x.c'']\<rparr>"

definition sample_build :: "build_task graph" where
  "sample_build = list_view \<lparr>gl_nodes = [sample_exec ''A'', sample_exec []], gl_edges = [(0, 1)]\<rparr>"

abbreviation sample_commands :: "xg_node graph" where
  "sample_commands \<equiv> list_view xg_sample_log"

lemma sample_commands_ok: "graph_ok sample_commands" "simple_graph sample_commands" "acyclic (edges sample_commands)"
proof -
  have ok: "log_ok xg_sample_log" "log_simple xg_sample_log"
    by (simp_all add: xg_sample_log_def log_ok_def log_simple_def)
  show "graph_ok sample_commands" "simple_graph sample_commands"
    using list_view_ok ok by (auto intro: view_graph_ok view_simple)
  show "acyclic (edges sample_commands)"
    unfolding view_edges [OF list_view_ok ok(1)]
    by (rule acyclicI_order [where f = "\<lambda>i. if i = 0 then 1 else 0 :: nat"]) (auto simp: xg_sample_log_def)
qed

lemma sample_arg: "expand_arg Map.empty ''-c'' = ''-c''" "expand_arg Map.empty ''x.c'' = ''x.c''"
  by (simp_all add: expand_arg_def expand_loop.simps)

lemma sample_actions: "node_actions sample_console no_compiler (xg_sample_node t) = [bt_action (sample_exec t)]"
  by (simp add: node_actions_def build_create_tasks_def create_tasks_def no_compiler_def xg_sample_node_def sample_console_def
      sample_arg sample_exec_def)

lemma sample_build_ok: "acyclic (edges sample_build)" "graph_ok sample_build"
proof -
  have ok: "log_ok \<lparr>gl_nodes = [sample_exec ''A'', sample_exec []], gl_edges = [(0, 1)]\<rparr>" by (simp add: log_ok_def)
  show "graph_ok sample_build" unfolding sample_build_def using list_view_ok ok by (rule view_graph_ok)
  show "acyclic (edges sample_build)"
    unfolding sample_build_def view_edges [OF list_view_ok ok]
    by (rule acyclicI_order [where f = "\<lambda>i. if i = 0 then 1 else 0 :: nat"]) auto
qed

lemma sample_prepare: "prepare_graph sample_console list_view no_compiler sample_commands = Inr sample_build"
proof -
  have nodes: "fold (prepare_node sample_console no_compiler) (node_weights sample_commands) ([], [], log_new) =
      ([0, 1], [Some 0, Some 1], \<lparr>gl_nodes = [sample_exec ''A'', sample_exec []], gl_edges = []\<rparr>)"
    by (simp add: list_view_def xg_sample_log_def prepare_node_def sample_actions log_node_def log_new_def)
      (simp add: xg_sample_node_def sample_exec_def)
  have out: "outgoing sample_commands 0 = [1]" "outgoing sample_commands (Suc 0) = []" "node_count sample_commands = 2"
    by (simp_all add: list_view_def xg_sample_log_def node_count_def)
  have "validate_graph sample_build = Inr sample_build"
    using validate_graph_result [OF sample_build_ok(2)] sample_build_ok(1) by simp
  moreover have "sample_build = list_view \<lparr>gl_nodes = [sample_exec ''A'', sample_exec []], gl_edges = [(0, Suc 0)]\<rparr>"
    by (simp add: sample_build_def)
  ultimately show ?thesis
    unfolding prepare_graph_def nodes by (simp add: out log_edge_def)
qed

lemma prepare_graph_valid_witness: "\<exists>h. prepare_graph sample_console list_view no_compiler sample_commands = Inr h \<and> acyclic (edges h)"
  using prepare_graph_valid [OF list_view_ok sample_commands_ok, of sample_console no_compiler] by blast

lemma sample_blocks: "node_blocks sample_console no_compiler (node_weights sample_commands) = [[bt_action (sample_exec ''A'')], [bt_action (sample_exec [])]]"
  by (simp add: node_blocks_def list_view_def xg_sample_log_def sample_actions)

lemma prepare_graph_order_witness: "(0, 1) \<in> (edges sample_build)\<^sup>+"
proof -
  have "(0, 1) \<in> edges sample_commands" by (simp add: edges_def list_view_def xg_sample_log_def)
  then have "(action_place (node_blocks sample_console no_compiler (node_weights sample_commands)) 0 0,
      action_place (node_blocks sample_console no_compiler (node_weights sample_commands)) 1 0) \<in> (edges sample_build)\<^sup>+"
    using prepare_graph_order [OF list_view_ok sample_commands_ok(1,2) sample_prepare] by (simp add: sample_blocks)
  then show ?thesis by (simp add: sample_blocks action_place_def bstart_def block_size_def)
qed

text \<open>A run of it with one worker, up to the start of the action of command 0.\<close>

definition sample_ran :: "nat list \<Rightarrow> bool list \<Rightarrow> nat option \<Rightarrow> nat \<Rightarrow> nat list \<Rightarrow> system" where
  "sample_ran tasks completed busy cnt started =
     \<lparr>sy_tasks = tasks, sy_busy = [busy], sy_results = [], sy_completed = completed, sy_count = cnt, sy_phase = Running, sy_started = started\<rparr>"

lemma sample_build_run:
  "reachable sample_build (\<lambda>_ r. r = Inr ok_output) (\<lambda>_. Inr ()) 1 (sample_ran [] [False, True] (Some 0) 1 [1, 0])"
proof -
  note defs = sample_build_def list_view_def node_count_def ok_output_def success_def receive_def
    handle_message_def get_flag_def is_ready_def build_result_new_def Let_def numeral_2_eq_2 sample_ran_def
  let ?run = "reachable sample_build (\<lambda>_ r. r = Inr ok_output) (\<lambda>_. Inr ()) 1"
  have "system_init sample_build 1 = sample_ran [1] [False, False] None 0 []"
    by (simp add: system_init_def externals_def defs upt_rec)
  then have 0: "?run (sample_ran [1] [False, False] None 0 [])"
    using reachable.init [of sample_build _ _ 1] by metis
  have 1: "?run (sample_ran [] [False, False] (Some 1) 0 [1])"
    using reachable.more [OF 0 step.take_task [where w = 0 and t = 1 and ts = "[]"]] by (simp add: sample_ran_def)
  have 2: "?run ((sample_ran [] [False, False] None 0 [1])\<lparr>sy_results := [\<lparr>rm_index = 1, rm_worker = 0, rm_result = Inr ok_output\<rparr>]\<rparr>)"
    using reachable.more [OF 1 step.finish_task [where w = 0 and t = 1 and r = "Inr ok_output"]] by (simp add: sample_ran_def)
  have 3: "?run (sample_ran [0] [False, True] None 1 [1])"
    using reachable.more [OF 2 step.receive_result] by (simp add: defs)
  show ?thesis
    using reachable.more [OF 3 step.take_task [where w = 0 and t = 0 and ts = "[]"]] by (simp add: sample_ran_def)
qed

lemma build_order_witness: "sy_started (sample_ran [] [False, True] (Some 0) 1 [1, 0]) = [1] @ 0 # [] \<and> (1 :: nat) \<in> set [1]"
proof
  have "(0, 1) \<in> edges sample_commands" by (simp add: edges_def list_view_def xg_sample_log_def)
  then have "action_place (node_blocks sample_console no_compiler (node_weights sample_commands)) 1 0 \<in> set [1]"
    using build_order [OF list_view_ok sample_commands_ok sample_prepare sample_build_run, of 0 1 0 0 "[1]" "[]"]
    by (simp add: sample_blocks sample_ran_def action_place_def bstart_def block_size_def)
  then show "(1 :: nat) \<in> set [1]" by (simp add: sample_blocks action_place_def bstart_def block_size_def)
qed (simp add: sample_ran_def)


end
