(* ===== verification/Coordinator.thy ===== *)
theory Coordinator
  imports Octo_Prelude
begin

text \<open>
  \<open>src/cluster/common.rs\<close> and \<open>src/bin/octo_coordinator.rs\<close>: builders announce themselves to the
  coordinator, clients ask it for the builders that are alive.

  Times are counted in nanoseconds. A socket address is an IP address and a port; its textual form is
  a parameter (\<open>parse\<close>, \<open>show\<close>). A request body that cannot be decoded panics (\<open>unwrap\<close>): it is
  \<open>None\<close>.
\<close>

section \<open>Messages\<close>

record builder_info =
  bi_name :: string
  bi_endpoint :: string
  bi_version :: string
  bi_toolchains :: "string list"

record builder_info_update =
  bu_guid :: string
  bu_info :: builder_info

definition builder_info_update_new :: "string \<Rightarrow> builder_info \<Rightarrow> builder_info_update" where
  "builder_info_update_new uuid info = \<lparr>bu_guid = uuid, bu_info = info\<rparr>"

section \<open>Addresses and times\<close>

datatype ip_addr = V4 "byte list" | V6 "16 word list"

record socket_addr =
  sa_ip :: ip_addr
  sa_port :: "16 word"

fun is_unspecified :: "ip_addr \<Rightarrow> bool" where
  "is_unspecified (V4 octets) \<longleftrightarrow> octets = [0, 0, 0, 0]"
| "is_unspecified (V6 segments) \<longleftrightarrow> segments = replicate 8 0"

type_synonym instant = nat

definition secs :: "nat \<Rightarrow> nat" where
  "secs n = n * 1000000000"

lemma secs_0 [simp]: "secs 0 = 0"
  by (simp add: secs_def)

section \<open>The coordinator\<close>

record builder_entry =
  be_guid :: string
  be_info :: builder_info
  be_timeout :: instant

datatype status_code = Ok | Accepted | BadRequest | HttpNotFound | FailedDependency | InternalServerError

record addr_text =
  at_parse :: "string \<Rightarrow> socket_addr option"
  at_show :: "socket_addr \<Rightarrow> string"

text \<open>An address without a host is completed with the one the request came from.\<close>

definition fix_endpoint :: "addr_text \<Rightarrow> ip_addr \<Rightarrow> builder_info \<Rightarrow> builder_info option" where
  "fix_endpoint a remote info =
     (case at_parse a (bi_endpoint info) of
        None \<Rightarrow> None
      | Some endpoint \<Rightarrow>
          Some (if is_unspecified (sa_ip endpoint)
                then info\<lparr>bi_endpoint := at_show a \<lparr>sa_ip = remote, sa_port = sa_port endpoint\<rparr>\<rparr> else info))"

definition update_entries :: "instant \<Rightarrow> string \<Rightarrow> builder_info \<Rightarrow> builder_entry list \<Rightarrow> builder_entry list" where
  "update_entries now guid info holder =
     filter (\<lambda>e. be_guid e \<noteq> guid \<and> be_timeout e \<ge> now) holder @
     [\<lparr>be_guid = guid, be_info = info, be_timeout = now + secs 5\<rparr>]"

definition agent_update ::
    "addr_text \<Rightarrow> instant \<Rightarrow> ip_addr \<Rightarrow> builder_info_update option \<Rightarrow> builder_entry list \<Rightarrow>
     (status_code \<times> builder_info option) result \<times> builder_entry list" where
  "agent_update a now remote body holder =
     (case body of
        None \<Rightarrow> (Inl (Panic ''called Result::unwrap() on an Err value''), holder)
      | Some update \<Rightarrow>
          (case fix_endpoint a remote (bu_info update) of
             None \<Rightarrow> (Inr (BadRequest, None), holder)
           | Some info \<Rightarrow> (Inr (Ok, Some info), update_entries now (bu_guid update) info holder)))"

definition agent_list :: "instant \<Rightarrow> builder_entry list \<Rightarrow> builder_info list" where
  "agent_list now holder = map be_info (filter (\<lambda>e. be_timeout e \<ge> now) holder)"

section \<open>Histories\<close>

text \<open>A request of the history: when and from where it came, and its body.\<close>

record announcement =
  an_time :: instant
  an_remote :: ip_addr
  an_body :: "builder_info_update option"

definition coordinator_run :: "addr_text \<Rightarrow> announcement list \<Rightarrow> builder_entry list" where
  "coordinator_run a ans = fold (\<lambda>an. snd \<circ> agent_update a (an_time an) (an_remote an) (an_body an)) ans []"

text \<open>What the coordinator should know: of every builder the last announcement that was accepted, as long
  as it is not older than five seconds, in the order of the announcements.\<close>

definition accepted :: "addr_text \<Rightarrow> announcement \<Rightarrow> (instant \<times> string \<times> builder_info) option" where
  "accepted a an =
     (case an_body an of
        None \<Rightarrow> None
      | Some u \<Rightarrow> map_option (\<lambda>info. (an_time an, bu_guid u, info)) (fix_endpoint a (an_remote an) (bu_info u)))"

fun latest :: "(instant \<times> string \<times> builder_info) list \<Rightarrow> (instant \<times> string \<times> builder_info) list" where
  "latest [] = []"
| "latest (u # us) = (if \<exists>u' \<in> set us. fst (snd u') = fst (snd u) then latest us else u # latest us)"

definition fresh :: "instant \<Rightarrow> instant \<times> string \<times> builder_info \<Rightarrow> bool" where
  "fresh now u \<longleftrightarrow> now \<le> fst u + secs 5"

definition known_builders :: "addr_text \<Rightarrow> announcement list \<Rightarrow> instant \<Rightarrow> builder_info list" where
  "known_builders a ans now = map (snd \<circ> snd) (filter (fresh now) (latest (List.map_filter (accepted a) ans)))"

section \<open>Properties\<close>

definition entry_of :: "instant \<times> string \<times> builder_info \<Rightarrow> builder_entry" where
  "entry_of u = \<lparr>be_guid = fst (snd u), be_info = snd (snd u), be_timeout = fst u + secs 5\<rparr>"

lemma latest_snoc:
  "latest (us @ [u]) = filter (\<lambda>u'. fst (snd u') \<noteq> fst (snd u)) (latest us) @ [u]"
  by (induction us) auto

lemma set_latest: "set (latest us) \<subseteq> set us"
  by (induction us) auto

lemma distinct_latest: "distinct (map (\<lambda>u. fst (snd u)) (latest us))"
  using set_latest by (induction us) fastforce+

lemma agent_update_entries:
  "snd (agent_update a (an_time an) (an_remote an) (an_body an) h) =
     (case accepted a an of None \<Rightarrow> h | Some u \<Rightarrow> update_entries (fst u) (fst (snd u)) (snd (snd u)) h)"
  by (simp add: agent_update_def accepted_def split: option.split)

lemma map_filter_snoc: "List.map_filter f (xs @ [x]) = List.map_filter f xs @ (case f x of None \<Rightarrow> [] | Some y \<Rightarrow> [y])"
  by (induction xs) (auto simp: List.map_filter_def split: option.split)

lemma accepted_time: "u \<in> set (List.map_filter (accepted a) ans) \<Longrightarrow> \<exists>an \<in> set ans. fst u = an_time an"
  by (force simp: List.map_filter_def accepted_def split: option.splits)

text \<open>The entries are those announcements, up to entries that have expired meanwhile.\<close>

lemma coordinator_entries:
  assumes "sorted (map an_time ans)" "\<forall>an \<in> set ans. an_time an \<le> now"
  shows "filter (\<lambda>e. be_timeout e \<ge> now) (coordinator_run a ans) =
    map entry_of (filter (fresh now) (latest (List.map_filter (accepted a) ans)))"
  using assms
proof (induction ans arbitrary: now rule: rev_induct)
  case Nil
  then show ?case by (simp add: coordinator_run_def List.map_filter_def)
next
  case (snoc an ans)
  let ?us = "List.map_filter (accepted a) ans"
  have sorted: "sorted (map an_time ans)" "\<forall>x \<in> set ans. an_time x \<le> an_time an"
    using snoc.prems(1) by (simp_all add: sorted_append)
  have run: "coordinator_run a (ans @ [an]) =
      (case accepted a an of None \<Rightarrow> coordinator_run a ans
       | Some u \<Rightarrow> update_entries (fst u) (fst (snd u)) (snd (snd u)) (coordinator_run a ans))"
    by (cases "accepted a an") (simp_all add: coordinator_run_def agent_update_entries)
  show ?case
  proof (cases "accepted a an")
    case None
    then show ?thesis using snoc.IH [OF sorted(1), of now] snoc.prems(2) run by (simp add: map_filter_snoc)
  next
    case (Some u)
    have time: "fst u = an_time an" "an_time an \<le> now"
      using Some snoc.prems(2) by (auto simp: accepted_def split: option.splits)
    let ?other = "\<lambda>e. be_guid e \<noteq> fst (snd u)"
    have "filter (\<lambda>e. be_timeout e \<ge> now) (filter (\<lambda>e. ?other e \<and> be_timeout e \<ge> fst u) (coordinator_run a ans)) =
        filter ?other (filter (\<lambda>e. be_timeout e \<ge> now) (coordinator_run a ans))"
      using time by (auto simp: conj_commute intro!: filter_cong)
    also have "\<dots> = filter ?other (map entry_of (filter (fresh now) (latest ?us)))"
      using snoc.IH [OF sorted(1), of now] snoc.prems(2) by simp
    also have "\<dots> = map entry_of (filter (fresh now) (filter (\<lambda>u'. fst (snd u') \<noteq> fst (snd u)) (latest ?us)))"
      by (simp add: filter_map comp_def entry_of_def conj_commute)
    finally show ?thesis
      using Some run time by (simp add: update_entries_def map_filter_snoc latest_snoc fresh_def entry_of_def)
  qed
qed

text \<open>C30: Asked at any time, the coordinator answers with the builders whose last accepted announcement is at most
  five seconds old, each once and with what it said last, whatever announcements came before, also malformed ones.\<close>

theorem coordinator_list:
  assumes "sorted (map an_time ans)" "\<forall>an \<in> set ans. an_time an \<le> now"
  shows "agent_list now (coordinator_run a ans) = known_builders a ans now \<and>
    distinct (map be_guid (filter (\<lambda>e. be_timeout e \<ge> now) (coordinator_run a ans)))"
proof -
  have "distinct (map (\<lambda>u. fst (snd u)) (filter (fresh now) (latest (List.map_filter (accepted a) ans))))"
    using distinct_latest by (simp add: distinct_map_filter)
  then show ?thesis
    using coordinator_entries [OF assms, of a]
    by (simp add: agent_list_def known_builders_def entry_of_def comp_def)
qed

text \<open>Two builders, the first announced again.\<close>

definition sample_addr_text :: addr_text where
  "sample_addr_text = \<lparr>at_parse = (\<lambda>s. if s = ''0.0.0.0:1'' then Some \<lparr>sa_ip = V4 [0, 0, 0, 0], sa_port = 1\<rparr> else None),
     at_show = (\<lambda>sa. ''10.0.0.7:1'')\<rparr>"

definition sample_announcement :: "nat \<Rightarrow> string \<Rightarrow> announcement" where
  "sample_announcement n guid = \<lparr>an_time = secs n, an_remote = V4 [10, 0, 0, 7],
     an_body = Some \<lparr>bu_guid = guid, bu_info = \<lparr>bi_name = guid, bi_endpoint = ''0.0.0.0:1'', bi_version = [], bi_toolchains = []\<rparr>\<rparr>\<rparr>"

lemma coordinator_list_witness:
  "map bi_name (agent_list (secs 7) (coordinator_run sample_addr_text
     [sample_announcement 0 ''a'', sample_announcement 1 ''b'', sample_announcement 3 ''a''])) = [''a'']"
  using coordinator_list [of "[sample_announcement 0 ''a'', sample_announcement 1 ''b'', sample_announcement 3 ''a'']" "secs 7" sample_addr_text]
  by (simp add: sample_announcement_def known_builders_def List.map_filter_def accepted_def fix_endpoint_def sample_addr_text_def
      fresh_def secs_def)

end
