(* ===== verification/Remote_Client.thy ===== *)
theory Remote_Client
  imports Toolchain Coordinator
begin

text \<open>
  \<open>src/cluster/builder.rs\<close> and \<open>src/cluster/client.rs\<close>: the messages of a remote compilation and the
  toolchain that sends steps to a builder and compiles locally when that does not work.

  The network is a parameter: what the coordinator and a builder answer (crates \<open>reqwest\<close>,
  \<open>bincode\<close>: a failed request or an answer that cannot be decoded is an error), the random number, and
  how many bytes one \<open>write\<close> to a file takes.
\<close>

section \<open>Messages\<close>

record compile_request =
  cq_toolchain :: string
  cq_args :: "string list"
  cq_preprocessed_data :: bytes
  cq_precompiled_hash :: "string option"

datatype compile_response = RespSuccess output_info bytes | RespErr string

fun failure_text :: "failure \<Rightarrow> string" where
  "failure_text (IoError k m) = m"
| "failure_text (Panic m) = m"

definition response_from :: "(output_info \<times> bytes) result \<Rightarrow> compile_response" where
  "response_from r = (case r of Inr (output, content) \<Rightarrow> RespSuccess output content | Inl v \<Rightarrow> RespErr (failure_text v))"

section \<open>The list of builders\<close>

record remote_shared =
  rs_cooldown :: instant
  rs_builders :: "builder_info list"

definition remote_shared_new :: "instant \<Rightarrow> remote_shared" where
  "remote_shared_new now = \<lparr>rs_cooldown = now, rs_builders = []\<rparr>"

text \<open>\<open>coordinator\<close> is the answer of the configured coordinator, if there is one.\<close>

definition receive_builders :: "builder_info list result option \<Rightarrow> builder_info list result" where
  "receive_builders coordinator = (case coordinator of Some answer \<Rightarrow> answer | None \<Rightarrow> Inr [])"

text \<open>The section under the read lock, then the one under the write lock, which looks again.\<close>

definition builders_read :: "instant \<Rightarrow> remote_shared \<Rightarrow> builder_info list option" where
  "builders_read now s = (if rs_cooldown s \<ge> now then Some (rs_builders s) else None)"

definition builders_write ::
    "instant \<Rightarrow> builder_info list result option \<Rightarrow> remote_shared \<Rightarrow> builder_info list \<times> remote_shared" where
  "builders_write now coordinator s =
     (if rs_cooldown s \<ge> now then (rs_builders s, s)
      else
        let s' = (case receive_builders coordinator of
              Inr bs \<Rightarrow> \<lparr>rs_cooldown = now + secs 5, rs_builders = bs\<rparr>
            | Inl e \<Rightarrow> s\<lparr>rs_cooldown := now + secs 1\<rparr>)
        in (rs_builders s', s'))"

definition remote_builders ::
    "instant \<Rightarrow> builder_info list result option \<Rightarrow> remote_shared \<Rightarrow> builder_info list \<times> remote_shared" where
  "remote_builders now coordinator s =
     (case builders_read now s of Some bs \<Rightarrow> (bs, s) | None \<Rightarrow> builders_write now coordinator s)"

definition get_random_builder :: "nat \<Rightarrow> builder_info list \<Rightarrow> (builder_info \<Rightarrow> bool) \<Rightarrow> builder_info option" where
  "get_random_builder random builders p =
     (let filtered = filter p builders
      in if filtered = [] then None else Some (filtered ! (random mod length filtered)))"

section \<open>The remote toolchain\<close>

record remote_host =
  rh_now :: instant
  rh_coordinator :: "builder_info list result option"
  rh_random :: nat
  rh_addr :: addr_text
  rh_head :: "socket_addr \<Rightarrow> string \<Rightarrow> status_code result"
  rh_upload :: "socket_addr \<Rightarrow> string \<Rightarrow> bytes \<Rightarrow> status_code result"
  rh_task :: "socket_addr \<Rightarrow> compile_request \<Rightarrow> compile_response result"
  rh_sha :: "bytes \<Rightarrow> string"
  rh_create :: "path \<Rightarrow> unit result"
  rh_write :: "bytes \<Rightarrow> nat result"
  rh_mtime :: nat

definition remote_endpoint :: "remote_host \<Rightarrow> string \<Rightarrow> remote_shared \<Rightarrow> socket_addr option \<times> remote_shared" where
  "remote_endpoint r name s =
     (let (all_builders, s') = remote_builders (rh_now r) (rh_coordinator r) s
      in (Option.bind (get_random_builder (rh_random r) all_builders (\<lambda>b. name \<in> set (bi_toolchains b)))
            (\<lambda>b. at_parse (rh_addr r) (bi_endpoint b)), s'))"

definition status_done :: "status_code \<Rightarrow> bool" where
  "status_done c \<longleftrightarrow> c = Ok \<or> c = Accepted"

definition upload_precompiled ::
    "remote_host \<Rightarrow> socket_addr \<Rightarrow> path option \<Rightarrow> shared_state \<Rightarrow> string option result \<times> shared_state" where
  "upload_precompiled r addr precompiled st =
     (case precompiled of
        None \<Rightarrow> (Inr None, st)
      | Some p \<Rightarrow>
          let (meta, c) = cache_file_hash (rh_sha r) (ss_fs st) p (ss_cache st);
              st' = st\<lparr>ss_cache := c\<rparr>
          in (rbind meta (\<lambda>meta.
                rbind (rh_head r addr (fh_hash meta)) (\<lambda>present.
                if status_done present then Inr (Some (fh_hash meta))
                else case ss_fs st p of
                       None \<Rightarrow> Inl not_found
                     | Some f \<Rightarrow>
                         rbind (rh_upload r addr (fh_hash meta) (f_data f)) (\<lambda>status.
                         if status_done status then Inr (Some (fh_hash meta))
                         else Inl (IoError BrokenPipe ''Can't upload precompiled header'')))), st'))"

text \<open>\<open>write_output\<close>: one call of \<open>write\<close>, which may take fewer bytes than it is given.\<close>

definition write_object :: "remote_host \<Rightarrow> path option \<Rightarrow> bool \<Rightarrow> bytes \<Rightarrow> filesystem \<Rightarrow> unit result \<times> filesystem" where
  "write_object r p ok output fs =
     (case p of
        None \<Rightarrow> (Inr (), fs)
      | Some path \<Rightarrow>
          if ok then
            (case rh_create r path of
               Inl e \<Rightarrow> (Inl e, fs)
             | Inr _ \<Rightarrow>
                 (case rh_write r output of
                    Inr n \<Rightarrow> (Inr (), fs(path \<mapsto> \<lparr>f_data = take n output, f_mtime = rh_mtime r\<rparr>))
                  | Inl e \<Rightarrow> (Inl e, fs(path := None))))
          else
            (case fs_remove path fs of Inl e \<Rightarrow> (Inl e, fs) | Inr fs' \<Rightarrow> (Inr (), fs')))"

definition other_error :: "string \<Rightarrow> failure" where
  "other_error m = IoError OtherKind m"

definition compile_remote ::
    "remote_host \<Rightarrow> string option \<Rightarrow> compile_step \<Rightarrow> shared_state \<Rightarrow> remote_shared \<Rightarrow>
     compile_response result \<times> shared_state \<times> remote_shared" where
  "compile_remote r identifier task st s =
     (case identifier of
        None \<Rightarrow> (Inl (other_error ''Can't get toolchain name''), st, s)
      | Some name \<Rightarrow>
          let (endpoint, s') = remote_endpoint r name s
          in case endpoint of
               None \<Rightarrow> (Inl (other_error ''Can't find helper for toolchain''), st, s')
             | Some addr \<Rightarrow>
                 if cs_output_precompiled task \<noteq> None
                 then (Inl (other_error ''Remote precompiled header generation is not supported''), st, s')
                 else case ms_into_vec (cs_preprocessed task) of
                        Inl e \<Rightarrow> (Inl e, st, s')
                      | Inr content \<Rightarrow>
                          let (hash, st1) = upload_precompiled r addr (cs_input_precompiled task) st
                          in case rbind hash (\<lambda>hash. rh_task r addr
                                 \<lparr>cq_toolchain = name, cq_args = cs_args task, cq_preprocessed_data = content,
                                  cq_precompiled_hash = hash\<rparr>) of
                               Inl e \<Rightarrow> (Inl e, st1, s')
                             | Inr res \<Rightarrow>
                                 let (written, fs) = (case res of
                                         RespSuccess output obj \<Rightarrow> write_object r (cs_output_object task) (success output) obj (ss_fs st1)
                                       | RespErr _ \<Rightarrow> (Inr (), ss_fs st1));
                                     st2 = st1\<lparr>ss_fs := fs\<rparr>
                                 in (case written of
                                       Inl e \<Rightarrow> (Inl e, st2, s')
                                     | Inr _ \<Rightarrow> (Inr res, st2\<lparr>ss_stat := inc_remote (ss_stat st2)\<rparr>, s')))"

text \<open>The step of the remote toolchain, with the local one as the fallback. A panic is not caught.\<close>

definition is_panic :: "failure \<Rightarrow> bool" where
  "is_panic e \<longleftrightarrow> (\<exists>m. e = Panic m)"

lemma is_panic_code [code]: "is_panic (Panic m) = True" "is_panic (IoError k m) = False"
  by (simp_all add: is_panic_def)

definition remote_compile_step ::
    "remote_host \<Rightarrow> toolchain \<Rightarrow> compile_step \<Rightarrow> shared_state \<Rightarrow> remote_shared \<Rightarrow>
     output_info result \<times> shared_state \<times> remote_shared" where
  "remote_compile_step r local task st s =
     (let (res, st1, s1) = compile_remote r (tc_identifier local) task st s
      in case res of
           Inr (RespSuccess output _) \<Rightarrow> (Inr output, st1, s1)
         | Inr (RespErr err) \<Rightarrow> (Inl (other_error err), st1, s1)
         | Inl e \<Rightarrow>
             if is_panic e then (Inl e, st1, s1)
             else let (out, stat, fs) = tc_compile local task (ss_stat st1) (ss_fs st1)
                  in (out, st1\<lparr>ss_stat := stat, ss_fs := fs\<rparr>, s1))"

text \<open>\<open>RemoteToolchain\<close> is a toolchain: everything but the compilation of a step is the local toolchain's.
  Here it compiles with the hashes and the builders known in \<open>c\<close> and \<open>s\<close>; what it learns about them is only
  remembered to save work.\<close>

definition remote_toolchain :: "remote_host \<Rightarrow> cache \<Rightarrow> remote_shared \<Rightarrow> toolchain \<Rightarrow> toolchain" where
  "remote_toolchain r c s local =
     (let compile = (\<lambda>task stat fs.
            let (res, st, _) = remote_compile_step r local task \<lparr>ss_cache = c, ss_stat = stat, ss_fs = fs\<rparr> s
            in (res, ss_stat st, ss_fs st))
      in local\<lparr>tc_compile := compile, tc_memory := compile_memory compile\<rparr>)"

definition remote_compiler :: "remote_host \<Rightarrow> cache \<Rightarrow> remote_shared \<Rightarrow> compiler \<Rightarrow> compiler" where
  "remote_compiler r c s local =
     \<lparr>cp_resolve = (\<lambda>command. map_option (remote_toolchain r c s) (cp_resolve local command)),
      cp_discovery = cp_discovery local\<rparr>"

section \<open>How often the coordinator is asked\<close>

text \<open>A visit to the write section: when the thread looked at the clock, and what the coordinator would
  answer. The visits come in the order in which the lock is given, whatever the threads do.\<close>

type_synonym visit = "instant \<times> builder_info list result"

fun polls :: "remote_shared \<Rightarrow> visit list \<Rightarrow> instant list" where
  "polls s [] = []"
| "polls s ((now, answer) # vs) =
     (let s' = snd (builders_write now (Some answer) s)
      in if rs_cooldown s \<ge> now then polls s' vs else now # polls s' vs)"

lemma polls_later: "t \<in> set (polls s vs) \<Longrightarrow> rs_cooldown s < t"
proof (induction s vs rule: polls.induct)
  case (2 s now answer vs)
  have "rs_cooldown s \<le> rs_cooldown (snd (builders_write now (Some answer) s))"
    by (auto simp: builders_write_def receive_builders_def Let_def split: sum.split)
  then show ?case using 2 by (fastforce simp: Let_def split: if_splits)
qed simp

lemma polls_spaced: "sorted_wrt (\<lambda>t t'. t + secs 1 < t') (polls s vs)"
proof (induction s vs rule: polls.induct)
  case (2 s now answer vs)
  show ?case
  proof (cases "rs_cooldown s \<ge> now")
    case False
    then have "now + secs 1 \<le> rs_cooldown (snd (builders_write now (Some answer) s))"
      by (auto simp: builders_write_def receive_builders_def Let_def secs_def split: sum.split)
    then show ?thesis
      using 2 False polls_later [of _ "snd (builders_write now (Some answer) s)" vs] by (auto simp: Let_def intro: le_less_trans)
  qed (use 2 in \<open>simp add: Let_def\<close>)
qed simp

lemma spaced_last:
  "sorted_wrt (\<lambda>t t'. t + d < t') ts \<Longrightarrow> ts \<noteq> [] \<Longrightarrow> hd ts + d * (length ts - 1) \<le> last ts"
proof (induction ts)
  case (Cons t ts)
  show ?case
  proof (cases "ts = []")
    case False
    then have "t + d < hd ts" using Cons.prems(1) by (cases ts) auto
    moreover have "hd ts + d * (length ts - 1) \<le> last ts" using Cons False by simp
    ultimately show ?thesis using False by (cases ts) auto
  qed simp
qed simp



end
