(* ===== verification/Builder_Service.thy ===== *)
theory Builder_Service
  imports Remote_Client Temp_File "HOL-Library.List_Lexorder" "HOL-Library.Char_ord" "HOL-Library.AList"
begin

text \<open>
  \<open>src/bin/octo_builder.rs\<close>: the service that compiles for others. It answers requests to compile a step
  and takes uploads of precompiled headers.

  The web server (crate \<open>nickel\<close>) hands a handler the method, the hash of the route and the body; the
  handler answers with a status and a body. Hexadecimal text (crate \<open>hex\<close>) and SHA-256 (crate \<open>sha2\<close>)
  are parameters. A body that cannot be decoded is \<open>None\<close> and panics.
\<close>

section \<open>State\<close>

record builder_state =
  bs_name :: string
  bs_shared :: shared_state
  bs_precompiled_dir :: path
  bs_toolchains :: "(string \<times> toolchain) list"
  bs_precompiled :: "string list"

record builder_host =
  bh_junk :: "nat \<Rightarrow> byte"
  bh_hex_decode :: "string \<Rightarrow> bytes option"
  bh_hex_encode :: "bytes \<Rightarrow> string"
  bh_sha256 :: "bytes \<Rightarrow> bytes"
  bh_create :: "path \<Rightarrow> unit result"
  bh_write :: "bytes \<Rightarrow> nat result"
  bh_rename :: "unit result"
  bh_wait :: "filesystem \<Rightarrow> filesystem"
  bh_mtime :: nat

text \<open>The toolchains of the machine by their identifiers; a later one replaces an earlier one of its name.\<close>

definition discovery_toolchains :: "compiler \<Rightarrow> (string \<times> toolchain) list" where
  "discovery_toolchains cp =
     fold (\<lambda>tc m. case tc_identifier tc of None \<Rightarrow> m | Some name \<Rightarrow> AList.update name tc m) (cp_discovery cp) []"

definition toolchain_names :: "builder_state \<Rightarrow> string list" where
  "toolchain_names b = sort (map fst (bs_toolchains b))"

text \<open>What the announcing thread sends every second.\<close>

definition announce :: "string \<Rightarrow> addr_text \<Rightarrow> string \<Rightarrow> socket_addr \<Rightarrow> builder_state \<Rightarrow> builder_info_update" where
  "announce uuid a version endpoint b =
     builder_info_update_new uuid
       \<lparr>bi_name = bs_name b, bi_endpoint = at_show a endpoint, bi_version = version, bi_toolchains = toolchain_names b\<rparr>"

text \<open>\<open>get_precompiled\<close> makes the lock of a hash when it is asked for the first time.\<close>

definition get_precompiled :: "string \<Rightarrow> builder_state \<Rightarrow> builder_state" where
  "get_precompiled hash b = b\<lparr>bs_precompiled := List.insert hash (bs_precompiled b)\<rparr>"

section \<open>Hashes\<close>

text \<open>The digest has 32 bytes; the decoded text is compared with twice as many.\<close>

definition sha256_output_size :: nat where
  "sha256_output_size = 32"

definition is_valid_sha256 :: "builder_host \<Rightarrow> string \<Rightarrow> bool" where
  "is_valid_sha256 h hash =
     (case bh_hex_decode h hash of None \<Rightarrow> False | Some v \<Rightarrow> length v = sha256_output_size * 2)"

definition precompiled_path :: "builder_state \<Rightarrow> string \<Rightarrow> path" where
  "precompiled_path b hash = path_join (bs_precompiled_dir b) (hash @ ''.pch'')"

section \<open>Compiling\<close>

definition with_precompiled ::
    "builder_host \<Rightarrow> builder_state \<Rightarrow> string option \<Rightarrow> status_code + path option" where
  "with_precompiled h b hash =
     (case hash of
        None \<Rightarrow> Inr None
      | Some hash \<Rightarrow>
          if \<not> is_valid_sha256 h hash then Inl BadRequest
          else let path = precompiled_path b hash
               in if ss_fs (bs_shared b) path = None then Inl FailedDependency else Inr (Some path))"

definition builder_task ::
    "builder_host \<Rightarrow> compile_request option \<Rightarrow> builder_state \<Rightarrow>
     (status_code \<times> compile_response option) result \<times> builder_state" where
  "builder_task h body b =
     (case body of
        None \<Rightarrow> (Inl (Panic ''called Result::unwrap() on an Err value''), b)
      | Some request \<Rightarrow>
          (case with_precompiled h b (cq_precompiled_hash request) of
             Inl status \<Rightarrow> (Inr (status, None), b)
           | Inr precompiled \<Rightarrow>
               (case ms_from (bh_junk h) (cq_preprocessed_data request) of
                  Inl e \<Rightarrow> (Inl e, b)
                | Inr preprocessed \<Rightarrow>
                    let step = \<lparr>cs_args = cq_args request, cs_input_precompiled = precompiled, cs_output_object = None,
                          cs_output_precompiled = None, cs_preprocessed = preprocessed\<rparr>
                    in case map_of (bs_toolchains b) (cq_toolchain request) of
                         None \<Rightarrow> (Inl (Panic ''called Option::unwrap() on a None value''), b)
                       | Some tc \<Rightarrow>
                           let (res, stat, fs) = tc_memory tc step (ss_stat (bs_shared b)) (ss_fs (bs_shared b));
                               b' = b\<lparr>bs_shared := (bs_shared b)\<lparr>ss_stat := stat, ss_fs := fs\<rparr>\<rparr>
                           in (case res of
                                 Inl (Panic m) \<Rightarrow> (Inl (Panic m), b')
                               | _ \<Rightarrow> (Inr (Ok, Some (response_from res)), b')))))"

section \<open>Uploads\<close>

datatype http_method = Head | Post

text \<open>The body goes to the file and to the hasher. One call of \<open>write\<close> may take fewer bytes than it is given,
  the hasher gets them all.\<close>

function receive_loop :: "builder_host \<Rightarrow> reader \<Rightarrow> bytes \<Rightarrow> bytes \<Rightarrow> (bytes \<times> bytes) result" where
  "receive_loop h r content hashed =
     rbind (reader_read DEFAULT_BUF_SIZE r) (\<lambda>x.
       if fst x = [] then Inr (content, hashed)
       else rbind (bh_write h (fst x)) (\<lambda>n. receive_loop h (snd x) (content @ take n (fst x)) (hashed @ fst x)))"
  by pat_completeness auto
termination
  by (relation "measure (\<lambda>(h, r, content, hashed). length (reader_bytes r))") (auto dest: reader_read_bytes)

declare receive_loop.simps [simp del]

text \<open>Up to the lock: an answer, or none if the upload goes on.\<close>

definition upload_check :: "builder_host \<Rightarrow> http_method \<Rightarrow> string option \<Rightarrow> builder_state \<Rightarrow> status_code option" where
  "upload_check h meth hash b =
     (case hash of
        None \<Rightarrow> Some BadRequest
      | Some hash \<Rightarrow>
          if \<not> is_valid_sha256 h hash then Some BadRequest
          else if ss_fs (bs_shared b) (precompiled_path b hash) \<noteq> None then Some Accepted
          else if meth = Head then Some HttpNotFound
          else None)"

text \<open>Under the lock of the hash. The temporary file is removed when its wrapper is dropped.\<close>

definition upload_locked :: "builder_host \<Rightarrow> path \<Rightarrow> string \<Rightarrow> reader \<Rightarrow> filesystem \<Rightarrow> status_code \<times> filesystem" where
  "upload_locked h path hash body fs =
     (if fs path \<noteq> None then (Accepted, fs)
      else
        let tempory = temp_wrap (with_extension path ''tmp'')
        in case temp_get_path tempory of
             Inl e \<Rightarrow> (InternalServerError, fs)
           | Inr tmp \<Rightarrow>
               (case bh_create h tmp of
                  Inl e \<Rightarrow> (InternalServerError, temp_drop tempory fs)
                | Inr _ \<Rightarrow>
                    (case receive_loop h body [] [] of
                       Inl e \<Rightarrow> (InternalServerError, temp_drop tempory fs)
                     | Inr (content, hashed) \<Rightarrow>
                         let fs1 = fs(tmp \<mapsto> \<lparr>f_data = content, f_mtime = bh_mtime h\<rparr>)
                         in if bh_hex_encode h (bh_sha256 h hashed) \<noteq> hash then (BadRequest, temp_drop tempory fs1)
                            else case rbind (bh_rename h) (\<lambda>_. fs_rename tmp path fs1) of
                                   Inr fs2 \<Rightarrow> (Ok, temp_drop tempory fs2)
                                 | Inl e \<Rightarrow> (if fs1 path = None then InternalServerError else Ok, temp_drop tempory fs1))))"

definition builder_upload ::
    "builder_host \<Rightarrow> http_method \<Rightarrow> string option \<Rightarrow> reader \<Rightarrow> builder_state \<Rightarrow> status_code \<times> builder_state" where
  "builder_upload h meth hash body b =
     (case upload_check h meth hash b of
        Some status \<Rightarrow> (status, b)
      | None \<Rightarrow>
          let b1 = get_precompiled (the hash) b;
              (status, fs) = upload_locked h (precompiled_path b (the hash)) (the hash) body (bh_wait h (ss_fs (bs_shared b)))
          in (status, b1\<lparr>bs_shared := (bs_shared b)\<lparr>ss_fs := fs\<rparr>\<rparr>))"

section \<open>No hash is ever valid\<close>

text \<open>What the two crates document.\<close>

definition hex_ok :: "builder_host \<Rightarrow> bool" where
  "hex_ok h \<longleftrightarrow>
     (\<forall>s v. bh_hex_decode h s = Some v \<longrightarrow> length s = 2 * length v) \<and>
     (\<forall>v. length (bh_hex_encode h v) = 2 * length v) \<and>
     (\<forall>d. length (bh_sha256 h d) = sha256_output_size)"

lemma valid_length: "hex_ok h \<Longrightarrow> is_valid_sha256 h hash \<Longrightarrow> length hash = 128"
  by (fastforce simp: hex_ok_def is_valid_sha256_def sha256_output_size_def split: option.splits)

lemma hash_length: "hex_ok h \<Longrightarrow> length (bh_hex_encode h (bh_sha256 h d)) = 64"
  by (simp add: hex_ok_def sha256_output_size_def)

lemma real_hash_invalid: "hex_ok h \<Longrightarrow> \<not> is_valid_sha256 h (bh_hex_encode h (bh_sha256 h d))"
  using valid_length [of h "bh_hex_encode h (bh_sha256 h d)"] hash_length [of h d] by fastforce

lemma upload_locked_rejects:
  assumes "hex_ok h" "length hash = 128"
  shows "fst (upload_locked h path hash body fs) \<noteq> Ok \<and>
    (\<forall>q. snd (upload_locked h path hash body fs) q \<noteq> None \<longrightarrow> fs q \<noteq> None)"
proof -
  have "bh_hex_encode h (bh_sha256 h d) \<noteq> hash" for d using hash_length [OF assms(1), of d] assms(2) by auto
  then show ?thesis by (auto simp: upload_locked_def Let_def split: sum.split prod.split)
qed

text \<open>C34: No upload of a precompiled header succeeds: the answer is never "uploaded", and no file comes into being, for any
  hash, body and disk, because the test of the hash asks for twice the length of the digest it is compared with.\<close>

theorem uploads_never_stored:
  assumes "hex_ok h"
  shows "fst (builder_upload h meth hash body b) \<noteq> Ok \<and>
    (\<forall>q. ss_fs (bs_shared (snd (builder_upload h meth hash body b))) q \<noteq> None \<longrightarrow>
       ss_fs (bs_shared b) q \<noteq> None \<or> bh_wait h (ss_fs (bs_shared b)) q \<noteq> None)"
proof (cases "upload_check h meth hash b")
  case None
  then obtain hs where hs: "hash = Some hs" "is_valid_sha256 h hs"
    by (auto simp: upload_check_def split: option.splits if_splits)
  then show ?thesis
    using upload_locked_rejects [OF assms valid_length [OF assms hs(2)], of "precompiled_path b hs" body "bh_wait h (ss_fs (bs_shared b))"] None
    by (auto simp: builder_upload_def Let_def split: prod.split)
next
  case (Some status)
  then have "status \<noteq> Ok" by (auto simp: upload_check_def split: option.splits if_splits)
  then show ?thesis using Some by (simp add: builder_upload_def)
qed

text \<open>A host for examples, with the lengths of the real crates.\<close>

definition sample_builder_host :: builder_host where
  "sample_builder_host = \<lparr>bh_junk = (\<lambda>_. 0),
     bh_hex_decode = (\<lambda>s. if even (length s) then Some (replicate (length s div 2) 0) else None),
     bh_hex_encode = (\<lambda>v. replicate (2 * length v) (CHR ''0'')), bh_sha256 = (\<lambda>_. replicate 32 0),
     bh_create = (\<lambda>_. Inr ()), bh_write = (\<lambda>d. Inr (length d)), bh_rename = Inr (), bh_wait = (\<lambda>fs. fs), bh_mtime = 0\<rparr>"

definition sample_builder :: "(string \<times> toolchain) list \<Rightarrow> builder_state" where
  "sample_builder tcs = \<lparr>bs_name = ''b'', bs_shared = sample_state, bs_precompiled_dir = ''/p'', bs_toolchains = tcs, bs_precompiled = []\<rparr>"

lemma sample_hex_ok: "hex_ok sample_builder_host"
  by (auto simp: hex_ok_def sample_builder_host_def sha256_output_size_def split: if_splits)

lemma uploads_never_stored_witness:
  "fst (builder_upload sample_builder_host Post (Some (replicate 128 (CHR ''0''))) [Data (ascii ''pch'')] (sample_builder [])) \<noteq> Ok"
  using uploads_never_stored [OF sample_hex_ok] by blast

end
