(* ===== verification/Clang_Prepare.thy ===== *)
theory Clang_Prepare
  imports Prepare Toolchain
begin

text \<open>
  \<open>src/clang/prepare.rs\<close>: the arguments of Clang, their classification and the tasks made from them.
  A call that is no compilation of sources yields no tasks, and the command is then run as it is.
\<close>

section \<open>Classification\<close>

definition clang_has_param_prefix :: "string \<Rightarrow> bool" where
  "clang_has_param_prefix a \<longleftrightarrow> starts_with a ''-''"

definition clang_is_spaceable_param :: "string \<Rightarrow> (string \<times> scope \<times> bool) option" where
  "clang_is_spaceable_param flag =
     (if flag = ''include'' \<or> flag = ''include-pch'' then Some (flag, Preprocessor, False)
      else if flag = ''target'' then Some (flag, Shared, False)
      else if starts_with flag ''D'' then Some (''D'', Shared, False)
      else if starts_with flag ''o'' then Some (''o'', Shared, False)
      else if starts_with flag ''x'' then Some (''x'', Ignore, False)
      else if starts_with flag ''I'' then Some (''I'', Preprocessor, False)
      else None)"

definition clang_flag :: "string \<Rightarrow> string \<Rightarrow> string + arg" where
  "clang_flag a flag =
     (if flag = ''c'' then Inr (Flag Ignore flag)
      else if flag = ''pipe'' then Inr (Flag Shared flag)
      else if flag = ''nostdinc++'' then Inr (Flag Shared flag)
      else if starts_with flag ''f'' then Inr (Flag Shared flag)
      else if starts_with flag ''g'' then Inr (Flag Shared flag)
      else if starts_with flag ''O'' then Inr (Flag Shared flag)
      else if starts_with flag ''W'' then Inr (Flag Shared flag)
      else if starts_with flag ''m'' then Inr (Flag Shared flag)
      else if starts_with flag ''std='' then Inr (Flag Shared flag)
      else Inl a)"

text \<open>A long option: the key without its first dash, the value behind the equals sign or the next argument.\<close>

definition clang_long_option :: "string \<Rightarrow> string list \<Rightarrow> (string + arg) \<times> string list" where
  "clang_long_option a rest =
     (let head = takeWhile (\<lambda>c. c \<noteq> CHR ''='') a;
          classify = (\<lambda>key v. if drop 1 key = ''sysroot'' then Inr (Flag Shared (key @ ''='' @ v)) else Inl key)
      in if length head < length a then (classify (drop 1 head) (drop (length head + 1) a), rest)
         else case rest of
                v # rest' \<Rightarrow> (classify (drop 1 a) v, rest')
              | [] \<Rightarrow> (Inl a, []))"

fun clang_parse_argument :: "string list \<Rightarrow> ((string + arg) \<times> string list) option" where
  "clang_parse_argument [] = None"
| "clang_parse_argument (a # rest) =
     Some (if starts_with a ''--'' then clang_long_option a rest
           else if clang_has_param_prefix a then
             let flag = drop 1 a
             in case clang_is_spaceable_param flag of
                  Some (p, sc, next_flag) \<Rightarrow>
                    let classify = (\<lambda>v. if flag = ''o'' then Inr (Output Object p v) else Inr (Param sc p v))
                    in if flag = p then
                         (case rest of
                            v # rest' \<Rightarrow> (if next_flag = clang_has_param_prefix v then classify v else Inl a, rest')
                          | [] \<Rightarrow> (Inl a, []))
                       else (classify (drop (length p) flag), rest)
                | None \<Rightarrow> (clang_flag a flag, rest)
           else (Inr (Input Source [] a), rest))"

lemma clang_parse_argument_shorter: "clang_parse_argument as = Some (r, rest) \<Longrightarrow> length rest < length as"
  by (cases as) (auto simp: Let_def clang_long_option_def split: if_splits option.splits list.splits)

function clang_parse_results :: "string list \<Rightarrow> (string + arg) list" where
  "clang_parse_results as =
     (case clang_parse_argument as of None \<Rightarrow> [] | Some (r, rest) \<Rightarrow> r # clang_parse_results rest)"
  by pat_completeness auto
termination by (relation "measure length") (auto dest: clang_parse_argument_shorter)

declare clang_parse_results.simps [simp del]

definition clang_parse_arguments :: "string list \<Rightarrow> prepare_error + arg list" where
  "clang_parse_arguments args = collect_arguments (clang_parse_results args)"

section \<open>Tasks\<close>

text \<open>The language named by \<open>-x\<close>; \<open>Inr None\<close> in the outer sum is the early return for headers.\<close>

datatype clang_language = NoLanguage | SourceLanguage string | HeaderLanguage

definition clang_named_language :: "string option \<Rightarrow> prepare_error + clang_language" where
  "clang_named_language v =
     (case v of
        None \<Rightarrow> Inr NoLanguage
      | Some l \<Rightarrow>
          if l = ''c'' \<or> l = ''c++'' then Inr (SourceLanguage l)
          else if l = ''c-header'' \<or> l = ''c++-header'' then Inr HeaderLanguage
          else Inl (UnknownLanguageType l))"

definition clang_task_language :: "clang_language \<Rightarrow> path \<Rightarrow> prepare_error + string" where
  "clang_task_language language source =
     (case (case language of
              SourceLanguage lang \<Rightarrow> Some lang
            | _ \<Rightarrow>
                Option.bind (path_extension source) (\<lambda>e.
                  if eq_ignore_ascii_case e ''cpp'' then Some ''c++''
                  else if eq_ignore_ascii_case e ''c'' then Some ''c''
                  else if eq_ignore_ascii_case e ''hpp'' then Some ''c++-header''
                  else if eq_ignore_ascii_case e ''h'' then Some ''c-header''
                  else None)) of
        None \<Rightarrow> Inl (UnknownLanguage source)
      | Some lang \<Rightarrow> Inr lang)"

definition clang_make_task ::
    "compilation_args \<Rightarrow> clang_language \<Rightarrow> path option \<Rightarrow> path \<Rightarrow> prepare_error + compilation_task" where
  "clang_make_task shared language object source =
     rbind (clang_task_language language source) (\<lambda>lang.
       Inr \<lparr>ct_shared = shared, ct_language = lang, ct_input_source = source,
         ct_output_object = (case object of None \<Rightarrow> with_extension source ''o'' | Some p \<Rightarrow> p)\<rparr>)"

definition clang_tasks_of :: "command_info \<Rightarrow> arg list \<Rightarrow> prepare_error + compilation_task list" where
  "clang_tasks_of command parsed =
     (let sources = List.map_filter arg_source parsed;
          marker = (case List.map_filter (arg_param ''include'') parsed of [] \<Rightarrow> None | v # vs \<Rightarrow> Some v)
      in if sources = [] then Inl NoSourceFile
         else
           rbind (at_most_one TooManyPrecompiled (find_param parsed arg_precompiled)) (\<lambda>input_pch.
           rbind (rbind (at_most_one TooManyOutputs (find_param parsed arg_object)) (\<lambda>object.
             if object \<noteq> None \<and> length sources > 1 then Inl OutputForManySources else Inr object)) (\<lambda>object.
           rbind (rbind (at_most_one TooManyOutputs (find_param parsed (arg_param ''x''))) clang_named_language) (\<lambda>language.
             if language = HeaderLanguage then Inr []
             else try_map (clang_make_task
               \<lparr>ca_command = command, ca_args = parsed, ca_input_precompiled = input_pch,
                 ca_output_precompiled = None, ca_marker_precompiled = marker\<rparr> language object) sources))))"

definition clang_create_tasks :: "command_info \<Rightarrow> string list \<Rightarrow> prepare_error + compilation_task list" where
  "clang_create_tasks command args =
     (if ''--analyze'' \<in> set args then Inr []
      else if ''-c'' \<notin> set args then Inr []
      else rbind (clang_parse_arguments args) (clang_tasks_of command))"

section \<open>What the parser yields\<close>

text \<open>The kinds of arguments that can occur: no input but sources, no output but the object file.\<close>

fun clang_arg :: "arg \<Rightarrow> bool" where
  "clang_arg (Input k flag p) \<longleftrightarrow> k = Source \<and> flag = []"
| "clang_arg (Output k flag p) \<longleftrightarrow> k = Object \<and> flag = ''o''"
| "clang_arg _ \<longleftrightarrow> True"

lemma clang_flag_arg: "clang_flag x flag = Inr a \<Longrightarrow> \<exists>sc. a = Flag sc flag"
  by (auto simp: clang_flag_def split: if_splits)

lemma clang_spaceable_o: "clang_is_spaceable_param ''o'' = Some (''o'', Shared, False)"
  by (simp add: clang_is_spaceable_param_def)

lemma clang_argument_kind:
  assumes "clang_parse_argument args = Some (Inr a, rest)"
  shows "clang_arg a"
proof (cases args)
  case (Cons x xs)
  then show ?thesis
    using assms clang_flag_arg [of x "drop 1 x" a]
    by (auto simp: Let_def clang_long_option_def clang_spaceable_o split: if_splits option.splits list.splits)
qed (use assms in simp)

lemma clang_results_kind: "vs = clang_parse_results args \<Longrightarrow> Inr a \<in> set vs \<Longrightarrow> clang_arg a"
proof (induction args arbitrary: vs rule: clang_parse_results.induct)
  case (1 args)
  show ?case
  proof (cases "clang_parse_argument args")
    case None
    then show ?thesis using 1(2,3) clang_parse_results.simps [of args] by simp
  next
    case (Some p)
    obtain r rest where p: "p = (r, rest)" by (cases p)
    then have "vs = r # clang_parse_results rest" using 1(2) Some clang_parse_results.simps [of args] by simp
    then show ?thesis
      using 1(1) [OF Some p [symmetric] refl] 1(3) clang_argument_kind [of args a rest] Some p by auto
  qed
qed

lemma clang_arguments_kind: "clang_parse_arguments args = Inr as \<Longrightarrow> \<forall>a \<in> set as. clang_arg a"
  using clang_results_kind [of "map Inr as" args] by (auto simp: clang_parse_arguments_def collect_arguments_Inr)

end
