(* ===== verification/Clang_Prepare_Correct.thy ===== *)
theory Clang_Prepare_Correct
  imports Clang_Prepare
begin

text \<open>
  Properties of the Clang argument parser: the tasks it makes satisfy the assertion of the next step,
  they have the shape the call asks for, and the arguments written out are read back.
\<close>

section \<open>Tasks\<close>

lemma clang_make_task_Inr:
  "clang_make_task shared language object source = Inr t \<Longrightarrow>
     ct_shared t = shared \<and> ct_input_source t = source \<and>
     ct_output_object t = (case object of None \<Rightarrow> with_extension source ''o'' | Some p \<Rightarrow> p) \<and>
     clang_task_language language source = Inr (ct_language t)"
  by (auto simp: clang_make_task_def rbind_eq_Inr)

lemma map_filter_none: "(\<And>x. x \<in> set xs \<Longrightarrow> f x = None) \<Longrightarrow> List.map_filter f xs = []"
  by (induction xs) (auto simp: map_filter_simps)

lemma clang_named_language_Inr:
  "clang_named_language v = Inr l \<Longrightarrow> l \<in> {NoLanguage, SourceLanguage ''c'', SourceLanguage ''c++'', HeaderLanguage}"
  by (auto simp: clang_named_language_def split: option.splits if_splits)

lemma clang_task_language_plain:
  "language \<in> {NoLanguage, SourceLanguage ''c'', SourceLanguage ''c++''} \<Longrightarrow> clang_task_language language source = Inr l \<Longrightarrow>
     \<not> clang_has_param_prefix l"
  by (auto simp: clang_task_language_def clang_has_param_prefix_def bind_eq_Some_conv split: option.splits if_splits)

text \<open>The parts of a successful call that made tasks.\<close>

lemma clang_tasks_ofE:
  assumes "clang_tasks_of command parsed = Inr tasks" "\<forall>a \<in> set parsed. clang_arg a" "tasks \<noteq> []"
  obtains object language marker where
    "List.map_filter arg_object parsed = (case object of None \<Rightarrow> [] | Some x \<Rightarrow> [x])"
    "object \<noteq> None \<longrightarrow> length (List.map_filter arg_source parsed) \<le> 1"
    "language \<in> {NoLanguage, SourceLanguage ''c'', SourceLanguage ''c++''}"
    "list_all2 (\<lambda>source t. clang_make_task \<lparr>ca_command = command, ca_args = parsed, ca_input_precompiled = None,
       ca_output_precompiled = None, ca_marker_precompiled = marker\<rparr> language object source = Inr t)
     (List.map_filter arg_source parsed) tasks"
proof -
  have "arg_precompiled a = None" if "a \<in> set parsed" for a
    using assms(2) that by (cases a rule: arg_precompiled.cases) auto
  then have "List.map_filter arg_precompiled parsed = []" by (rule map_filter_none)
  then have pch: "at_most_one TooManyPrecompiled (find_param parsed arg_precompiled) = Inr None"
    by (simp add: at_most_one_Inr)
  obtain object language v where *: "List.map_filter arg_object parsed = (case object of None \<Rightarrow> [] | Some x \<Rightarrow> [x])"
    "object \<noteq> None \<longrightarrow> length (List.map_filter arg_source parsed) \<le> 1"
    "clang_named_language v = Inr language" "language \<noteq> HeaderLanguage"
    "try_map (clang_make_task \<lparr>ca_command = command, ca_args = parsed, ca_input_precompiled = None,
       ca_output_precompiled = None,
       ca_marker_precompiled = (case List.map_filter (arg_param ''include'') parsed of [] \<Rightarrow> None | v # vs \<Rightarrow> Some v)\<rparr>
       language object) (List.map_filter arg_source parsed) = Inr tasks"
    using assms(1,3) pch
    by (auto simp: clang_tasks_of_def Let_def rbind_eq_Inr at_most_one_Inr split: if_splits)
  have "language \<in> {NoLanguage, SourceLanguage ''c'', SourceLanguage ''c++''}"
    using clang_named_language_Inr [OF *(3)] *(4) by auto
  then show ?thesis by (rule that [OF *(1,2)]) (use *(5) in \<open>simp add: try_map_eq_Inr\<close>)
qed

lemma clang_create_tasksE:
  assumes "clang_create_tasks command args = Inr tasks" "tasks \<noteq> []"
  obtains parsed where "''--analyze'' \<notin> set args" "''-c'' \<in> set args" "clang_parse_arguments args = Inr parsed"
    "clang_tasks_of command parsed = Inr tasks"
  using assms by (auto simp: clang_create_tasks_def rbind_eq_Inr split: if_splits)

lemma clang_tasks_prepared:
  assumes "clang_create_tasks command args = Inr tasks" "t \<in> set tasks"
  shows "\<exists>step. compile_step_new t preprocessed cargs False = Inr step \<and> cs_input_precompiled step = None \<and>
    cs_output_object step = Some (ct_output_object t) \<and> cs_output_precompiled step = None"
proof -
  obtain parsed where p: "clang_parse_arguments args = Inr parsed" "clang_tasks_of command parsed = Inr tasks"
    using assms by (auto elim: clang_create_tasksE)
  have "tasks \<noteq> []" using assms(2) by auto
  with p(2) clang_arguments_kind [OF p(1)] show ?thesis
  proof (rule clang_tasks_ofE)
    fix object language marker
    assume "list_all2 (\<lambda>source t. clang_make_task \<lparr>ca_command = command, ca_args = parsed, ca_input_precompiled = None,
       ca_output_precompiled = None, ca_marker_precompiled = marker\<rparr> language object source = Inr t)
     (List.map_filter arg_source parsed) tasks"
    then obtain source where "clang_make_task \<lparr>ca_command = command, ca_args = parsed, ca_input_precompiled = None,
       ca_output_precompiled = None, ca_marker_precompiled = marker\<rparr> language object source = Inr t"
      using list_all2_member [OF _ assms(2)] by blast
    then show ?thesis by (auto simp: compile_step_new_def dest: clang_make_task_Inr)
  qed
qed

text \<open>The tasks of the Clang parser satisfy the assertion of \<open>CompileStep::new\<close> as the
  Clang toolchain calls it: preparing a step from one of them never panics, because no argument of
  Clang is read as a precompiled input.\<close>

theorem clang_tasks_prepare:
  assumes "clang_create_tasks command args = Inr tasks" "t \<in> set tasks"
  shows "\<exists>step. compile_step_new t preprocessed cargs False = Inr step \<and> cs_input_precompiled step = None \<and>
    cs_output_object step = Some (ct_output_object t) \<and> cs_output_precompiled step = None"
  using assms by (rule clang_tasks_prepared)

text \<open>A call that makes tasks has \<open>-c\<close> and no \<open>--analyze\<close>; the tasks are the sources in
  their order, with the object file named by \<open>-o\<close> only when there is one source, and otherwise the
  source with the extension replaced.\<close>

theorem clang_create_tasks_shape:
  assumes "clang_create_tasks command args = Inr tasks" "tasks \<noteq> []"
  shows "''--analyze'' \<notin> set args \<and> ''-c'' \<in> set args \<and> (\<exists>parsed.
    clang_parse_arguments args = Inr parsed \<and> map ct_input_source tasks = List.map_filter arg_source parsed \<and>
    (\<forall>t \<in> set tasks. ca_args (ct_shared t) = parsed \<and> ca_command (ct_shared t) = command) \<and>
    (case List.map_filter arg_object parsed of
       [] \<Rightarrow> \<forall>t \<in> set tasks. ct_output_object t = with_extension (ct_input_source t) ''o''
     | out # _ \<Rightarrow> length tasks = 1 \<and> (\<forall>t \<in> set tasks. ct_output_object t = out)))"
proof -
  obtain parsed where p: "''--analyze'' \<notin> set args" "''-c'' \<in> set args" "clang_parse_arguments args = Inr parsed"
    "clang_tasks_of command parsed = Inr tasks"
    using assms by (rule clang_create_tasksE)
  from p(4) clang_arguments_kind [OF p(3)] assms(2) show ?thesis
  proof (rule clang_tasks_ofE)
    fix object language marker
    let ?shared = "\<lparr>ca_command = command, ca_args = parsed, ca_input_precompiled = None,
       ca_output_precompiled = None, ca_marker_precompiled = marker\<rparr>"
    let ?out = "\<lambda>t. case object of None \<Rightarrow> with_extension (ct_input_source t) ''o'' | Some p \<Rightarrow> p"
    assume object: "List.map_filter arg_object parsed = (case object of None \<Rightarrow> [] | Some x \<Rightarrow> [x])"
      and one: "object \<noteq> None \<longrightarrow> length (List.map_filter arg_source parsed) \<le> 1"
      and all: "list_all2 (\<lambda>source t. clang_make_task ?shared language object source = Inr t)
        (List.map_filter arg_source parsed) tasks"
    from all have "list_all2 (\<lambda>source t. (ct_shared t = ?shared \<and> ct_output_object t = ?out t) \<and> ct_input_source t = id source)
        (List.map_filter arg_source parsed) tasks"
      by (rule list_all2_mono) (auto dest!: clang_make_task_Inr)
    from list_all2_map_eq [OF this]
    have t: "map ct_input_source tasks = List.map_filter arg_source parsed"
      "\<forall>t \<in> set tasks. ct_shared t = ?shared \<and> ct_output_object t = ?out t" by auto
    have "length tasks = length (List.map_filter arg_source parsed)" using t(1) by (metis length_map)
    then have "object \<noteq> None \<longrightarrow> length tasks = 1" using one assms(2) by (cases tasks) auto
    then show ?thesis using p(1-3) t object by (auto split: option.splits)
  qed
qed

lemma clang_tasks_shared:
  assumes "clang_create_tasks command args = Inr tasks" "t \<in> set tasks"
  shows "clang_parse_arguments args = Inr (ca_args (ct_shared t)) \<and> \<not> clang_has_param_prefix (ct_language t)"
proof -
  obtain parsed where p: "clang_parse_arguments args = Inr parsed" "clang_tasks_of command parsed = Inr tasks"
    using assms by (auto elim: clang_create_tasksE)
  have "tasks \<noteq> []" using assms(2) by auto
  with p(2) clang_arguments_kind [OF p(1)] have "ca_args (ct_shared t) = parsed \<and> \<not> clang_has_param_prefix (ct_language t)"
  proof (rule clang_tasks_ofE)
    fix object language marker
    assume l: "language \<in> {NoLanguage, SourceLanguage ''c'', SourceLanguage ''c++''}"
    assume "list_all2 (\<lambda>source t. clang_make_task \<lparr>ca_command = command, ca_args = parsed, ca_input_precompiled = None,
       ca_output_precompiled = None, ca_marker_precompiled = marker\<rparr> language object source = Inr t)
     (List.map_filter arg_source parsed) tasks"
    then show ?thesis
      using list_all2_member [OF _ assms(2)] clang_task_language_plain [OF l] by (fastforce dest: clang_make_task_Inr)
  qed
  then show ?thesis using p(1) by simp
qed

section \<open>Arguments written out\<close>

fun clang_render :: "arg \<Rightarrow> string list" where
  "clang_render (Flag sc flag) = [CHR ''-'' # flag]"
| "clang_render (Param sc flag v) = [CHR ''-'' # flag, v]"
| "clang_render (Input k flag p) = [p]"
| "clang_render (Output k flag p) = [CHR ''-'' # flag, p]"

text \<open>Values that do not look like options, and no object file named by a joined \<open>-o\<close>.\<close>

fun clang_clear :: "arg \<Rightarrow> bool" where
  "clang_clear (Param sc flag v) \<longleftrightarrow> \<not> clang_has_param_prefix v \<and> flag \<noteq> ''o''"
| "clang_clear (Output k flag p) \<longleftrightarrow> \<not> clang_has_param_prefix p"
| "clang_clear _ \<longleftrightarrow> True"

definition clang_reads :: "arg \<Rightarrow> bool" where
  "clang_reads a \<longleftrightarrow> (\<forall>rest. clang_parse_argument (clang_render a @ rest) = Some (Inr a, rest))"

lemma clang_flag_error: "clang_flag x flag = Inr a \<Longrightarrow> clang_flag y flag = Inr a"
proof -
  have "clang_flag z flag = map_sum (\<lambda>_. z) id (clang_flag [] flag)" for z unfolding clang_flag_def by simp
  then show "clang_flag x flag = Inr a \<Longrightarrow> clang_flag y flag = Inr a"
    by (metis map_sum.simps(1,2) old.sum.exhaust sum.distinct(1))
qed

lemma clang_flag_no_dash: "clang_flag x (CHR ''-'' # s) = Inl x"
  by (simp add: clang_flag_def)

lemma clang_flag_reads:
  assumes "clang_is_spaceable_param flag = None" "clang_flag x flag = Inr a"
  shows "clang_reads a"
proof -
  have "flag \<noteq> CHR ''-'' # s" for s using assms(2) clang_flag_no_dash by auto
  then have "\<not> starts_with flag ''-''" by (cases flag) auto
  moreover obtain sc where "a = Flag sc flag" using clang_flag_arg [OF assms(2)] by blast
  ultimately show ?thesis
    using assms(1) clang_flag_error [OF assms(2)] by (simp add: clang_reads_def clang_has_param_prefix_def)
qed

lemma clang_spaceable_cases:
  assumes "clang_is_spaceable_param flag = Some (p, sc, nf)"
  shows "\<not> nf \<and> (p, sc) \<in> {(''include'', Preprocessor), (''include-pch'', Preprocessor), (''target'', Shared),
    (''D'', Shared), (''o'', Shared), (''x'', Ignore), (''I'', Preprocessor)}"
  using assms unfolding clang_is_spaceable_param_def by (simp only: split: if_split_asm) auto

lemma clang_spaceable_self:
  assumes "clang_is_spaceable_param flag = Some (p, sc, nf)"
  shows "clang_is_spaceable_param p = Some (p, sc, False) \<and> \<not> starts_with p ''-'' \<and> \<not> nf"
proof -
  have "\<forall>(p, sc) \<in> {(''include'', Preprocessor), (''include-pch'', Preprocessor), (''target'', Shared),
      (''D'', Shared), (''o'', Shared), (''x'', Ignore), (''I'', Preprocessor)}.
      clang_is_spaceable_param p = Some (p, sc, False) \<and> \<not> starts_with p ''-''"
    by (simp add: clang_is_spaceable_param_def)
  then show ?thesis using clang_spaceable_cases [OF assms] by blast
qed

lemma clang_param_reads:
  assumes "clang_is_spaceable_param p = Some (p, sc, False)" "\<not> starts_with p ''-''" "\<not> clang_has_param_prefix v"
  shows "p \<noteq> ''o'' \<Longrightarrow> clang_reads (Param sc p v)" "p = ''o'' \<Longrightarrow> clang_reads (Output Object p v)"
  using assms by (auto simp: clang_reads_def clang_has_param_prefix_def)

lemma clang_sysroot_reads: "clang_reads (Flag Shared (''-sysroot'' @ ''='' @ v))"
  by (simp add: clang_reads_def clang_long_option_def)

lemma clang_long_option_Inr:
  assumes "clang_long_option x xs = (Inr a, rest)" "starts_with x ''--''"
  shows "\<exists>v. a = Flag Shared (''-sysroot'' @ ''='' @ v)"
proof -
  obtain s where x: "x = CHR ''-'' # CHR ''-'' # s" using assms(2) by (auto simp: starts_with_iff)
  show ?thesis using assms(1) by (auto simp: x clang_long_option_def Let_def split: if_splits list.splits)
qed

lemma clang_argument_reads:
  assumes "clang_parse_argument args = Some (Inr a, rest)" "clang_clear a"
  shows "clang_reads a"
proof (cases args)
  case (Cons x xs)
  consider "starts_with x ''--''" | "\<not> starts_with x ''--''" "clang_has_param_prefix x" | "\<not> clang_has_param_prefix x"
    by blast
  then show ?thesis
  proof cases
    case 1
    then show ?thesis using assms(1) Cons clang_long_option_Inr [of x xs a rest] clang_sysroot_reads by auto
  next
    case 2
    show ?thesis
    proof (cases "clang_is_spaceable_param (drop 1 x)")
      case None
      then show ?thesis using assms(1) Cons 2 clang_flag_reads [of "drop 1 x" x a] by auto
    next
      case (Some ps)
      obtain p sc nf where ps: "ps = (p, sc, nf)" by (cases ps)
      note self = clang_spaceable_self [OF Some [unfolded ps]]
      obtain v where a: "a = Param sc p v \<or> a = Output Object p v \<and> drop 1 x = ''o''"
        using assms(1) Cons 2 Some ps by (auto simp: Let_def split: if_splits list.splits)
      have "drop 1 x = ''o'' \<Longrightarrow> p = ''o''" using Some ps by (auto simp: clang_spaceable_o)
      then show ?thesis using a self assms(2) clang_param_reads [of p sc v] by auto
    qed
  next
    case 3
    then have "\<not> starts_with x ''--''" by (auto simp: clang_has_param_prefix_def starts_with_iff)
    then show ?thesis using assms(1) Cons 3 by (auto simp: clang_reads_def)
  qed
qed (use assms(1) in simp)

lemma clang_reads_results: "\<forall>a \<in> set as. clang_reads a \<Longrightarrow> clang_parse_results (concat (map clang_render as)) = map Inr as"
proof (induction as)
  case (Cons a as)
  then show ?case
    using clang_parse_results.simps [of "concat (map clang_render (a # as))"] by (simp add: clang_reads_def)
qed (simp add: clang_parse_results.simps [of "[]"])

lemma clang_reads_rendered: "\<forall>a \<in> set as. clang_reads a \<Longrightarrow> clang_parse_arguments (concat (map clang_render as)) = Inr as"
  by (simp add: clang_parse_arguments_def collect_arguments_Inr clang_reads_results)

lemma clang_results_read:
  "vs = clang_parse_results args \<Longrightarrow> Inr a \<in> set vs \<Longrightarrow> clang_clear a \<Longrightarrow> clang_reads a"
proof (induction args arbitrary: vs rule: clang_parse_results.induct)
  case (1 args)
  show ?case
  proof (cases "clang_parse_argument args")
    case None
    then show ?thesis using 1(2,3) clang_parse_results.simps [of args] by simp
  next
    case (Some p)
    obtain r rest where p: "p = (r, rest)" by (cases p)
    then have "vs = r # clang_parse_results rest" using 1(2) Some clang_parse_results.simps [of args] by simp
    then show ?thesis
      using 1(1) [OF Some p [symmetric] refl] 1(3,4) clang_argument_reads [of args a rest] Some p by auto
  qed
qed

lemma clang_arguments_read:
  "clang_parse_arguments args = Inr as \<Longrightarrow> \<forall>a \<in> set as. clang_clear a \<Longrightarrow> \<forall>a \<in> set as. clang_reads a"
  using clang_results_read [of "map Inr as" args] by (auto simp: clang_parse_arguments_def collect_arguments_Inr)

section \<open>A command\<close>

definition sample_clang_args :: "string list" where
  "sample_clang_args = [''-c'', ''-O2'', ''-D'', ''X'', ''-Iinc'', ''--sysroot'', ''/r'', ''-o'', ''a.o'', ''a.cpp'']"

definition sample_clang_parsed :: "arg list" where
  "sample_clang_parsed = [Flag Ignore ''c'', Flag Shared ''O2'', Param Shared ''D'' ''X'', Param Preprocessor ''I'' ''inc'',
     Flag Shared ''-sysroot=/r'', Output Object ''o'' ''a.o'', Input Source [] ''a.cpp'']"

definition sample_clang :: command_info where
  "sample_clang = \<lparr>cmd_program = ''clang'', cmd_dir = Some ''/w'', cmd_env = env_new\<rparr>"

definition sample_clang_task :: compilation_task where
  "sample_clang_task = \<lparr>ct_shared = \<lparr>ca_command = sample_clang, ca_args = sample_clang_parsed, ca_input_precompiled = None,
       ca_output_precompiled = None, ca_marker_precompiled = None\<rparr>,
     ct_language = ''c++'', ct_input_source = ''a.cpp'', ct_output_object = ''a.o''\<rparr>"

lemma sample_clang_arguments: "clang_parse_arguments sample_clang_args = Inr sample_clang_parsed"
proof -
  have "clang_parse_results sample_clang_args = map Inr sample_clang_parsed"
    by (simp add: sample_clang_args_def sample_clang_parsed_def clang_parse_results.simps clang_has_param_prefix_def
        clang_is_spaceable_param_def clang_flag_def clang_long_option_def Let_def)
  then show ?thesis by (simp add: clang_parse_arguments_def collect_arguments_Inr)
qed

lemma sample_clang_language: "clang_task_language NoLanguage ''a.cpp'' = Inr ''c++''"
  by code_simp

lemma sample_clang_tasks: "clang_create_tasks sample_clang sample_clang_args = Inr [sample_clang_task]"
proof -
  have "clang_tasks_of sample_clang sample_clang_parsed = Inr [sample_clang_task]"
    by (simp add: clang_tasks_of_def sample_clang_parsed_def sample_clang_task_def map_filter_simps find_param_def
        at_most_one_def clang_named_language_def clang_make_task_def sample_clang_language)
  then show ?thesis by (simp add: clang_create_tasks_def sample_clang_arguments) (simp add: sample_clang_args_def)
qed

lemma clang_tasks_prepare_witness:
  "\<exists>step. compile_step_new sample_clang_task ms_new [''-x'', ''c++''] False = Inr step \<and> cs_input_precompiled step = None \<and>
    cs_output_object step = Some ''a.o'' \<and> cs_output_precompiled step = None"
  using clang_tasks_prepare [OF sample_clang_tasks, of sample_clang_task ms_new "[''-x'', ''c++'']"]
  by (simp add: sample_clang_task_def)

lemma clang_create_tasks_shape_witness: "''-c'' \<in> set sample_clang_args"
  using clang_create_tasks_shape [OF sample_clang_tasks] by simp

text \<open>An object file joined to its option, \<open>-ox.o\<close>, is read as a parameter and not as the output.\<close>

lemma joined_output_ignored: "clang_parse_argument [''-ox.o''] = Some (Inr (Param Shared ''o'' ''x.o''), [])"
  by code_simp

end
