(* ===== verification/Clang_Compiler.thy ===== *)
theory Clang_Compiler
  imports Process Clang_Prepare_Correct
begin

text \<open>
  \<open>src/clang/compiler.rs\<close>: the Clang toolchain. It preprocesses into memory, prepares the arguments of
  the compilation and feeds the preprocessed source to the compiler through a pipe. The regular
  expressions (crate \<open>regex\<close>) are parameters that give the captured groups.
\<close>

section \<open>Arguments\<close>

fun clang_scoped :: "(scope \<Rightarrow> bool) \<Rightarrow> arg \<Rightarrow> string list" where
  "clang_scoped P (Flag sc flag) = (if P sc then [CHR ''-'' # flag] else [])"
| "clang_scoped P (Param sc flag v) = (if P sc then [CHR ''-'' # flag, v] else [])"
| "clang_scoped P (Input k flag p) = []"
| "clang_scoped P (Output k flag p) = []"

definition clang_preprocess_args :: "compilation_task \<Rightarrow> string list" where
  "clang_preprocess_args task =
     [''-E'', ''-x'', ct_language task, ''-frewrite-includes''] @
     concat (map (clang_scoped for_preprocessor) (ca_args (ct_shared task))) @
     [ct_input_source task, ''-o'', ''-'']"

definition clang_compile_args :: "compilation_task \<Rightarrow> string list" where
  "clang_compile_args task =
     [''-x'', ct_language task] @ concat (map (clang_scoped for_compiler) (ca_args (ct_shared task)))"

section \<open>Preprocessing\<close>

text \<open>\<open>io::copy\<close> into a \<open>MemStream\<close>: every piece is written, up to the first empty read.\<close>

fun copy_to_stream :: "(nat \<Rightarrow> byte) \<Rightarrow> reader \<Rightarrow> mem_stream \<Rightarrow> mem_stream result" where
  "copy_to_stream junk [] ms = Inr ms"
| "copy_to_stream junk (Fail e # r) ms = Inl e"
| "copy_to_stream junk (Data d # r) ms =
     (if d = [] then Inr ms else rbind (ms_write junk ms d) (copy_to_stream junk r))"

text \<open>\<open>read_stdout\<close> replaces a failed copy by an empty stream, \<open>bytes\<close> a failed read by no bytes.\<close>

definition clang_read_stdout :: "(nat \<Rightarrow> byte) \<Rightarrow> reader \<Rightarrow> mem_stream" where
  "clang_read_stdout junk r = (case copy_to_stream junk r ms_new of Inr ms \<Rightarrow> ms | Inl _ \<Rightarrow> ms_new)"

definition clang_read_stderr :: "reader \<Rightarrow> bytes" where
  "clang_read_stderr r = (case read_all r of Inr d \<Rightarrow> d | Inl _ \<Rightarrow> [])"

definition clang_execute ::
    "(nat \<Rightarrow> byte) \<Rightarrow> runner \<Rightarrow> process_command \<Rightarrow> filesystem \<Rightarrow> preprocess_result result \<times> filesystem" where
  "clang_execute junk run cmd fs =
     (let (res, fs') = run cmd [] fs
      in (rbind res (\<lambda>ch.
            if ch_status ch = Some 0 then Inr (Success (clang_read_stdout junk (ch_stdout ch)))
            else Inr (Failed \<lparr>oi_status = ch_status ch, oi_stdout = [], oi_stderr = clang_read_stderr (ch_stderr ch)\<rparr>)),
          fs'))"

definition clang_preprocess_step ::
    "(nat \<Rightarrow> byte) \<Rightarrow> runner \<Rightarrow> compilation_task \<Rightarrow> statistic \<Rightarrow> filesystem \<Rightarrow>
     preprocess_result result \<times> statistic \<times> filesystem" where
  "clang_preprocess_step junk run task stat fs =
     (let cmd = (to_command (ca_command (ct_shared task)))\<lparr>pc_args := clang_preprocess_args task\<rparr>;
          (res, fs') = clang_execute junk run cmd fs
      in (res, stat, fs'))"

section \<open>Compilation\<close>

definition clang_compile_prepare_step :: "compilation_task \<Rightarrow> mem_stream \<Rightarrow> compile_step result" where
  "clang_compile_prepare_step task preprocessed = compile_step_new task preprocessed (clang_compile_args task) False"

definition clang_compile_step :: "path \<Rightarrow> runner \<Rightarrow> compile_step \<Rightarrow> worker" where
  "clang_compile_step clang run step stat fs =
     (let cmd = \<lparr>pc_program = clang,
            pc_args = [''-c''] @ cs_args step @ [''-'', ''-o'', case cs_output_object step of None \<Rightarrow> ''-'' | Some p \<Rightarrow> p],
            pc_env = env_new, pc_dir = None\<rparr>
      in case ms_copy vec_write (cs_preprocessed step) [] of
           Inl e \<Rightarrow> (Inl e, stat, fs)
         | Inr (_, input) \<Rightarrow>
             let (res, fs') = run_output run cmd input fs
             in (res, stat, fs'))"

section \<open>Identification\<close>

text \<open>\<open>re_name\<close> gives the base name when a file name is Clang's, \<open>re_version\<close> version and target.\<close>

definition clang_parse_version :: "(string \<Rightarrow> (string \<times> string) option) \<Rightarrow> string \<Rightarrow> string \<Rightarrow> string option" where
  "clang_parse_version re_version base_name out =
     map_option (\<lambda>(version, target). base_name @ '' '' @ version @ '' '' @ target) (re_version out)"

definition clang_identifier ::
    "(string \<Rightarrow> string option) \<Rightarrow> (string \<Rightarrow> (string \<times> string) option) \<Rightarrow> (path \<Rightarrow> output_info result) \<Rightarrow>
     path \<Rightarrow> string option" where
  "clang_identifier re_name re_version version_output clang =
     Option.bind (file_name clang) (\<lambda>name.
     Option.bind (re_name name) (\<lambda>base_name.
       case version_output clang of
         Inl _ \<Rightarrow> None
       | Inr out \<Rightarrow>
           if success out then clang_parse_version re_version base_name (map (\<lambda>b. char_of (unat b)) (oi_stdout out))
           else None))"

section \<open>The toolchain and the compiler\<close>

record clang_host =
  clh_run :: runner
  clh_junk :: "nat \<Rightarrow> byte"
  clh_name :: "string \<Rightarrow> string option"
  clh_version :: "string \<Rightarrow> (string \<times> string) option"
  clh_version_output :: "path \<Rightarrow> output_info result"
  clh_debug :: "string list \<Rightarrow> string"

definition clang_toolchain :: "clang_host \<Rightarrow> path \<Rightarrow> toolchain" where
  "clang_toolchain h clang =
     \<lparr>tc_identifier = clang_identifier (clh_name h) (clh_version h) (clh_version_output h) clang,
      tc_create_tasks = (\<lambda>command args. map_sum (prepare_message (clh_debug h)) id (clang_create_tasks command args)),
      tc_preprocess = clang_preprocess_step (clh_junk h) (clh_run h),
      tc_prepare = clang_compile_prepare_step,
      tc_compile = clang_compile_step clang (clh_run h),
      tc_memory = compile_memory (clang_compile_step clang (clh_run h))\<rparr>"

definition clang_resolve_toolchain ::
    "clang_host \<Rightarrow> host \<Rightarrow> (path \<rightharpoonup> path) \<Rightarrow> command_info \<Rightarrow> toolchain toolchain_holder \<Rightarrow>
     toolchain option \<times> toolchain toolchain_holder" where
  "clang_resolve_toolchain h os find_exec command holder =
     (case file_name (cmd_program command) of
        None \<Rightarrow> (None, holder)
      | Some name \<Rightarrow>
          if clh_name h name = None then (None, holder)
          else case find_executable os find_exec command of
                 None \<Rightarrow> (None, holder)
               | Some executable \<Rightarrow> holder_resolve executable (clang_toolchain h) holder)"

text \<open>\<open>listing\<close> is \<open>read_dir\<close>: the names of a directory that can be read.\<close>

definition clang_discovery :: "clang_host \<Rightarrow> string option \<Rightarrow> (path \<Rightarrow> string list option) \<Rightarrow> toolchain list" where
  "clang_discovery h path_var listing =
     (let dirs = filter is_absolute (case path_var of None \<Rightarrow> [] | Some ps \<Rightarrow> split_paths ps)
      in concat (map (\<lambda>dir. case listing dir of
           None \<Rightarrow> []
         | Some names \<Rightarrow> map (\<lambda>name. clang_toolchain h (path_join dir name)) (filter (\<lambda>n. clh_name h n \<noteq> None) names))
         dirs))"

section \<open>Properties\<close>

lemma copy_to_stream_ok:
  "ms_inv ms \<Longrightarrow> clean_reader r \<Longrightarrow>
     \<exists>ms'. copy_to_stream junk r ms = Inr ms' \<and> ms_inv ms' \<and> ms_content ms' = ms_content ms @ reader_bytes r"
proof (induction r arbitrary: ms)
  case (Cons e r)
  then obtain d where e: "e = Data d" "d \<noteq> []" by (cases e) auto
  obtain ms1 where "ms_write junk ms d = Inr ms1" "ms_inv ms1" "ms_content ms1 = ms_content ms @ d"
    using mem_sink.wrE [OF Cons.prems(1)] by blast
  then show ?case using Cons.IH [of ms1] Cons.prems(2) e by auto
qed simp

lemma ms_copy_vec: "ms_inv ms \<Longrightarrow> \<exists>n. ms_copy vec_write ms [] = Inr (n, ms_content ms)"
  using vec_sink.ms_copy_ok [of ms "[]"] by auto

lemma clang_scoped_render:
  "clang_arg a \<Longrightarrow> clang_scoped P a = (if scoped_arg P a then clang_render a else [])"
  by (cases a) auto

lemma concat_map_if: "concat (map (\<lambda>x. if P x then f x else []) xs) = concat (map f (filter P xs))"
  by (induction xs) auto

lemma clang_scoped_all:
  assumes "\<forall>a \<in> set as. clang_arg a"
  shows "concat (map (clang_scoped P) as) = concat (map clang_render (filter (scoped_arg P) as))"
proof -
  have "map (clang_scoped P) as = map (\<lambda>a. if scoped_arg P a then clang_render a else []) as"
    using assms clang_scoped_render by (intro map_cong) auto
  then show ?thesis by (simp only: concat_map_if)
qed


text \<open>C22: A task of the Clang parser whose preprocessor ends with code 0 is compiled from
  exactly the bytes the preprocessor wrote, into the object file of the task; the steps between
  neither fail nor panic.\<close>

theorem clang_pipeline:
  assumes "clang_create_tasks command args = Inr tasks" "t \<in> set tasks"
    "run ((to_command (ca_command (ct_shared t)))\<lparr>pc_args := clang_preprocess_args t\<rparr>) [] fs = (Inr ch, fs1)"
    "clean_child ch" "ch_status ch = Some 0"
  shows "\<exists>ms step. clang_preprocess_step junk run t stat fs = (Inr (Success ms), stat, fs1) \<and>
    clang_compile_prepare_step t ms = Inr step \<and>
    clang_compile_step clang run step stat fs1 =
      (let (res, fs2) = run \<lparr>pc_program = clang,
             pc_args = [''-c''] @ clang_compile_args t @ [''-'', ''-o'', ct_output_object t], pc_env = env_new, pc_dir = None\<rparr>
           (reader_bytes (ch_stdout ch)) fs1
       in (rbind res child_output, stat, fs2))"
proof -
  obtain ms where ms: "copy_to_stream junk (ch_stdout ch) ms_new = Inr ms" "ms_inv ms" "ms_content ms = reader_bytes (ch_stdout ch)"
    using copy_to_stream_ok [of ms_new "ch_stdout ch" junk] assms(4) by (auto simp: clean_child_def)
  then have pre: "clang_preprocess_step junk run t stat fs = (Inr (Success ms), stat, fs1)"
    using assms(3,5) by (simp add: clang_preprocess_step_def clang_execute_def clang_read_stdout_def Let_def)
  obtain step where step: "clang_compile_prepare_step t ms = Inr step" "cs_output_object step = Some (ct_output_object t)"
    using clang_tasks_prepared [OF assms(1,2)] by (auto simp: clang_compile_prepare_step_def)
  have cs: "cs_args step = clang_compile_args t" "cs_preprocessed step = ms"
    using step(1) by (auto simp: clang_compile_prepare_step_def compile_step_new_def split: if_splits)
  obtain n where "ms_copy vec_write ms [] = Inr (n, reader_bytes (ch_stdout ch))"
    using ms_copy_vec [OF ms(2)] ms(3) by auto
  then show ?thesis
    using pre step cs by (auto simp: clang_compile_step_def run_output_def Let_def split: prod.splits)
qed


lemma clang_pipeline_witness:
  "\<exists>ms step. clang_preprocess_step (\<lambda>_. 0)
      (\<lambda>_ _ fs. (Inr \<lparr>ch_status = Some 0, ch_stdout = [Data (ascii ''int x;'')], ch_stderr = []\<rparr>, fs))
      sample_clang_task statistic_new (\<lambda>_. None) = (Inr (Success ms), statistic_new, \<lambda>_. None) \<and>
    clang_compile_prepare_step sample_clang_task ms = Inr step"
  using clang_pipeline [OF sample_clang_tasks, of sample_clang_task
      "\<lambda>_ _ fs. (Inr \<lparr>ch_status = Some 0, ch_stdout = [Data (ascii ''int x;'')], ch_stderr = []\<rparr>, fs)" "\<lambda>_. None"
      "\<lparr>ch_status = Some 0, ch_stdout = [Data (ascii ''int x;'')], ch_stderr = []\<rparr>" "\<lambda>_. None" "\<lambda>_. 0" statistic_new "''/usr/bin/clang''"]
  by (auto simp: clean_child_def ascii_def)

text \<open>A failing read of the preprocessor's output is not reported: the source counts as preprocessed, and
  empty.\<close>

lemma read_error_swallowed:
  "clang_execute junk (\<lambda>_ _ fs. (Inr \<lparr>ch_status = Some 0, ch_stdout = [Fail e], ch_stderr = []\<rparr>, fs)) cmd fs =
     (Inr (Success ms_new), fs)"
  by (simp add: clang_execute_def clang_read_stdout_def)

end
