(* ===== verification/Cluster_Correct.thy ===== *)
theory Cluster_Correct
  imports Builder_Service Clang_Compiler
begin

text \<open>
  Client and builder together: what a step compiled over the network amounts to.
\<close>

section \<open>A builder behind the network\<close>

text \<open>The answers a client gets from a builder whose handlers are those of \<open>Builder_Service\<close>: only an answer
  with a result can be decoded.\<close>

definition ask_builder :: "builder_host \<Rightarrow> builder_state \<Rightarrow> compile_request \<Rightarrow> compile_response result" where
  "ask_builder h b request =
     (case fst (builder_task h (Some request) b) of
        Inr (_, Some res) \<Rightarrow> Inr res
      | _ \<Rightarrow> Inl (IoError InvalidData ''invalid response''))"

definition serves :: "remote_host \<Rightarrow> builder_host \<Rightarrow> builder_state \<Rightarrow> socket_addr \<Rightarrow> bool" where
  "serves r h b addr \<longleftrightarrow>
     rh_task r addr = ask_builder h b \<and>
     (\<forall>hash. rh_head r addr hash = Inr (fst (builder_upload h Head (Some hash) [] b))) \<and>
     (\<forall>hash d. rh_upload r addr hash d = Inr (fst (builder_upload h Post (Some hash) [Data d] b)))"

definition whole_writes :: "remote_host \<Rightarrow> bool" where
  "whole_writes r \<longleftrightarrow> (\<forall>p. rh_create r p = Inr ()) \<and> (\<forall>d. rh_write r d = Inr (length d))"

lemma remote_endpoint_random:
  assumes "remote_endpoint r name s = (Some addr, s')"
  shows "\<exists>b \<in> set (fst (remote_builders (rh_now r) (rh_coordinator r) s)).
    name \<in> set (bi_toolchains b) \<and> at_parse (rh_addr r) (bi_endpoint b) = Some addr"
proof -
  let ?bs = "fst (remote_builders (rh_now r) (rh_coordinator r) s)"
  let ?fs = "filter (\<lambda>b. name \<in> set (bi_toolchains b)) ?bs"
  have fs: "?fs \<noteq> [] \<and> at_parse (rh_addr r) (bi_endpoint (?fs ! (rh_random r mod length ?fs))) = Some addr"
    using assms by (auto simp: remote_endpoint_def get_random_builder_def Let_def split: prod.splits if_splits)
  then have "?fs ! (rh_random r mod length ?fs) \<in> set ?fs" by (intro nth_mem) simp
  then have "?fs ! (rh_random r mod length ?fs) \<in> set ?bs \<and> name \<in> set (bi_toolchains (?fs ! (rh_random r mod length ?fs)))"
    unfolding set_filter by blast
  then show ?thesis using fs by blast
qed

section \<open>A step without a precompiled header\<close>

text \<open>What a client relies on when a builder compiles for it: for some arguments, sources and disks the toolchain is known to
  compile a step that is kept in memory, with this output and this object file.\<close>

definition memory_step :: "string list \<Rightarrow> mem_stream \<Rightarrow> compile_step" where
  "memory_step args preprocessed =
     \<lparr>cs_args = args, cs_input_precompiled = None, cs_output_object = None, cs_output_precompiled = None, cs_preprocessed = preprocessed\<rparr>"

locale memory_toolchain =
  fixes tc :: toolchain
    and compiled :: "string list \<Rightarrow> bytes \<Rightarrow> filesystem \<Rightarrow> (output_info \<times> bytes) option"
  assumes memory_compiles:
    "compiled args (ms_content ms) fs = Some (out, obj) \<Longrightarrow> ms_inv ms \<Longrightarrow> fst (tc_memory tc (memory_step args ms) stat fs) = Inr (out, obj)"

lemma remote_success:
  assumes "tc_identifier local = Some name" "remote_endpoint r name s = (Some addr, s')"
    "cs_input_precompiled step = None" "cs_output_precompiled step = None" "cs_output_object step = Some p"
    "ms_inv (cs_preprocessed step)" "whole_writes r"
    "rh_task r addr \<lparr>cq_toolchain = name, cq_args = cs_args step,
       cq_preprocessed_data = ms_content (cs_preprocessed step), cq_precompiled_hash = None\<rparr> = Inr (RespSuccess output obj)"
    "success output"
  shows "remote_compile_step r local step st s =
    (Inr output, st\<lparr>ss_fs := (ss_fs st)(p \<mapsto> \<lparr>f_data = obj, f_mtime = rh_mtime r\<rparr>), ss_stat := inc_remote (ss_stat st)\<rparr>, s')"
  using assms ms_into_vec_ok [OF assms(6)]
  by (simp add: remote_compile_step_def compile_remote_def upload_precompiled_def write_object_def whole_writes_def Let_def)

context memory_toolchain
begin

lemma builder_compiles:
  assumes "cq_precompiled_hash q = None" "map_of (bs_toolchains b) (cq_toolchain q) = Some tc"
    "compiled (cq_args q) (cq_preprocessed_data q) (ss_fs (bs_shared b)) = Some (out, obj)"
  shows "ask_builder h b q = Inr (RespSuccess out obj)"
proof -
  obtain ms where ms: "ms_from (bh_junk h) (cq_preprocessed_data q) = Inr ms" "ms_inv ms" "ms_content ms = cq_preprocessed_data q"
    using write_data_ok [of ms_new "bh_junk h" "cq_preprocessed_data q"] by (auto simp: ms_from_def)
  have "fst (tc_memory tc (memory_step (cq_args q) ms) (ss_stat (bs_shared b)) (ss_fs (bs_shared b))) = Inr (out, obj)"
    by (rule memory_compiles) (use assms(3) ms in simp_all)
  then show ?thesis
    using assms(1,2) ms(1)
    by (auto simp: ask_builder_def builder_task_def with_precompiled_def response_from_def memory_step_def Let_def split: prod.splits)
qed

lemma remote_object:
  assumes "tc_identifier local = Some name" "remote_endpoint r name s = (Some addr, s')" "serves r h b addr"
    "map_of (bs_toolchains b) name = Some tc"
    "cs_input_precompiled step = None" "cs_output_precompiled step = None" "cs_output_object step = Some p"
    "ms_inv (cs_preprocessed step)" "whole_writes r"
    "compiled (cs_args step) (ms_content (cs_preprocessed step)) (ss_fs (bs_shared b)) = Some (out, obj)" "success out"
  shows "remote_compile_step r local step st s =
    (Inr out, st\<lparr>ss_fs := (ss_fs st)(p \<mapsto> \<lparr>f_data = obj, f_mtime = rh_mtime r\<rparr>), ss_stat := inc_remote (ss_stat st)\<rparr>, s')"
  using assms(3,4,10)
  by (intro remote_success [OF assms(1,2,5-9) _ assms(11)]) (simp add: serves_def builder_compiles)

end

text \<open>Clang compiles such a step from its standard input to its standard output.\<close>

definition clang_compiled :: "clang_host \<Rightarrow> path \<Rightarrow> string list \<Rightarrow> bytes \<Rightarrow> filesystem \<Rightarrow> (output_info \<times> bytes) option" where
  "clang_compiled c clang args src fs =
     (case fst (clh_run c \<lparr>pc_program = clang, pc_args = [''-c''] @ args @ [''-'', ''-o'', ''-''], pc_env = env_new, pc_dir = None\<rparr> src fs) of
        Inl _ \<Rightarrow> None
      | Inr ch \<Rightarrow>
          if clean_child ch
          then Some (\<lparr>oi_status = ch_status ch, oi_stdout = [], oi_stderr = reader_bytes (ch_stderr ch)\<rparr>, reader_bytes (ch_stdout ch))
          else None)"

interpretation clang_memory: memory_toolchain "clang_toolchain c clang" "clang_compiled c clang" for c clang
proof
  fix args ms fs out obj stat
  assume compiled: "clang_compiled c clang args (ms_content ms) fs = Some (out, obj)" and ms: "ms_inv ms"
  obtain n where "ms_copy vec_write ms [] = Inr (n, ms_content ms)" using ms_copy_vec [OF ms] by auto
  then show "fst (tc_memory (clang_toolchain c clang) (memory_step args ms) stat fs) = Inr (out, obj)"
    using compiled child_output_clean
    by (auto simp: clang_compiled_def memory_step_def clang_toolchain_def compile_memory_def clang_compile_step_def run_output_def
        output_info_new_def Let_def split: prod.splits sum.splits if_splits)
qed

text \<open>C14: A step without precompiled headers that a builder compiles with Clang: the object file of the client is what
  the compiler of the builder writes when it is run with the arguments of the step on its preprocessed source, and
  the local compiler is not run.\<close>

theorem remote_clang_step:
  assumes "tc_identifier local = Some name" "remote_endpoint r name s = (Some addr, s')" "serves r h b addr"
    "map_of (bs_toolchains b) name = Some (clang_toolchain c clang)"
    "cs_input_precompiled step = None" "cs_output_precompiled step = None" "cs_output_object step = Some p"
    "ms_inv (cs_preprocessed step)" "whole_writes r"
    "fst (clh_run c \<lparr>pc_program = clang, pc_args = [''-c''] @ cs_args step @ [''-'', ''-o'', ''-''], pc_env = env_new, pc_dir = None\<rparr>
       (ms_content (cs_preprocessed step)) (ss_fs (bs_shared b))) = Inr ch"
    "clean_child ch" "ch_status ch = Some 0"
  shows "remote_compile_step r local step st s =
    (Inr \<lparr>oi_status = Some 0, oi_stdout = [], oi_stderr = reader_bytes (ch_stderr ch)\<rparr>,
     st\<lparr>ss_fs := (ss_fs st)(p \<mapsto> \<lparr>f_data = reader_bytes (ch_stdout ch), f_mtime = rh_mtime r\<rparr>),
        ss_stat := inc_remote (ss_stat st)\<rparr>, s')"
  by (rule clang_memory.remote_object [OF assms(1-9)]) (use assms(10-12) in \<open>simp_all add: clang_compiled_def success_def\<close>)

section \<open>A step with a precompiled header\<close>

text \<open>C35: A step that uses a precompiled header is never compiled by a builder: the upload of the header is rejected, and the
  step is compiled by the local toolchain, as if there were no cluster.\<close>

theorem remote_precompiled_local:
  assumes "hex_ok h" "serves r h b addr" "tc_identifier local = Some name" "remote_endpoint r name s = (Some addr, s')"
    "cs_output_precompiled step = None" "cs_input_precompiled step = Some p" "ms_inv (cs_preprocessed step)"
    "rh_sha r = (\<lambda>d. bh_hex_encode h (bh_sha256 h d))" "stamped ver (ss_fs st)" "hashes_inv (rh_sha r) ver (ss_cache st)"
  shows "\<exists>c. remote_compile_step r local step st s =
    (let (out, stat, fs) = tc_compile local step (ss_stat st) (ss_fs st)
     in (out, \<lparr>ss_cache = c, ss_stat = stat, ss_fs = fs\<rparr>, s'))"
proof -
  obtain meta c where m: "cache_file_hash (rh_sha r) (ss_fs st) p (ss_cache st) = (meta, c)" by fastforce
  have meta: "fh_hash v = bh_hex_encode h (bh_sha256 h d)" if "meta = Inr v" "ss_fs st p = Some \<lparr>f_data = d, f_mtime = t\<rparr>" for v d t
    using file_hash_step(1) [OF assms(9,10), of p] m that assms(8) by simp
  have bad: "\<not> status_done (fst (builder_upload h meth (Some (fh_hash v)) body b))" if mv: "meta = Inr v" for v meth body
  proof -
    obtain f where f: "ss_fs st p = Some f"
      using file_hash_step(1) [OF assms(9,10), of p] m mv by (cases "ss_fs st p") simp_all
    have "\<not> is_valid_sha256 h (fh_hash v)"
      using meta [OF mv] f real_hash_invalid [OF assms(1)] by (cases f) auto
    then show ?thesis by (simp add: builder_upload_def upload_check_def status_done_def)
  qed
  have up: "\<exists>e. upload_precompiled r addr (Some p) st = (Inl e, st\<lparr>ss_cache := c\<rparr>) \<and> \<not> is_panic e"
  proof (cases meta)
    case (Inl e)
    then have "e = IoError OtherKind ''I/O Error''"
      using m by (auto simp: cache_file_hash_def split: prod.splits option.splits)
    then show ?thesis using m Inl by (simp add: upload_precompiled_def is_panic_def)
  next
    case (Inr v)
    then show ?thesis
      using m bad [OF Inr] assms(2)
      by (auto simp: upload_precompiled_def serves_def is_panic_def not_found_def split: option.split)
  qed
  then show ?thesis
    using assms(3-7) ms_into_vec_ok [OF assms(7)]
    by (auto simp: remote_compile_step_def compile_remote_def Let_def split: prod.splits intro!: exI [of _ c])
qed

section \<open>When a builder reports errors\<close>

text \<open>A failed compilation removes the object file of the client. When there is none, as in a first build, removing it fails, which
  counts as a failure of the network: the step is compiled again, locally.\<close>

lemma failed_step_compiled_again:
  assumes "tc_identifier local = Some name" "remote_endpoint r name s = (Some addr, s')"
    "cs_input_precompiled step = None" "cs_output_precompiled step = None" "cs_output_object step = Some p"
    "ms_inv (cs_preprocessed step)" "ss_fs st p = None"
    "rh_task r addr \<lparr>cq_toolchain = name, cq_args = cs_args step,
       cq_preprocessed_data = ms_content (cs_preprocessed step), cq_precompiled_hash = None\<rparr> = Inr (RespSuccess output obj)"
    "\<not> success output"
  shows "remote_compile_step r local step st s =
    (let (out, stat, fs) = tc_compile local step (ss_stat st) (ss_fs st) in (out, st\<lparr>ss_stat := stat, ss_fs := fs\<rparr>, s'))"
  using assms ms_into_vec_ok [OF assms(6)]
  by (simp add: remote_compile_step_def compile_remote_def upload_precompiled_def write_object_def fs_remove_def not_found_def
      is_panic_def Let_def split: prod.split)

text \<open>A short write is not noticed: the object file is cut, the step has succeeded.\<close>

lemma short_write_unnoticed:
  "rh_create r p = Inr () \<Longrightarrow> rh_write r obj = Inr n \<Longrightarrow>
     write_object r (Some p) True obj fs = (Inr (), fs(p \<mapsto> \<lparr>f_data = take n obj, f_mtime = rh_mtime r\<rparr>))"
  by (simp add: write_object_def)

section \<open>A compilation over the network\<close>

definition sample_clang_host :: clang_host where
  "sample_clang_host = \<lparr>clh_run = (\<lambda>_ _ fs. (Inr \<lparr>ch_status = Some 0, ch_stdout = [Data (ascii ''obj'')], ch_stderr = []\<rparr>, fs)),
     clh_junk = (\<lambda>_. 0), clh_name = (\<lambda>_. None), clh_version = (\<lambda>_. None), clh_version_output = (\<lambda>_. Inl not_found),
     clh_debug = (\<lambda>_. [])\<rparr>"

definition sample_builder_clang :: builder_state where
  "sample_builder_clang = sample_builder [(''clang'', clang_toolchain sample_clang_host ''/usr/bin/clang'')]"

definition sample_addr :: socket_addr where
  "sample_addr = \<lparr>sa_ip = V4 [10, 0, 0, 7], sa_port = 3001\<rparr>"

definition sample_remote :: remote_host where
  "sample_remote = \<lparr>rh_now = 10, rh_coordinator = Some (Inr [\<lparr>bi_name = ''b'', bi_endpoint = ''e'', bi_version = [], bi_toolchains = [''clang'']\<rparr>]),
     rh_random = 5, rh_addr = \<lparr>at_parse = (\<lambda>_. Some sample_addr), at_show = (\<lambda>_. ''e'')\<rparr>,
     rh_head = (\<lambda>_ hash. Inr (fst (builder_upload sample_builder_host Head (Some hash) [] sample_builder_clang))),
     rh_upload = (\<lambda>_ hash d. Inr (fst (builder_upload sample_builder_host Post (Some hash) [Data d] sample_builder_clang))),
     rh_task = (\<lambda>_. ask_builder sample_builder_host sample_builder_clang),
     rh_sha = (\<lambda>d. bh_hex_encode sample_builder_host (bh_sha256 sample_builder_host d)),
     rh_create = (\<lambda>_. Inr ()), rh_write = (\<lambda>d. Inr (length d)), rh_mtime = 3\<rparr>"

definition sample_local :: toolchain where
  "sample_local = (sample_toolchain (\<lambda>stat fs. (Inl not_found, stat, fs)))\<lparr>tc_identifier := Some ''clang''\<rparr>"

lemma sample_remote_ok:
  "tc_identifier sample_local = Some ''clang''"
  "\<exists>s'. remote_endpoint sample_remote ''clang'' (remote_shared_new 0) = (Some sample_addr, s')"
  "serves sample_remote sample_builder_host sample_builder_clang sample_addr"
  "map_of (bs_toolchains sample_builder_clang) ''clang'' = Some (clang_toolchain sample_clang_host ''/usr/bin/clang'')"
  "whole_writes sample_remote"
  by (simp_all add: sample_local_def sample_remote_def remote_endpoint_def remote_builders_def builders_read_def builders_write_def
      receive_builders_def get_random_builder_def remote_shared_new_def serves_def sample_builder_clang_def sample_builder_def
      whole_writes_def Let_def)

lemma remote_clang_step_witness:
  "fst (remote_compile_step sample_remote sample_local sample_step sample_state (remote_shared_new 0)) =
     Inr \<lparr>oi_status = Some 0, oi_stdout = [], oi_stderr = []\<rparr> \<and>
   map_option f_data (ss_fs (fst (snd (remote_compile_step sample_remote sample_local sample_step sample_state (remote_shared_new 0)))) ''/o'') =
     Some (ascii ''obj'')"
proof -
  obtain s' where s': "remote_endpoint sample_remote ''clang'' (remote_shared_new 0) = (Some sample_addr, s')"
    using sample_remote_ok(2) by blast
  have step: "cs_input_precompiled sample_step = None" "cs_output_precompiled sample_step = None"
    "cs_output_object sample_step = Some ''/o''" "ms_inv (cs_preprocessed sample_step)"
    by (simp_all add: sample_step_def)
  have run: "fst (clh_run sample_clang_host \<lparr>pc_program = ''/usr/bin/clang'', pc_args = [''-c''] @ cs_args sample_step @ [''-'', ''-o'', ''-''],
       pc_env = env_new, pc_dir = None\<rparr> (ms_content (cs_preprocessed sample_step)) (ss_fs (bs_shared sample_builder_clang))) =
      Inr \<lparr>ch_status = Some 0, ch_stdout = [Data (ascii ''obj'')], ch_stderr = []\<rparr>"
    by (simp add: sample_clang_host_def)
  show ?thesis
    using remote_clang_step [OF sample_remote_ok(1) s' sample_remote_ok(3,4) step sample_remote_ok(5) run]
    by (simp add: clean_child_def) (simp add: ascii_def)
qed

definition sample_pch_step :: compile_step where
  "sample_pch_step = sample_step\<lparr>cs_input_precompiled := Some ''/pch''\<rparr>"

definition sample_pch_state :: shared_state where
  "sample_pch_state = sample_state\<lparr>ss_fs := [''/pch'' \<mapsto> \<lparr>f_data = ascii ''h'', f_mtime = 1\<rparr>]\<rparr>"

lemma remote_precompiled_local_witness:
  "\<exists>st s. remote_compile_step sample_remote sample_local sample_pch_step sample_pch_state (remote_shared_new 0) = (Inl not_found, st, s)"
proof -
  obtain s' where s': "remote_endpoint sample_remote ''clang'' (remote_shared_new 0) = (Some sample_addr, s')"
    using sample_remote_ok(2) by blast
  have step: "cs_output_precompiled sample_pch_step = None" "cs_input_precompiled sample_pch_step = Some ''/pch''"
    "ms_inv (cs_preprocessed sample_pch_step)"
    by (simp_all add: sample_pch_step_def sample_step_def)
  have sha: "rh_sha sample_remote = (\<lambda>d. bh_hex_encode sample_builder_host (bh_sha256 sample_builder_host d))"
    by (simp add: sample_remote_def)
  have "stamped (\<lambda>_ _ _. ascii ''h'') (ss_fs sample_pch_state)"
    "hashes_inv (rh_sha sample_remote) (\<lambda>_ _ _. ascii ''h'') (ss_cache sample_pch_state)"
    by (simp_all add: sample_pch_state_def stamped_def hashes_inv_def sample_state_def cache_new_def mem_cache_default_def mem_cached_def)
  then show ?thesis
    using remote_precompiled_local [OF sample_hex_ok sample_remote_ok(3,1) s' step sha]
    by (fastforce simp: sample_local_def sample_toolchain_def)
qed

end
