(* ===== verification/Vs_Identifier.thy ===== *)
theory Vs_Identifier
  imports Vs_Compiler_Correct Toolchain
begin

text \<open>
  \<open>src/vs/compiler.rs\<close>, the part for Windows: the identifier of a Visual Studio compiler, which tells
  whether the compiler of another machine is the same one, and the search for installed compilers.

  Parameters: the version resource of a file (\<open>GetFileVersionInfoW\<close> and \<open>VerQueryValueW\<close> of the system),
  UTF-16 text, the registry (crate \<open>winreg\<close>), the regular expression of the version names (crate \<open>regex\<close>)
  and the little-endian decoding of the crate \<open>byteorder\<close>. The header of the executable is read by
  the program itself.
\<close>

section \<open>Hexadecimal numbers\<close>

text \<open>What \<open>{:X}\<close>, \<open>{:x}\<close> and \<open>{:04X}\<close> print.\<close>

definition hex_digit :: "bool \<Rightarrow> nat \<Rightarrow> char" where
  "hex_digit upper d = (if d < 10 then char_of (48 + d) else char_of ((if upper then 55 else 87) + d))"

fun show_hex :: "bool \<Rightarrow> nat \<Rightarrow> string" where
  "show_hex upper n = (if n < 16 then [hex_digit upper n] else show_hex upper (n div 16) @ [hex_digit upper (n mod 16)])"

declare show_hex.simps [simp del]

definition show_hex4 :: "nat \<Rightarrow> string" where
  "show_hex4 n = (let s = show_hex True n in replicate (4 - length s) (CHR ''0'') @ s)"

lemma hex_digit_inj: "d < 16 \<Longrightarrow> e < 16 \<Longrightarrow> hex_digit u d = hex_digit u e \<longleftrightarrow> d = e"
  by (auto simp: hex_digit_def char_of_eq_iff take_bit_eq_mod split: if_splits)

lemma hex_digit_not_space: "d < 16 \<Longrightarrow> hex_digit u d \<noteq> CHR '' ''"
  by (auto simp: hex_digit_def char_of_eq_iff take_bit_eq_mod)

lemma show_hex_not_Nil [simp]: "show_hex u n \<noteq> []"
  by (simp add: show_hex.simps [of u n])

lemma Nil_not_show_hex [simp]: "[] \<noteq> show_hex u n"
  using show_hex_not_Nil [of u n] by metis

lemma show_hex_not_space: "CHR '' '' \<notin> set (show_hex u n)"
proof (induction u n rule: show_hex.induct)
  case (1 u n)
  then show ?case
    using hex_digit_not_space [of n u] hex_digit_not_space [of "n mod 16" u] by (auto simp: show_hex.simps [of u n])
qed

lemma show_hex_inj: "show_hex u m = show_hex u n \<Longrightarrow> m = n"
proof (induction u m arbitrary: n rule: show_hex.induct)
  case (1 u m)
  show ?case
  proof (cases "m < 16 \<or> n < 16")
    case True
    then show ?thesis using "1.prems"
      by (auto simp: show_hex.simps [of u m] show_hex.simps [of u n] hex_digit_inj split: if_splits)
  next
    case False
    then have "show_hex u (m div 16) = show_hex u (n div 16)" "m mod 16 = n mod 16"
      using "1.prems" by (auto simp: show_hex.simps [of u m] show_hex.simps [of u n] hex_digit_inj)
    then have "m div 16 = n div 16" "m mod 16 = n mod 16" using "1.IH" False by auto
    then show ?thesis by (metis div_mult_mod_eq)
  qed
qed

lemma length_show_hex: "16 ^ k \<le> n \<Longrightarrow> n < 16 ^ Suc k \<Longrightarrow> length (show_hex u n) = Suc k"
proof (induction k arbitrary: n)
  case (Suc k)
  then have "16 ^ k \<le> n div 16" "n div 16 < 16 ^ Suc k" by (auto simp: div_le_mono less_mult_imp_div_less)
  moreover have "\<not> n < 16" using Suc.prems(1) by (simp add: not_less) (metis add_leD1 le_trans mult_le_mono2 mult_numeral_1_right numeral_One one_le_numeral one_le_power)
  ultimately show ?case using Suc.IH by (simp add: show_hex.simps [of u n])
qed (simp add: show_hex.simps)

section \<open>The header of the executable\<close>

text \<open>\<open>read_exact\<close> of the standard library on a file, from a position on.\<close>

definition file_read_exact :: "nat \<Rightarrow> nat \<Rightarrow> bytes \<Rightarrow> bytes result" where
  "file_read_exact pos len data =
     (if pos + len \<le> length data then Inr (take len (drop pos data))
      else Inl (IoError UnexpectedEof ''failed to fill whole buffer''))"

definition mz_signature :: bytes where
  "mz_signature = [0x4D, 0x5A]"

definition pe_signature :: bytes where
  "pe_signature = [0x50, 0x45, 0, 0]"

definition bad_file_type :: "string \<Rightarrow> failure" where
  "bad_file_type which =
     IoError InvalidData (''Unexpected file type ('' @ which @ '' header signature not found)'')"

text \<open>A field of a header, the slice \<open>header[from..from + 4]\<close>.\<close>

definition header_field :: "nat \<Rightarrow> bytes \<Rightarrow> bytes" where
  "header_field from header = take 4 (drop from header)"

definition read_executable_id :: "(bytes \<Rightarrow> 32 word) \<Rightarrow> filesystem \<Rightarrow> path \<Rightarrow> string result" where
  "read_executable_id read_u32 fs p =
     rbind (case fs p of None \<Rightarrow> Inl not_found | Some f \<Rightarrow> Inr (f_data f)) (\<lambda>data.
     rbind (file_read_exact 0 0x40 data) (\<lambda>mz.
       if take 2 mz \<noteq> mz_signature then Inl (bad_file_type ''MZ'')
       else
         let pe_offset = unat (read_u32 (header_field 0x3C mz))
         in rbind (file_read_exact pe_offset 0x54 data) (\<lambda>pe.
              if take 4 pe \<noteq> pe_signature then Inl (bad_file_type ''PE'')
              else
                let time_date_stamp = read_u32 (header_field 0x08 pe);
                    size_of_image = read_u32 (header_field 0x50 pe)
                in Inr (show_hex True (unat time_date_stamp) @ show_hex False (unat size_of_image)))))"

text \<open>The same from the layout of the file: where the fields are, and what makes it a PE file.\<close>

definition pe_offset :: "(bytes \<Rightarrow> 32 word) \<Rightarrow> bytes \<Rightarrow> nat" where
  "pe_offset read_u32 data = unat (read_u32 (header_field 0x3C data))"

definition pe_stamp :: "(bytes \<Rightarrow> 32 word) \<Rightarrow> bytes \<Rightarrow> 32 word" where
  "pe_stamp read_u32 data = read_u32 (header_field (pe_offset read_u32 data + 0x08) data)"

definition pe_size :: "(bytes \<Rightarrow> 32 word) \<Rightarrow> bytes \<Rightarrow> 32 word" where
  "pe_size read_u32 data = read_u32 (header_field (pe_offset read_u32 data + 0x50) data)"

definition pe_file :: "(bytes \<Rightarrow> 32 word) \<Rightarrow> bytes \<Rightarrow> bool" where
  "pe_file read_u32 data \<longleftrightarrow>
     0x40 \<le> length data \<and> take 2 data = mz_signature \<and>
     pe_offset read_u32 data + 0x54 \<le> length data \<and>
     header_field (pe_offset read_u32 data) data = pe_signature"

lemma header_field_slice: "from + 4 \<le> n \<Longrightarrow> header_field from (take n (drop pos data)) = header_field (pos + from) data"
  by (simp add: header_field_def drop_take add.commute)

lemma header_field_take: "from + 4 \<le> n \<Longrightarrow> header_field from (take n data) = header_field from data"
  using header_field_slice [of "from" n 0 data] by simp

lemma read_executable_id_data:
  assumes "fs p = Some f"
  shows "read_executable_id rd fs p = Inr s \<longleftrightarrow>
    pe_file rd (f_data f) \<and>
    s = show_hex True (unat (pe_stamp rd (f_data f))) @ show_hex False (unat (pe_size rd (f_data f)))"
proof (cases "0x40 \<le> length (f_data f) \<and> take 2 (f_data f) = mz_signature")
  case True
  let ?d = "f_data f"
  have mz: "file_read_exact 0 0x40 ?d = Inr (take 0x40 ?d)" "take 2 (take 0x40 ?d) = mz_signature"
    using True by (simp_all add: file_read_exact_def)
  have off: "unat (rd (header_field 0x3C (take 0x40 ?d))) = pe_offset rd ?d"
    by (simp add: pe_offset_def header_field_take)
  show ?thesis
  proof (cases "pe_offset rd ?d + 0x54 \<le> length ?d")
    case ok: True
    have sig: "header_field (pe_offset rd ?d) ?d = take 4 (drop (pe_offset rd ?d) ?d)"
      by (simp add: header_field_def)
    show ?thesis
      using True ok by (auto simp: read_executable_id_def assms mz off Let_def file_read_exact_def sig header_field_slice
          pe_file_def pe_stamp_def pe_size_def)
  next
    case False
    then show ?thesis using True
      by (simp add: read_executable_id_def assms mz off Let_def file_read_exact_def pe_file_def)
  qed
next
  case False
  then show ?thesis
    by (auto simp: read_executable_id_def assms file_read_exact_def pe_file_def)
qed

lemma read_executable_id_missing: "fs p = None \<Longrightarrow> read_executable_id rd fs p = Inl not_found"
  by (simp add: read_executable_id_def)

text \<open>The number of digits of the stamp is not fixed: the text of the two numbers can be read in several ways.\<close>

lemma executable_id_ambiguous:
  "show_hex True 1 @ show_hex False 0x23 = show_hex True 0x12 @ show_hex False 3"
  by (simp add: show_hex.simps hex_digit_def)

lemma executable_id_stamped:
  fixes t t' z z' :: "32 word"
  assumes "show_hex True (unat t) @ show_hex False (unat z) = show_hex True (unat t') @ show_hex False (unat z')"
    and "0x10000000 \<le> unat t" "0x10000000 \<le> unat t'"
  shows "t = t' \<and> z = z'"
proof -
  have "length (show_hex True (unat w)) = 8" if "0x10000000 \<le> unat w" for w :: "32 word"
    using that length_show_hex [of 7 "unat w"] unsigned_less [of w] by simp
  then have "show_hex True (unat t) = show_hex True (unat t')" "show_hex False (unat z) = show_hex False (unat z')"
    using assms by (metis append_eq_append_conv)+
  then show ?thesis by (metis show_hex_inj word_unat_eq_iff)
qed

section \<open>The identifier\<close>

text \<open>The system: UTF-16 text of a name, the size and the content of the version resource of a file, the pair of language
  and code page at the address \<open>VerQueryValueW\<close> returns for a key, and the text (with its length in words, the closing zero
  included) it returns for another. A call that fails is \<open>None\<close>, or the size 0.\<close>

record 'v version_api =
  va_encode_wide :: "string \<Rightarrow> 16 word list"
  va_info_size :: "16 word list \<Rightarrow> nat"
  va_info :: "16 word list \<Rightarrow> nat \<Rightarrow> 'v option"
  va_query_translation :: "'v \<Rightarrow> 16 word list \<Rightarrow> (16 word \<times> 16 word) option"
  va_query_text :: "'v \<Rightarrow> 16 word list \<Rightarrow> (16 word list \<times> nat) option"
  va_from_utf16 :: "16 word list \<Rightarrow> string"
  va_read_u32 :: "bytes \<Rightarrow> 32 word"

definition utf16 :: "'v version_api \<Rightarrow> string \<Rightarrow> 16 word list" where
  "utf16 va value = va_encode_wide va value @ [0]"

text \<open>A key of the resource: its parts, each after a backslash.\<close>

definition version_key :: "string list \<Rightarrow> string" where
  "version_key parts = concat (map (\<lambda>part. CHR 0x5C # part) parts)"

definition translation_key :: "'v version_api \<Rightarrow> 'v \<Rightarrow> string option" where
  "translation_key va data =
     (case va_query_translation va data (utf16 va (version_key [''VarFileInfo'', ''Translation''])) of
        None \<Rightarrow> None
      | Some (language, codepage) \<Rightarrow>
          Some (version_key [''StringFileInfo'', show_hex4 (unat language) @ show_hex4 (unat codepage)]))"

definition product_version :: "'v version_api \<Rightarrow> path \<Rightarrow> string option" where
  "product_version va p =
     (let path_raw = utf16 va p;
          size = va_info_size va path_raw
      in if size = 0 then None
         else case va_info va path_raw size of
                None \<Rightarrow> None
              | Some data \<Rightarrow>
                  (case translation_key va data of
                     None \<Rightarrow> None
                   | Some key \<Rightarrow>
                       (case va_query_text va data (utf16 va (key @ version_key [''ProductVersion''])) of
                          None \<Rightarrow> None
                        | Some (value_data, value_size) \<Rightarrow>
                            if value_size = 0 then None
                            else Some (va_from_utf16 va (take (value_size - 1) value_data)))))"

definition vs_identifier :: "'v version_api \<Rightarrow> filesystem \<Rightarrow> path \<Rightarrow> string option" where
  "vs_identifier va fs p =
     (case product_version va p of
        None \<Rightarrow> None
      | Some version \<Rightarrow>
          (case read_executable_id (va_read_u32 va) fs p of
             Inl e \<Rightarrow> None
           | Inr executable_id \<Rightarrow> Some (''cl '' @ version @ '' '' @ executable_id)))"

lemma append_last_space:
  assumes "a @ CHR '' '' # b = a' @ CHR '' '' # b'" "CHR '' '' \<notin> set b" "CHR '' '' \<notin> set b'"
  shows "a = a' \<and> b = b'"
  using assms by (auto simp: append_eq_append_conv2 append_eq_Cons_conv Cons_eq_append_conv)

lemma vs_identifier_Some:
  "vs_identifier va fs p = Some i \<longleftrightarrow>
     (\<exists>version f. product_version va p = Some version \<and> fs p = Some f \<and> pe_file (va_read_u32 va) (f_data f) \<and>
        i = ''cl '' @ version @ '' '' @ show_hex True (unat (pe_stamp (va_read_u32 va) (f_data f))) @
              show_hex False (unat (pe_size (va_read_u32 va) (f_data f))))"
proof (cases "fs p")
  case None
  then show ?thesis by (simp add: vs_identifier_def read_executable_id_missing split: option.split)
next
  case (Some f)
  note data = read_executable_id_data [of fs p, OF Some, of "va_read_u32 va"]
  show ?thesis
  proof (cases "read_executable_id (va_read_u32 va) fs p")
    case (Inl e)
    then have "\<not> pe_file (va_read_u32 va) (f_data f)" using data by force
    then show ?thesis using Inl Some by (simp add: vs_identifier_def split: option.split)
  next
    case (Inr executable_id)
    then have "pe_file (va_read_u32 va) (f_data f)"
      "executable_id = show_hex True (unat (pe_stamp (va_read_u32 va) (f_data f))) @ show_hex False (unat (pe_size (va_read_u32 va) (f_data f)))"
      using data by blast+
    then show ?thesis using Inr Some by (auto simp: vs_identifier_def split: option.split)
  qed
qed

section \<open>Installed compilers\<close>

text \<open>A key of the registry: the values it enumerates (an entry that cannot be read is an error) and the text of a value.\<close>

record registry_key =
  rk_values :: "string result list"
  rk_get :: "string \<Rightarrow> string option"

record windows_host =
  wh_open_key :: "string \<Rightarrow> registry_key option"
  wh_version_re :: "string \<Rightarrow> bool"

definition vc_reg :: "string list" where
  "vc_reg = map (\<lambda>parts. tl (version_key parts))
     [[''SOFTWARE'', ''Wow6432Node'', ''Microsoft'', ''VisualStudio'', ''SxS'', ''VC7''],
      [''SOFTWARE'', ''Microsoft'', ''VisualStudio'', ''SxS'', ''VC7'']]"

definition cl_bin :: "path list" where
  "cl_bin = [''bin/cl.exe'', ''bin/x86_arm/cl.exe'', ''bin/x86_amd64/cl.exe'', ''bin/amd64_x86/cl.exe'',
     ''bin/amd64_arm/cl.exe'', ''bin/amd64/cl.exe'']"

text \<open>\<open>Path::join\<close> on Windows, for a relative path: a separator unless there is one, or the path is a drive.\<close>

definition is_drive :: "path \<Rightarrow> bool" where
  "is_drive p = (case p of [letter, colon] \<Rightarrow> colon = CHR '':'' | _ \<Rightarrow> False)"

definition win_join :: "path \<Rightarrow> path \<Rightarrow> path" where
  "win_join p q =
     (if p = [] \<or> last p = CHR 0x5C \<or> last p = CHR ''/'' \<or> is_drive p then p @ q else p @ CHR 0x5C # q)"

definition ok_values :: "'a result list \<Rightarrow> 'a list" where
  "ok_values = List.map_filter (\<lambda>r. case r of Inl _ \<Rightarrow> None | Inr x \<Rightarrow> Some x)"

definition key_installations :: "windows_host \<Rightarrow> registry_key \<Rightarrow> path list" where
  "key_installations w key = List.map_filter (rk_get key) (filter (wh_version_re w) (ok_values (rk_values key)))"

definition installations :: "windows_host \<Rightarrow> path list" where
  "installations w = concat (map (key_installations w) (List.map_filter (wh_open_key w) vc_reg))"

definition win_toolchain ::
    "vs_host \<Rightarrow> string \<Rightarrow> (command_info \<Rightarrow> string list \<Rightarrow> string + compilation_task list) \<Rightarrow> 'v version_api \<Rightarrow>
     filesystem \<Rightarrow> path \<Rightarrow> toolchain" where
  "win_toolchain h object_uuid tasks va fs cl =
     (vs_toolchain h object_uuid tasks cl)\<lparr>tc_identifier := vs_identifier va fs cl\<rparr>"

definition vs_discovery ::
    "(path \<Rightarrow> toolchain) \<Rightarrow> windows_host \<Rightarrow> filesystem \<Rightarrow> toolchain list" where
  "vs_discovery new w fs =
     filter (\<lambda>toolchain. tc_identifier toolchain \<noteq> None)
       (map new (filter (\<lambda>cl. fs cl \<noteq> None) (concat (map (\<lambda>path. map (win_join path) cl_bin) (installations w)))))"

section \<open>Correctness\<close>

text \<open>Equal identifiers mean the same compiler: same product version, same time stamp, same size of the image.\<close>

lemma identifier_determines:
  assumes "vs_identifier va fs p = Some i" "vs_identifier va' fs' p' = Some i"
    and "fs p = Some f" "fs' p' = Some f'"
    and "0x10000000 \<le> unat (pe_stamp (va_read_u32 va) (f_data f))"
    and "0x10000000 \<le> unat (pe_stamp (va_read_u32 va') (f_data f'))"
  shows "product_version va p = product_version va' p' \<and>
    pe_stamp (va_read_u32 va) (f_data f) = pe_stamp (va_read_u32 va') (f_data f') \<and>
    pe_size (va_read_u32 va) (f_data f) = pe_size (va_read_u32 va') (f_data f')"
proof -
  let ?e = "show_hex True (unat (pe_stamp (va_read_u32 va) (f_data f))) @ show_hex False (unat (pe_size (va_read_u32 va) (f_data f)))"
  let ?e' = "show_hex True (unat (pe_stamp (va_read_u32 va') (f_data f'))) @ show_hex False (unat (pe_size (va_read_u32 va') (f_data f')))"
  obtain v v' where v: "product_version va p = Some v" "product_version va' p' = Some v'"
    and i: "i = ''cl '' @ v @ '' '' @ ?e" "i = ''cl '' @ v' @ '' '' @ ?e'"
    using assms(1-4) by (auto simp: vs_identifier_Some)
  have "v = v' \<and> ?e = ?e'"
    using i by (intro append_last_space) (auto simp: show_hex_not_space)
  then show ?thesis using v executable_id_stamped [OF _ assms(5,6)] by auto
qed

lemma discovered:
  "tc \<in> set (vs_discovery new w fs) \<longleftrightarrow>
     (\<exists>path \<in> set (installations w). \<exists>bin \<in> set cl_bin.
        fs (win_join path bin) \<noteq> None \<and> tc = new (win_join path bin) \<and> tc_identifier tc \<noteq> None)"
  by (auto simp: vs_discovery_def)

end
