(* ===== verification/Remote_Vs.thy ===== *)
theory Remote_Vs
  imports Cluster_Correct Vs_Identifier
begin

text \<open>
  A Visual Studio step on a builder: \<open>compile_memory\<close> of \<open>src/vs/compiler.rs\<close> behind the handler of
  \<open>src/bin/octo_builder.rs\<close>. The builder gives the compiler two temporary files, one with the source and one for the object
  file, and sends the content of the second back.
\<close>

text \<open>The run of \<open>cl\<close> on the builder: its command line, its output without the name of the temporary file, and the object
  file it leaves.\<close>

definition vs_compiled :: "vs_host \<Rightarrow> string \<Rightarrow> path \<Rightarrow> string list \<Rightarrow> bytes \<Rightarrow> filesystem \<Rightarrow> (output_info \<times> bytes) option" where
  "vs_compiled h object_uuid cl args src fs =
     (let object = path_join (vsh_temp h) (object_uuid @ ''.o'');
          input = path_join (vsh_temp h) (vsh_uuid h @ ''.i'');
          (res, fs2) = vsh_run h
            \<lparr>pc_program = cl, pc_args = [''/c''] @ args @ [input, ''/Fo'' @ object], pc_env = vs_passed_env (vsh_env h),
             pc_dir = Some (vsh_temp h)\<rparr> []
            (fs(input \<mapsto> \<lparr>f_data = src, f_mtime = vsh_now h\<rparr>))
      in case res of
           Inl _ \<Rightarrow> None
         | Inr ch \<Rightarrow>
             if clean_child ch then
               map_option (\<lambda>f. (\<lparr>oi_status = ch_status ch,
                   oi_stdout = prepare_output (vsh_regex h) (case file_name input of Some n \<Rightarrow> ascii n | None \<Rightarrow> [])
                     (reader_bytes (ch_stdout ch)) (ch_status ch = Some 0),
                   oi_stderr = reader_bytes (ch_stderr ch)\<rparr>, f_data f)) ((fs2(input := None)) object)
             else None)"

lemma vs_memory_compiles:
  assumes "vs_compiled h u cl args (ms_content ms) fs = Some (out, obj)" "ms_inv ms"
  shows "fst (vs_compile_memory h u cl (memory_step args ms) stat fs) = Inr (out, obj)"
proof -
  obtain n where copy: "ms_copy vec_write ms [] = Inr (n, ms_content ms)" using ms_copy_vec [OF assms(2)] by auto
  let ?object = "path_join (vsh_temp h) (u @ ''.o'')" and ?input = "path_join (vsh_temp h) (vsh_uuid h @ ''.i'')"
  let ?run = "vsh_run h \<lparr>pc_program = cl, pc_args = [''/c''] @ args @ [?input, ''/Fo'' @ ?object], pc_env = vs_passed_env (vsh_env h),
      pc_dir = Some (vsh_temp h)\<rparr> [] (fs(?input \<mapsto> \<lparr>f_data = ms_content ms, f_mtime = vsh_now h\<rparr>))"
  obtain ch fs2 f where run: "?run = (Inr ch, fs2)" "clean_child ch" "(fs2(?input := None)) ?object = Some f"
    and out: "out = \<lparr>oi_status = ch_status ch, oi_stdout = prepare_output (vsh_regex h)
        (case file_name ?input of Some n \<Rightarrow> ascii n | None \<Rightarrow> []) (reader_bytes (ch_stdout ch)) (ch_status ch = Some 0),
      oi_stderr = reader_bytes (ch_stderr ch)\<rparr>" "obj = f_data f"
    using assms(1) by (auto simp: vs_compiled_def Let_def split: prod.splits sum.splits if_splits)
  have "vs_compile_step h cl ((memory_step args ms)\<lparr>cs_output_object := Some ?object\<rparr>) stat fs = (Inr out, stat, fs2(?input := None))"
    using run(1,2) copy out(1) child_output_clean [OF run(2)]
    by (simp add: vs_compile_step_def memory_step_def temp_new_in_def vs_run_step_def vs_pch_args_def join_flag_def run_output_def
        output_info_new_def Let_def)
  then show ?thesis using run(3) out(2) by (simp add: vs_compile_memory_def temp_new_in_def Let_def)
qed

interpretation vs_memory: memory_toolchain "vs_toolchain h u tasks cl" "vs_compiled h u cl" for h u tasks cl
  by unfold_locales (simp add: vs_toolchain_def vs_memory_compiles)

interpretation win_memory: memory_toolchain "win_toolchain h u tasks va fs0 cl" "vs_compiled h u cl" for h u tasks va fs0 cl
  by unfold_locales (simp add: win_toolchain_def vs_toolchain_def vs_memory_compiles)

text \<open>C15: A Visual Studio step without precompiled headers that a builder compiles: the object file of the client is the one the
  compiler of the builder leaves when it is run with the arguments of the step on a temporary file with the preprocessed source, the
  output is its output without the name of that file, and the local compiler is not run.\<close>

theorem remote_vs_step:
  assumes "tc_identifier local = Some name" "remote_endpoint r name s = (Some addr, s')" "serves r h b addr"
    "map_of (bs_toolchains b) name = Some (win_toolchain vh u tasks va fs0 cl)"
    "cs_input_precompiled step = None" "cs_output_precompiled step = None" "cs_output_object step = Some p"
    "ms_inv (cs_preprocessed step)" "whole_writes r"
    "vs_compiled vh u cl (cs_args step) (ms_content (cs_preprocessed step)) (ss_fs (bs_shared b)) = Some (out, obj)" "success out"
  shows "remote_compile_step r local step st s =
    (Inr out, st\<lparr>ss_fs := (ss_fs st)(p \<mapsto> \<lparr>f_data = obj, f_mtime = rh_mtime r\<rparr>), ss_stat := inc_remote (ss_stat st)\<rparr>, s')"
  by (rule win_memory.remote_object [OF assms])

section \<open>A compilation by a Windows builder\<close>

definition sample_cl_host :: vs_host where
  "sample_cl_host = sample_vs_host
     \<lparr>vsh_run := (\<lambda>command _ fs. (Inr \<lparr>ch_status = Some 0, ch_stdout = [Data (ascii ''v.i''), Data [0x0D, 0x0A]], ch_stderr = []\<rparr>,
        fs(drop 3 (last (pc_args command)) \<mapsto> \<lparr>f_data = ascii ''obj'', f_mtime = 2\<rparr>))),
      vsh_uuid := ''v''\<rparr>"

definition sample_cl_toolchain :: toolchain where
  "sample_cl_toolchain = win_toolchain sample_cl_host ''u'' (\<lambda>_ _. Inr [])
     \<lparr>va_encode_wide = map of_char, va_info_size = (\<lambda>_. 1), va_info = (\<lambda>_ _. Some ()),
      va_query_translation = (\<lambda>_ _. Some (0x409, 0x4B0)), va_query_text = (\<lambda>_ _. Some ([], 1)), va_from_utf16 = (\<lambda>_. ''19''),
      va_read_u32 = (\<lambda>_. 0)\<rparr> Map.empty ''/cl.exe''"

definition sample_builder_cl :: builder_state where
  "sample_builder_cl = sample_builder [(''clang'', sample_cl_toolchain)]"

definition sample_remote_cl :: remote_host where
  "sample_remote_cl = sample_remote
     \<lparr>rh_head := (\<lambda>_ hash. Inr (fst (builder_upload sample_builder_host Head (Some hash) [] sample_builder_cl))),
      rh_upload := (\<lambda>_ hash d. Inr (fst (builder_upload sample_builder_host Post (Some hash) [Data d] sample_builder_cl))),
      rh_task := (\<lambda>_. ask_builder sample_builder_host sample_builder_cl)\<rparr>"

lemma sample_remote_cl_ok:
  "tc_identifier sample_local = Some ''clang''"
  "\<exists>s'. remote_endpoint sample_remote_cl ''clang'' (remote_shared_new 0) = (Some sample_addr, s')"
  "serves sample_remote_cl sample_builder_host sample_builder_cl sample_addr"
  "whole_writes sample_remote_cl"
  by (simp_all add: sample_local_def sample_remote_cl_def sample_remote_def remote_endpoint_def remote_builders_def builders_read_def
      builders_write_def receive_builders_def get_random_builder_def remote_shared_new_def serves_def whole_writes_def Let_def)

lemma sample_vs_compiled:
  "vs_compiled sample_cl_host ''u'' ''/cl.exe'' args src Map.empty =
     Some (\<lparr>oi_status = Some 0, oi_stdout = [], oi_stderr = []\<rparr>, ascii ''obj'')"
proof -
  have "path_join ''/t'' ''u.o'' = ''/t/u.o''" "path_join ''/t'' ''v.i'' = ''/t/v.i''" "file_name ''/t/v.i'' = Some ''v.i''"
    by code_simp+
  then show ?thesis
    by (simp add: vs_compiled_def sample_cl_host_def sample_vs_host_def clean_child_def prepare_output_def is_eol_def ascii_def Let_def)
qed

lemma remote_vs_step_witness:
  "fst (remote_compile_step sample_remote_cl sample_local sample_step sample_state (remote_shared_new 0)) =
     Inr \<lparr>oi_status = Some 0, oi_stdout = [], oi_stderr = []\<rparr> \<and>
   map_option f_data (ss_fs (fst (snd (remote_compile_step sample_remote_cl sample_local sample_step sample_state (remote_shared_new 0)))) ''/o'') =
     Some (ascii ''obj'')"
proof -
  obtain s' where s': "remote_endpoint sample_remote_cl ''clang'' (remote_shared_new 0) = (Some sample_addr, s')"
    using sample_remote_cl_ok(2) by blast
  have step: "cs_input_precompiled sample_step = None" "cs_output_precompiled sample_step = None"
    "cs_output_object sample_step = Some ''/o''" "ms_inv (cs_preprocessed sample_step)"
    by (simp_all add: sample_step_def)
  have tc: "map_of (bs_toolchains sample_builder_cl) ''clang'' = Some sample_cl_toolchain"
    and fs: "ss_fs (bs_shared sample_builder_cl) = Map.empty"
    by (simp_all add: sample_builder_cl_def sample_builder_def sample_state_def)
  show ?thesis
    using remote_vs_step [OF sample_remote_cl_ok(1) s' sample_remote_cl_ok(3) tc [unfolded sample_cl_toolchain_def] step
        sample_remote_cl_ok(4) sample_vs_compiled [of "cs_args sample_step" "ms_content (cs_preprocessed sample_step)", folded fs]]
    by (simp add: success_def)
qed

end
