(* ===== verification/Config.thy ===== *)
theory Config
  imports File_Cache Coordinator
begin

text \<open>
  \<open>src/config.rs\<close>: the configuration, from a user file, a system file and defaults.

  YAML (crate \<open>yaml_rust\<close>) is a parameter: a document answers every key with a value, of which the code
  tells strings, integers and null apart. So are URLs (crate \<open>reqwest\<close>), the home directory and the number of
  processors.
\<close>

datatype yaml = YString string | YInteger "64 word" | YNull | YOther

type_synonym document = "string \<Rightarrow> yaml"

fun as_i64 :: "yaml \<Rightarrow> 64 word option" where
  "as_i64 (YInteger i) = Some i"
| "as_i64 _ = None"

fun as_str :: "yaml \<Rightarrow> string option" where
  "as_str (YString s) = Some s"
| "as_str _ = None"

record 'url config =
  cf_coordinator :: "'url option"
  cf_helper_bind :: socket_addr
  cf_coordinator_bind :: socket_addr
  cf_process_limit :: "64 word"
  cf_cache_dir :: path
  cf_cache_limit_mb :: "32 word"

record 'url config_host =
  cg_os :: host
  cg_cache_var :: "string option"
  cg_program_data :: "path option"
  cg_home :: "path option"
  cg_cpus :: "64 word"
  cg_addr :: addr_text
  cg_url_parse :: "string \<Rightarrow> 'url option"
  cg_url_show :: "'url \<Rightarrow> string"
  cg_documents :: "path \<Rightarrow> document list result"

definition CONFIG_FILE_NAME :: string where
  "CONFIG_FILE_NAME = ''octobuild.conf''"

definition default_cache_dir :: "host \<Rightarrow> string" where
  "default_cache_dir os = (case os of Windows \<Rightarrow> ''~/.octobuild'' | Unix \<Rightarrow> ''~/.cache/octobuild'')"

definition get_config :: "document option \<Rightarrow> document option \<Rightarrow> string \<Rightarrow> (yaml \<Rightarrow> 'a option) \<Rightarrow> 'a option" where
  "get_config local global param op =
     (case Option.bind local (\<lambda>i. op (i param)) of
        Some v \<Rightarrow> Some v
      | None \<Rightarrow> Option.bind global (\<lambda>i. op (i param)))"

definition or_default :: "'a option \<Rightarrow> 'a \<Rightarrow> 'a" where
  "or_default x d = (case x of Some v \<Rightarrow> v | None \<Rightarrow> d)"

definition replace_home :: "path option \<Rightarrow> string \<Rightarrow> path result" where
  "replace_home home p =
     (if take 2 p = ''~/'' then
        (case home of
           Some v \<Rightarrow> Inr (path_join v (drop 2 p))
         | None \<Rightarrow> Inl (IoError NotFound ''Can't determinate user HOME path''))
      else Inr p)"

definition any_addr :: "16 word \<Rightarrow> socket_addr" where
  "any_addr port = \<lparr>sa_ip = V4 [0, 0, 0, 0], sa_port = port\<rparr>"

definition cache_path_of :: "'url config_host \<Rightarrow> document option \<Rightarrow> document option \<Rightarrow> bool \<Rightarrow> string" where
  "cache_path_of h local global defaults =
     or_default
       (case (if defaults then None else case cg_cache_var h of Some v \<Rightarrow> if v = [] then None else Some v | None \<Rightarrow> None) of
          Some v \<Rightarrow> Some v
        | None \<Rightarrow> get_config local global ''cache_path'' as_str)
       (default_cache_dir (cg_os h))"

definition config_load :: "'url config_host \<Rightarrow> document option \<Rightarrow> document option \<Rightarrow> bool \<Rightarrow> 'url config result" where
  "config_load h local global defaults =
     (let cache_limit_mb = or_default (get_config local global ''cache_limit_mb'' (\<lambda>v. map_option ucast (as_i64 v))) (16 * 1024);
          cache_path = cache_path_of h local global defaults;
          process_limit = or_default (get_config local global ''process_limit'' as_i64) (cg_cpus h);
          coordinator = get_config local global ''coordinator''
            (\<lambda>v. if v = YNull then None else Option.bind (as_str v) (cg_url_parse h));
          helper_bind = or_default (get_config local global ''helper_bind'' (\<lambda>v. Option.bind (as_str v) (at_parse (cg_addr h)))) (any_addr 0);
          coordinator_bind = or_default (get_config local global ''coordinator_bind'' (\<lambda>v. Option.bind (as_str v) (at_parse (cg_addr h)))) (any_addr 3000)
      in rbind (replace_home (cg_home h) cache_path) (\<lambda>cache_dir.
           Inr \<lparr>cf_coordinator = coordinator, cf_helper_bind = helper_bind, cf_coordinator_bind = coordinator_bind,
             cf_process_limit = process_limit, cf_cache_dir = cache_dir, cf_cache_limit_mb = cache_limit_mb\<rparr>))"

text \<open>The last document of a file. A file without any (an empty one) makes \<open>pop().unwrap()\<close> panic.\<close>

definition load_config :: "'url config_host \<Rightarrow> path \<Rightarrow> document result" where
  "load_config h p =
     rbind (cg_documents h p) (\<lambda>docs.
       if docs = [] then Inl (Panic ''called Option::unwrap() on a None value'') else Inr (last docs))"

definition get_local_config_path :: "'url config_host \<Rightarrow> path option" where
  "get_local_config_path h = map_option (\<lambda>v. path_join v (''.'' @ CONFIG_FILE_NAME)) (cg_home h)"

definition get_global_config_path :: "'url config_host \<Rightarrow> path option" where
  "get_global_config_path h =
     (case cg_os h of
        Windows \<Rightarrow> map_option (\<lambda>v. path_join (path_join v ''octobuild'') CONFIG_FILE_NAME) (cg_program_data h)
      | Unix \<Rightarrow> Some (path_join ''/etc/octobuild'' CONFIG_FILE_NAME))"

text \<open>\<open>and_then(|v| load_config(v).ok())\<close>: an error is no document, a panic stays one.\<close>

definition load_optional :: "'url config_host \<Rightarrow> path option \<Rightarrow> document option result" where
  "load_optional h p =
     (case p of
        None \<Rightarrow> Inr None
      | Some p \<Rightarrow>
          (case load_config h p of
             Inr d \<Rightarrow> Inr (Some d)
           | Inl (Panic m) \<Rightarrow> Inl (Panic m)
           | Inl (IoError _ _) \<Rightarrow> Inr None))"

definition config_new :: "'url config_host \<Rightarrow> 'url config result" where
  "config_new h =
     rbind (load_optional h (get_local_config_path h)) (\<lambda>local.
     rbind (load_optional h (get_global_config_path h)) (\<lambda>global.
       config_load h local global False))"

definition config_defaults :: "'url config_host \<Rightarrow> 'url config result" where
  "config_defaults h = config_load h None None True"

text \<open>The document \<open>show\<close> prints.\<close>

definition config_show :: "'url config_host \<Rightarrow> 'url config \<Rightarrow> (string \<times> yaml) list" where
  "config_show h c =
     [(''process_limit'', YInteger (cf_process_limit c)),
      (''cache_limit_mb'', YInteger (ucast (cf_cache_limit_mb c))),
      (''cache_path'', YString (cf_cache_dir c)),
      (''coordinator'', case cf_coordinator c of None \<Rightarrow> YNull | Some v \<Rightarrow> YString (cg_url_show h v)),
      (''helper_bind'', YString (at_show (cg_addr h) (cf_helper_bind c))),
      (''coordinator_bind'', YString (at_show (cg_addr h) (cf_coordinator_bind c)))]"

text \<open>The lines \<open>help\<close> prints, and whether it comes to its end: \<open>emit\<close> is the text of a YAML document, \<open>display\<close> that of an
  error. An error of a configuration is printed, a panic ends the program.\<close>

definition show_or_error ::
    "'url config_host \<Rightarrow> ((string \<times> yaml) list \<Rightarrow> string) \<Rightarrow> (failure \<Rightarrow> string) \<Rightarrow> 'url config result \<Rightarrow> string list \<times> unit result" where
  "show_or_error h emit display r =
     (case r of
        Inr c \<Rightarrow> ([emit (config_show h c)], Inr ())
      | Inl (Panic m) \<Rightarrow> ([], Inl (Panic m))
      | Inl (IoError k m) \<Rightarrow> ([''  ERROR: '' @ display (IoError k m)], Inr ()))"

definition config_help ::
    "'url config_host \<Rightarrow> ((string \<times> yaml) list \<Rightarrow> string) \<Rightarrow> (failure \<Rightarrow> string) \<Rightarrow> string list \<times> unit result" where
  "config_help h emit display =
     (let paths = [''Octobuild configuration:'',
            ''  system config path: '' @ or_default (get_global_config_path h) ''none'',
            ''  user config path:   '' @ or_default (get_local_config_path h) ''none'', [], ''Actual configuration:''];
          (actual, res) = show_or_error h emit display (config_new h)
      in case res of
           Inl e \<Rightarrow> (paths @ actual, Inl e)
         | Inr _ \<Rightarrow>
             let (default, res) = show_or_error h emit display (config_defaults h)
             in (paths @ actual @ [[], ''Default configuration:''] @ default @ (case res of Inl _ \<Rightarrow> [] | Inr _ \<Rightarrow> [[]]), res))"

definition document_of :: "(string \<times> yaml) list \<Rightarrow> document" where
  "document_of kvs k = (case map_of kvs k of Some v \<Rightarrow> v | None \<Rightarrow> YOther)"

section \<open>Properties\<close>

text \<open>The addresses of the configuration are read as they are shown.\<close>

definition texts_ok :: "'url config_host \<Rightarrow> 'url config \<Rightarrow> bool" where
  "texts_ok h c \<longleftrightarrow>
     list_all (\<lambda>a. at_parse (cg_addr h) (at_show (cg_addr h) a) = Some a) [cf_helper_bind c, cf_coordinator_bind c] \<and>
     (case cf_coordinator c of None \<Rightarrow> True | Some u \<Rightarrow> cg_url_parse h (cg_url_show h u) = Some u)"

lemma ucast_up_down: "ucast (ucast (w :: 32 word) :: 64 word) = w"
  by (rule bit_word_eqI) (simp add: bit_simps)

text \<open>What the configuration prints, written to the file of the user, is read as the same configuration, as long as
  the cache directory is not given in terms of the home directory and the environment does not replace it.\<close>

theorem config_shown_is_read:
  assumes "texts_ok h c" "cg_cache_var h = None" "take 2 (cf_cache_dir c) \<noteq> ''~/''"
  shows "config_load h (Some (document_of (config_show h c))) None False = Inr c"
  using assms
  by (cases c) (auto simp: config_load_def get_config_def document_of_def config_show_def or_default_def cache_path_of_def
      replace_home_def texts_ok_def ucast_up_down split: option.split)

definition sample_config_host :: "string config_host" where
  "sample_config_host = \<lparr>cg_os = Unix, cg_cache_var = None, cg_program_data = None, cg_home = Some ''/home/u'', cg_cpus = 8,
     cg_addr = \<lparr>at_parse = (\<lambda>s. Some (any_addr (if s = ''0.0.0.0:0'' then 0 else 3000))),
       at_show = (\<lambda>a. if sa_port a = 0 then ''0.0.0.0:0'' else ''0.0.0.0:3000'')\<rparr>,
     cg_url_parse = Some, cg_url_show = (\<lambda>u. u), cg_documents = (\<lambda>_. Inl not_found)\<rparr>"

lemma get_config_map: "get_config local global k (\<lambda>v. map_option f (g v)) = map_option f (get_config local global k g)"
  by (cases local; cases global) (auto simp: get_config_def split: option.split)

text \<open>Whatever numbers the files hold, negative or too large ones included, the cache limit in bytes is the configured
  number of megabytes modulo 2 to the 32, and its computation never overflows.\<close>

theorem config_cache_limit:
  assumes "config_load h local global defaults = Inr c"
  shows "unat (fc_limit (file_cache_new (cf_cache_dir c) (cf_cache_limit_mb c))) = unat (cf_cache_limit_mb c) * 2 ^ 20 \<and>
    unat (cf_cache_limit_mb c) =
      (case get_config local global ''cache_limit_mb'' as_i64 of Some v \<Rightarrow> unat v mod 2 ^ 32 | None \<Rightarrow> 2 ^ 14)"
proof -
  have lt: "unat (cf_cache_limit_mb c) < 2 ^ 32" using unsigned_less [of "cf_cache_limit_mb c", where ?'a = nat] by simp
  have "unat (ucast (cf_cache_limit_mb c) * (2 ^ 20) :: 64 word) = unat (cf_cache_limit_mb c) * 2 ^ 20"
    using lt by (simp add: unat_word_ariths unsigned_ucast_eq take_bit_eq_mod)
  then have bytes: "unat (fc_limit (file_cache_new (cf_cache_dir c) (cf_cache_limit_mb c))) = unat (cf_cache_limit_mb c) * 2 ^ 20"
    by (simp add: file_cache_new_def mult.commute)
  let ?v = "get_config local global ''cache_limit_mb'' as_i64"
  have "cf_cache_limit_mb c = or_default (map_option ucast ?v) (16 * 1024)"
    using assms by (auto simp: config_load_def rbind_eq_Inr get_config_map)
  then have "unat (cf_cache_limit_mb c) = (case ?v of Some v \<Rightarrow> unat v mod 2 ^ 32 | None \<Rightarrow> 2 ^ 14)"
    by (cases ?v) (simp_all add: or_default_def unsigned_ucast_eq take_bit_eq_mod)
  then show ?thesis using bytes by simp
qed

lemma config_cache_limit_witness:
  "unat (fc_limit (file_cache_new ''/c'' (ucast (- 1 :: 64 word)))) = (2 ^ 32 - 1) * 2 ^ 20"
proof -
  let ?doc = "document_of [(''cache_limit_mb'', YInteger (- 1)), (''cache_path'', YString ''/c'')]"
  obtain c where c: "config_load sample_config_host (Some ?doc) None False = Inr c" "cf_cache_dir c = ''/c''"
    "cf_cache_limit_mb c = ucast (- 1 :: 64 word)"
    by (simp add: config_load_def get_config_def document_of_def or_default_def cache_path_of_def sample_config_host_def replace_home_def)
  have "get_config (Some ?doc) None ''cache_limit_mb'' as_i64 = Some (- 1)" by (simp add: get_config_def document_of_def)
  then show ?thesis using config_cache_limit [OF c(1)] c by (simp add: unsigned_minus_1_eq_mask mask_eq_exp_minus_1)
qed

definition sample_config :: "string config" where
  "sample_config = \<lparr>cf_coordinator = Some ''http://c'', cf_helper_bind = any_addr 0, cf_coordinator_bind = any_addr 3000,
     cf_process_limit = 4, cf_cache_dir = ''/c'', cf_cache_limit_mb = 64\<rparr>"

lemma config_shown_is_read_witness:
  "config_load sample_config_host (Some (document_of (config_show sample_config_host sample_config))) None False = Inr sample_config"
  by (rule config_shown_is_read) (simp_all add: texts_ok_def sample_config_host_def sample_config_def any_addr_def)

text \<open>The help, which is all that can tell a user what is wrong with a configuration, ends unless one of the two configuration
  files is readable and has no document in it.\<close>

lemma load_optional_panics:
  assumes "\<And>p m. cg_documents h p \<noteq> Inl (Panic m)"
  shows "(\<exists>e. load_optional h q = Inl e) \<longleftrightarrow> (\<exists>p. q = Some p \<and> cg_documents h p = Inr [])"
    and "load_optional h q = Inl e \<Longrightarrow> \<exists>m. e = Panic m"
  using assms by (auto simp: load_optional_def load_config_def rbind_def split: option.splits sum.splits failure.splits if_splits)

lemma config_load_no_panic: "config_load h local global defaults \<noteq> Inl (Panic m)"
  by (auto simp: config_load_def replace_home_def rbind_def Let_def split: sum.splits option.splits if_splits)

lemma config_new_panics:
  assumes "\<And>p m. cg_documents h p \<noteq> Inl (Panic m)"
  shows "(\<exists>m. config_new h = Inl (Panic m)) \<longleftrightarrow>
    (\<exists>p. (get_local_config_path h = Some p \<or> get_global_config_path h = Some p) \<and> cg_documents h p = Inr [])"
proof -
  note loaded = load_optional_panics [OF assms]
  let ?l = "load_optional h (get_local_config_path h)" and ?g = "load_optional h (get_global_config_path h)"
  have "(\<exists>m. config_new h = Inl (Panic m)) \<longleftrightarrow> (\<exists>e. ?l = Inl e) \<or> (\<exists>e. ?g = Inl e)"
    by (cases ?l; cases ?g) (use loaded(2) config_load_no_panic in \<open>fastforce simp: config_new_def rbind_def\<close>)+
  then show ?thesis unfolding loaded(1) by blast
qed

theorem config_help_ends:
  assumes "\<And>p m. cg_documents h p \<noteq> Inl (Panic m)"
  shows "snd (config_help h emit display) = Inr () \<longleftrightarrow>
    \<not> (\<exists>p. (get_local_config_path h = Some p \<or> get_global_config_path h = Some p) \<and> cg_documents h p = Inr [])"
proof -
  have shown: "snd (show_or_error h emit display r) = Inr () \<longleftrightarrow> \<not> (\<exists>m. r = Inl (Panic m))" for r
    by (auto simp: show_or_error_def split: sum.splits failure.splits)
  have "snd (show_or_error h emit display (config_defaults h)) = Inr ()"
    unfolding shown by (simp add: config_defaults_def config_load_no_panic)
  then have "snd (config_help h emit display) = Inr () \<longleftrightarrow> snd (show_or_error h emit display (config_new h)) = Inr ()"
    by (cases "show_or_error h emit display (config_new h)"; cases "show_or_error h emit display (config_defaults h)")
      (auto simp: config_help_def Let_def split: sum.splits)
  then show ?thesis unfolding shown config_new_panics [OF assms] .
qed

end
