(* ===== verification/Simple.thy ===== *)
theory Simple
  imports Config Remote_Client Vs_Compiler Clang_Compiler Petgraph Worker_Correct
begin

text \<open>
  \<open>src/simple.rs\<close>: the programs that take the place of one compiler (\<open>octo_cl\<close>, \<open>octo_clang\<close>). The call
  becomes tasks without dependencies, which the executor runs; the exit code tells what went wrong before.
\<close>

section \<open>The compilers\<close>

text \<open>The two compilers, as the functions \<open>resolve_toolchain\<close> and \<open>discovery_toolchains\<close> of each.\<close>

definition supported_compilers :: "compiler \<Rightarrow> compiler \<Rightarrow> compiler_group" where
  "supported_compilers vs clang = group_add (group_add group_new vs) clang"

section \<open>The build\<close>

definition action_title :: "(string list \<Rightarrow> string) \<Rightarrow> build_action \<Rightarrow> string" where
  "action_title debug action =
     (case action of
        Empty \<Rightarrow> []
      | Exec _ args \<Rightarrow> debug args
      | Compilation _ task \<Rightarrow> ct_input_source task)"

fun add_tasks :: "(string list \<Rightarrow> string) \<Rightarrow> build_action list \<Rightarrow> build_task graph_log \<Rightarrow> build_task graph_log" where
  "add_tasks debug [] g = g"
| "add_tasks debug (action # actions) g =
     add_tasks debug actions (snd (log_node \<lparr>bt_title = action_title debug action, bt_action = action\<rparr> g))"

text \<open>\<open>args\<close> are those of the process, the program first. \<open>remote\<close> wraps the compiler (\<open>Remote_Client\<close>).\<close>

definition compile_actions :: "(compiler \<Rightarrow> compiler) \<Rightarrow> compiler \<Rightarrow> command_info \<Rightarrow> string list \<Rightarrow> build_action list result" where
  "compile_actions remote cp command args =
     (if args = [] then Inl (Panic ''range start index 1 out of range'')
      else Inr (build_create_tasks (remote cp) command (tl args)))"

definition simple_build ::
    "(string list \<Rightarrow> string) \<Rightarrow> (build_task graph_log \<Rightarrow> build_task graph) \<Rightarrow> (build_task \<Rightarrow> output_info result) \<Rightarrow>
     (build_task build_result \<Rightarrow> unit result) \<Rightarrow> nat \<Rightarrow> build_action list \<Rightarrow> build_task execution" where
  "simple_build debug view run update process_limit actions =
     execute_graph run update (view (add_tasks debug actions log_new)) process_limit"

definition print_output :: "(bytes \<Rightarrow> unit result) \<Rightarrow> (bytes \<Rightarrow> unit result) \<Rightarrow> 'n build_result \<Rightarrow> unit result" where
  "print_output out err r =
     (case br_result r of
        Inl _ \<Rightarrow> Inr ()
      | Inr output \<Rightarrow> rbind (out (oi_stdout output)) (\<lambda>_. err (oi_stderr output)))"

section \<open>The exit code\<close>

text \<open>A step of \<open>simple_compile\<close>: an error ends the program with a code of its own, a panic stays a panic.\<close>

definition or_exit :: "int \<Rightarrow> 'a result \<Rightarrow> ('a \<Rightarrow> int result) \<Rightarrow> int result" where
  "or_exit code r f =
     (case r of Inr x \<Rightarrow> f x | Inl (Panic m) \<Rightarrow> Inl (Panic m) | Inl (IoError _ _) \<Rightarrow> Inr code)"

definition simple_compile ::
    "'c result \<Rightarrow> ('c \<Rightarrow> 's result) \<Rightarrow> ('c \<Rightarrow> 'k result) \<Rightarrow> ('c \<Rightarrow> 's \<Rightarrow> 'k \<Rightarrow> exit_result) \<Rightarrow> int result" where
  "simple_compile config state factory compile =
     or_exit 501 config (\<lambda>c.
     or_exit 502 (state c) (\<lambda>s.
     or_exit 503 (factory c) (\<lambda>k.
     or_exit 500 (compile c s k) (\<lambda>status. Inr (case status of Some r \<Rightarrow> r | None \<Rightarrow> 503)))))"

section \<open>Properties\<close>

lemma add_tasks_log:
  "gl_nodes (add_tasks debug as g) = gl_nodes g @ map (\<lambda>a. \<lparr>bt_title = action_title debug a, bt_action = a\<rparr>) as \<and>
     gl_edges (add_tasks debug as g) = gl_edges g"
  by (induction as arbitrary: g) (auto simp: log_node_def)

lemma simple_graph_good:
  fixes debug actions
  defines "g \<equiv> add_tasks debug actions log_new"
  assumes "graph_view view"
  shows "graph_ok (view g) \<and> simple_graph (view g) \<and> edges (view g) = {} \<and> node_count (view g) = length actions \<and>
    map bt_action (node_weights (view g)) = actions"
proof -
  have log: "gl_edges g = []" "map bt_action (gl_nodes g) = actions"
    using add_tasks_log [of debug actions log_new] by (simp_all add: g_def log_new_def comp_def)
  then have ok: "log_ok g" "log_simple g" by (simp_all add: log_ok_def log_simple_def)
  have "length (gl_nodes g) = length actions" using arg_cong [OF log(2), of length] by simp
  then show ?thesis
    using assms(2) ok log view_graph_ok [OF assms(2) ok(1)] view_simple [OF assms(2) ok] by (simp add: view_edges view_count view_nodes)
qed

lemma build_create_tasks_nonempty: "build_create_tasks cp command args \<noteq> []"
  by (simp add: build_create_tasks_def Let_def)

lemma simple_build_cases:
  assumes "graph_view view"
  shows "case simple_build debug view run update process_limit (build_create_tasks cp command args) of
      Started g workers s \<Rightarrow>
        map bt_action (node_weights g) = build_create_tasks cp command args \<and> edges g = {} \<and> graph_ok g \<and> simple_graph g \<and>
        1 < node_count g \<and> 1 \<le> workers \<and> workers \<le> node_count g \<and> s = system_init g workers
    | Returned r \<Rightarrow>
        \<exists>a b. build_create_tasks cp command args = [a] \<and>
          r = rbind (update b) (\<lambda>_. rbind (run \<lparr>bt_title = action_title debug a, bt_action = a\<rparr>) (\<lambda>out. Inr (oi_status out)))"
proof -
  let ?as = "build_create_tasks cp command args" and ?g = "view (add_tasks debug (build_create_tasks cp command args) log_new)"
  note good = simple_graph_good [OF assms, of debug ?as]
  have valid: "validate_graph ?g = Inr ?g" using validate_graph_result [of ?g] good by (simp add: acyclic_def)
  have n: "node_count ?g \<noteq> 0" using good build_create_tasks_nonempty [of cp command args] by simp
  show ?thesis
  proof (cases "node_count ?g = 1")
    case True
    then obtain a where a: "?as = [a]" using good by (metis length_0_conv length_Suc_conv One_nat_def)
    have "log_ok (add_tasks debug ?as log_new)" using add_tasks_log [of debug ?as log_new] by (simp add: log_ok_def log_new_def)
    then have "node_weights ?g = [\<lparr>bt_title = action_title debug a, bt_action = a\<rparr>]"
      using add_tasks_log [of debug ?as log_new] a view_nodes [OF assms] by (simp add: log_new_def)
    then show ?thesis
      using True valid a by (auto simp: simple_build_def execute_graph_def Let_def)
  next
    case False
    then have many: "Suc 0 < length ?as" using n good by (cases ?as; cases "tl ?as") auto
    then have "Suc 0 \<le> length ?as" by (rule less_imp_le)
    then show ?thesis
      using False valid n good by (simp add: simple_build_def execute_graph_def Let_def) (intro conjI many less_imp_le [OF many])
  qed
qed

text \<open>A call of a compiler with several sources starts the executor on one task per source without dependencies, with at least one
  and at most as many workers as tasks, whatever the configured limit; one task is run at once. A cycle is never reported.\<close>

theorem simple_build_starts:
  assumes "graph_view view"
  shows "case simple_build debug view run update process_limit (build_create_tasks cp command args) of
      Started g workers s \<Rightarrow>
        map bt_action (node_weights g) = build_create_tasks cp command args \<and> edges g = {} \<and> graph_ok g \<and> simple_graph g \<and>
        1 < node_count g \<and> 1 \<le> workers \<and> workers \<le> node_count g \<and> s = system_init g workers
    | Returned r \<Rightarrow>
        \<exists>a b. build_create_tasks cp command args = [a] \<and>
          r = rbind (update b) (\<lambda>_. rbind (run \<lparr>bt_title = action_title debug a, bt_action = a\<rparr>) (\<lambda>out. Inr (oi_status out)))"
  using assms by (rule simple_build_cases)

lemma simple_build_starts_witness:
  "\<exists>b. simple_build concat list_view (\<lambda>_. Inr ok_output) (\<lambda>_. Inr ()) 0
      (build_create_tasks \<lparr>cp_resolve = Map.empty, cp_discovery = []\<rparr> \<lparr>cmd_program = ''cl'', cmd_dir = None, cmd_env = env_new\<rparr> []) = Returned b"
proof -
  have one: "build_create_tasks \<lparr>cp_resolve = Map.empty, cp_discovery = []\<rparr> \<lparr>cmd_program = ''cl'', cmd_dir = None, cmd_env = env_new\<rparr> [] =
      [Exec \<lparr>cmd_program = ''cl'', cmd_dir = None, cmd_env = env_new\<rparr> []]"
    by (simp add: build_create_tasks_def create_tasks_def)
  show ?thesis
    using simple_build_starts [OF list_view_ok, where debug = concat and run = "\<lambda>_. Inr ok_output" and update = "\<lambda>_. Inr ()" and process_limit = 0
        and cp = "\<lparr>cp_resolve = Map.empty, cp_discovery = []\<rparr>" and command = "\<lparr>cmd_program = ''cl'', cmd_dir = None, cmd_env = env_new\<rparr>" and args = "[]"]
    unfolding one by (auto simp: node_count_def split: execution.splits dest: arg_cong [where f = length])
qed

end
