(* ===== verification/Slow_Ops.thy ===== *)
theory Slow_Ops
  imports Toolchain Config Transition
begin

text \<open>
  \<open>src/compiler.rs\<close>, \<open>SharedState\<close>: how it is set up from the configuration, and \<open>wrap_slow\<close>, which runs a compiler
  while it holds a place of the semaphore. The named semaphore (crate \<open>ipc\<close>) is a counter: \<open>access\<close>
  waits until a place is free, and the guard gives it back when it is dropped, also by a panic.
  Shown here: never more compilers run at once than configured, and nobody waits for ever.
\<close>

section \<open>The shared state\<close>

definition semaphore_size :: "'url config \<Rightarrow> nat" where
  "semaphore_size cfg = max (unat (cf_process_limit cfg)) 1"

text \<open>\<open>make_semaphore\<close> is \<open>Semaphore::new\<close>.\<close>

definition shared_state_new :: "(nat \<Rightarrow> unit result) \<Rightarrow> filesystem \<Rightarrow> 'url config \<Rightarrow> shared_state result" where
  "shared_state_new make_semaphore fs cfg =
     rbind (make_semaphore (semaphore_size cfg)) (\<lambda>_.
       Inr \<lparr>ss_cache = cache_new (cf_cache_dir cfg) (cf_cache_limit_mb cfg), ss_stat = statistic_new, ss_fs = fs\<rparr>)"

section \<open>Slow operations\<close>

text \<open>A thread in \<open>wrap_slow\<close>: waiting for a place, inside \<open>func\<close>, returned, or unwinding after a panic.\<close>

datatype slow_thread = Waiting | Inside | Left | Unwound

record slow_system =
  sl_free :: nat
  sl_threads :: "slow_thread list"

definition slow_init :: "nat \<Rightarrow> nat \<Rightarrow> slow_system" where
  "slow_init limit threads = \<lparr>sl_free = limit, sl_threads = replicate threads Waiting\<rparr>"

inductive wrap_slow :: "slow_system \<Rightarrow> slow_system \<Rightarrow> bool" where
  access: "i < length (sl_threads s) \<Longrightarrow> sl_threads s ! i = Waiting \<Longrightarrow> 0 < sl_free s \<Longrightarrow>
    wrap_slow s (s\<lparr>sl_free := sl_free s - 1, sl_threads := (sl_threads s)[i := Inside]\<rparr>)"
| release: "i < length (sl_threads s) \<Longrightarrow> sl_threads s ! i = Inside \<Longrightarrow> left = Left \<or> left = Unwound \<Longrightarrow>
    wrap_slow s (s\<lparr>sl_free := sl_free s + 1, sl_threads := (sl_threads s)[i := left]\<rparr>)"

inductive slow_reachable :: "nat \<Rightarrow> nat \<Rightarrow> slow_system \<Rightarrow> bool" for limit threads where
  slow_start: "slow_reachable limit threads (slow_init limit threads)"
| slow_next: "slow_reachable limit threads s \<Longrightarrow> wrap_slow s s' \<Longrightarrow> slow_reachable limit threads s'"

inductive_cases wrap_slowE: "wrap_slow s s'"

definition inside :: "slow_system \<Rightarrow> nat" where
  "inside s = count_list (sl_threads s) Inside"

lemma count_list_update:
  "i < length xs \<Longrightarrow> count_list (xs[i := y]) x + (if xs ! i = x then 1 else 0) = count_list xs x + (if y = x then 1 else 0)"
proof (induction xs arbitrary: i)
  case (Cons z zs)
  show ?case
  proof (cases i)
    case (Suc n)
    then show ?thesis using Cons.IH [of n] Cons.prems by (auto split: if_splits)
  qed simp
qed simp

text \<open>A waiting thread takes two steps, one inside takes one.\<close>

fun slow_rank :: "slow_thread \<Rightarrow> nat" where
  "slow_rank Waiting = 2"
| "slow_rank Inside = 1"
| "slow_rank _ = 0"

lemma sum_list_update_less:
  fixes xs :: "nat list"
  shows "i < length xs \<Longrightarrow> y < xs ! i \<Longrightarrow> sum_list (xs[i := y]) < sum_list xs"
proof (induction xs arbitrary: i)
  case (Cons z zs)
  then show ?case by (cases i) auto
qed simp

lemma wrap_slow_decreases:
  assumes "wrap_slow s s'"
  shows "sum_list (map slow_rank (sl_threads s')) < sum_list (map slow_rank (sl_threads s))"
  using assms
proof (cases rule: wrap_slow.cases)
  case (access i)
  then show ?thesis using sum_list_update_less [of i "map slow_rank (sl_threads s)" 1] by (simp add: map_update)
next
  case (release i left)
  then show ?thesis using sum_list_update_less [of i "map slow_rank (sl_threads s)" 0] by (auto simp: map_update)
qed

definition slow_good :: "nat \<Rightarrow> nat \<Rightarrow> slow_system \<Rightarrow> bool" where
  "slow_good limit threads s \<longleftrightarrow> sl_free s + inside s = limit \<and> length (sl_threads s) = threads"

lemma slow_init_good: "slow_good limit threads (slow_init limit threads)"
proof -
  have "count_list (replicate n Waiting) Inside = 0" for n by (induction n) auto
  then show ?thesis by (simp add: slow_good_def slow_init_def inside_def)
qed

lemma wrap_slow_good:
  assumes "slow_good limit threads s" "wrap_slow s s'"
  shows "slow_good limit threads s'"
  using assms(2)
proof (cases rule: wrap_slow.cases)
  case (access i)
  then show ?thesis
    using assms(1) count_list_update [of i "sl_threads s" Inside Inside] by (auto simp: slow_good_def inside_def)
next
  case (release i left)
  then show ?thesis
    using assms(1) count_list_update [of i "sl_threads s" left Inside] by (auto simp: slow_good_def inside_def)
qed

interpretation semaphore: transition_system "\<lambda>s. s = slow_init limit threads" wrap_slow "slow_good limit threads"
    "measure (\<lambda>s. sum_list (map slow_rank (sl_threads s)))" for limit threads
  by unfold_locales (auto simp: slow_init_good wrap_slow_good wrap_slow_decreases)

lemma slow_runs: "slow_reachable limit threads s \<longleftrightarrow> wrap_slow\<^sup>*\<^sup>* (slow_init limit threads) s"
proof
  assume "slow_reachable limit threads s"
  then show "wrap_slow\<^sup>*\<^sup>* (slow_init limit threads) s"
    by induction (auto intro: rtranclp.rtrancl_into_rtrancl)
next
  assume "wrap_slow\<^sup>*\<^sup>* (slow_init limit threads) s"
  then show "slow_reachable limit threads s"
    by (induction rule: rtranclp_induct) (auto intro: slow_reachable.intros)
qed

lemma slow_inv: "slow_reachable limit threads s \<Longrightarrow> sl_free s + inside s = limit \<and> length (sl_threads s) = threads"
  using semaphore.run_good [OF refl] by (simp add: slow_runs slow_good_def)

lemma slow_progress:
  assumes "slow_reachable limit threads s" "0 < limit" "\<exists>t \<in> set (sl_threads s). t = Waiting \<or> t = Inside"
  shows "\<exists>s'. wrap_slow s s'"
proof (cases "Inside \<in> set (sl_threads s)")
  case True
  then show ?thesis by (auto simp: in_set_conv_nth intro: wrap_slow.release)
next
  case False
  then have "inside s = 0" by (simp add: inside_def count_list_0_iff)
  then have "0 < sl_free s" using slow_inv [OF assms(1)] assms(2) by simp
  moreover obtain i where "i < length (sl_threads s)" "sl_threads s ! i = Waiting"
    using assms(3) False by (auto simp: in_set_conv_nth)
  ultimately show ?thesis by (blast intro: wrap_slow.access)
qed

text \<open>C33: Whatever the threads do, at most as many compilers run at once as the configuration allows (one, if it says
  zero); as long as a thread waits or runs its compiler some thread can go on, and no run is longer than two steps per thread.\<close>

theorem slow_operations_bounded:
  assumes "slow_reachable (semaphore_size cfg) threads s"
  shows "inside s \<le> max (unat (cf_process_limit cfg)) 1 \<and>
    ((\<exists>t \<in> set (sl_threads s). t = Waiting \<or> t = Inside) \<longrightarrow> (\<exists>s'. wrap_slow s s')) \<and>
    (\<forall>s'. wrap_slow s s' \<longrightarrow> sum_list (map slow_rank (sl_threads s')) < sum_list (map slow_rank (sl_threads s)))"
proof (intro conjI impI allI)
  have limit: "0 < semaphore_size cfg" by (simp add: semaphore_size_def)
  show "inside s \<le> max (unat (cf_process_limit cfg)) 1" using slow_inv [OF assms] by (simp add: semaphore_size_def)
  show "\<exists>s'. wrap_slow s s'" if "\<exists>t \<in> set (sl_threads s). t = Waiting \<or> t = Inside"
    using slow_progress [OF assms limit that] .
  show "sum_list (map slow_rank (sl_threads s')) < sum_list (map slow_rank (sl_threads s))" if "wrap_slow s s'" for s'
    using that by (rule wrap_slow_decreases)
qed

definition one_worker_config :: "string config" where
  "one_worker_config = sample_config\<lparr>cf_process_limit := 0\<rparr>"

lemma slow_operations_bounded_witness:
  "inside \<lparr>sl_free = 0, sl_threads = [Inside, Waiting]\<rparr> \<le> 1 \<and>
     (\<exists>s'. wrap_slow \<lparr>sl_free = 0, sl_threads = [Inside, Waiting]\<rparr> s')"
proof -
  have size: "semaphore_size one_worker_config = 1" by (simp add: semaphore_size_def one_worker_config_def)
  have "wrap_slow (slow_init 1 2) \<lparr>sl_free = 0, sl_threads = [Inside, Waiting]\<rparr>"
    using wrap_slow.access [of 0 "slow_init 1 2"] by (simp add: slow_init_def numeral_2_eq_2)
  then have "slow_reachable (semaphore_size one_worker_config) 2 \<lparr>sl_free = 0, sl_threads = [Inside, Waiting]\<rparr>"
    unfolding size by (rule slow_next [OF slow_start])
  then show ?thesis
    using slow_operations_bounded [of one_worker_config 2 "\<lparr>sl_free = 0, sl_threads = [Inside, Waiting]\<rparr>"]
    by (simp add: one_worker_config_def)
qed

end
