(* ===== verification/Services.thy ===== *)
theory Services
  imports Builder_Service Slow_Ops Simple Vs_Identifier
begin

text \<open>
  The two services as a whole: \<open>src/bin/octo_builder.rs\<close> (\<open>BuilderService\<close>, the announcing thread and \<open>main\<close>)
  and \<open>main\<close> of \<open>src/bin/octo_coordinator.rs\<close>. The daemon library hands \<open>main\<close> the signals of the system; the
  web server, the host name and the clock are parameters.

  Shown here: a builder that announces itself as its thread does stays in the answers of the coordinator
  until it is stopped, and disappears five seconds later; the names it announces are the identifiers of its
  toolchains, so that a Visual Studio step goes to a compiler of the same build; and the signals never leave
  two announcing threads behind.
\<close>

section \<open>Starting a builder\<close>

definition unwrap :: "'a result \<Rightarrow> 'a result" where
  "unwrap r = (case r of Inl _ \<Rightarrow> Inl (Panic ''called Result::unwrap() on an Err value'') | Inr x \<Rightarrow> Inr x)"

lemma unwrap_eq_Inr [simp]: "unwrap r = Inr x \<longleftrightarrow> r = Inr x"
  by (cases r) (simp_all add: unwrap_def)

record 'url service_host =
  sh_config :: "'url config result"
  sh_temp_dir :: "path result"
  sh_hostname :: "string result"
  sh_semaphore :: "nat \<Rightarrow> unit result"
  sh_compilers :: "path \<Rightarrow> compiler"
  sh_listen :: "socket_addr \<Rightarrow> socket_addr result"
  sh_uuid :: string
  sh_version :: string
  sh_addr :: addr_text
  sh_fs :: filesystem

text \<open>The service: the flag that ends the thread, the thread (what it sends, and to which coordinator) and the address of
  the web server with the state its handlers share.\<close>

record 'url builder_service =
  sv_done :: bool
  sv_anoncer :: "(builder_info_update \<times> 'url) option"
  sv_listener :: "socket_addr option"
  sv_state :: builder_state

definition builder_state_new :: "'url service_host \<Rightarrow> 'url config \<Rightarrow> builder_state result" where
  "builder_state_new h cfg =
     rbind (unwrap (sh_temp_dir h)) (\<lambda>temp_dir.
     rbind (unwrap (sh_hostname h)) (\<lambda>name.
     rbind (unwrap (shared_state_new (sh_semaphore h) (sh_fs h) cfg)) (\<lambda>shared.
       Inr \<lparr>bs_name = name, bs_shared = shared, bs_precompiled_dir = cf_cache_dir cfg,
         bs_toolchains = discovery_toolchains (sh_compilers h temp_dir), bs_precompiled = []\<rparr>)))"

definition builder_service_new :: "'url service_host \<Rightarrow> 'url builder_service result" where
  "builder_service_new h =
     rbind (unwrap (sh_config h)) (\<lambda>cfg.
     rbind (builder_state_new h cfg) (\<lambda>b.
     rbind (unwrap (sh_listen h (cf_helper_bind cfg))) (\<lambda>endpoint.
       case cf_coordinator cfg of
         None \<Rightarrow> Inl (Panic ''called Option::unwrap() on a None value'')
       | Some coordinator \<Rightarrow>
           Inr \<lparr>sv_done = False,
             sv_anoncer = Some (announce (sh_uuid h) (sh_addr h) (sh_version h) endpoint b, coordinator),
             sv_listener = Some endpoint, sv_state = b\<rparr>)))"

text \<open>\<open>Drop\<close>: the thread is told to end and joined, the server is detached.\<close>

definition builder_service_drop :: "'url builder_service \<Rightarrow> 'url builder_service" where
  "builder_service_drop sv = sv\<lparr>sv_done := True, sv_anoncer := None, sv_listener := None\<rparr>"

section \<open>The announcing thread\<close>

text \<open>A turn of the loop: the flag it reads, how long the request takes to reach the coordinator and from which address it comes
  (\<open>None\<close> if it cannot be sent, which is only logged), how long the answer takes, and how much longer than a second it sleeps.\<close>

record turn =
  tr_done :: bool
  tr_remote :: "ip_addr option"
  tr_reach :: nat
  tr_answer :: nat
  tr_late :: nat

fun turn_end :: "instant \<Rightarrow> turn \<Rightarrow> instant" where
  "turn_end now t = now + tr_reach t + tr_answer t + (secs 1 + tr_late t)"

fun thread_anoncer :: "builder_info_update \<Rightarrow> instant \<Rightarrow> turn list \<Rightarrow> announcement list" where
  "thread_anoncer info now [] = []"
| "thread_anoncer info now (t # ts) =
     (if tr_done t then []
      else
        (case tr_remote t of
           None \<Rightarrow> []
         | Some remote \<Rightarrow> [\<lparr>an_time = now + tr_reach t, an_remote = remote, an_body = Some info\<rparr>]) @
        thread_anoncer info (turn_end now t) ts)"

text \<open>When the last turn is over.\<close>

fun anoncer_end :: "instant \<Rightarrow> turn list \<Rightarrow> instant" where
  "anoncer_end now [] = now"
| "anoncer_end now (t # ts) = anoncer_end (turn_end now t) ts"

section \<open>The signals\<close>

datatype daemon_signal = Start_Signal | Reload_Signal | Stop_Signal

text \<open>\<open>main\<close> of the builder, for every signal the host at that time: the service that runs and those that were dropped.
  A new service is made before the old one is dropped. When the channel is closed the last service is dropped.\<close>

fun builder_signals ::
    "('url service_host \<times> daemon_signal) list \<Rightarrow> 'url builder_service option \<Rightarrow> 'url builder_service list \<Rightarrow>
     ('url builder_service option \<times> 'url builder_service list) result" where
  "builder_signals [] builder dropped = Inr (builder, dropped)"
| "builder_signals ((h, Start_Signal) # sigs) builder dropped =
     rbind (builder_service_new h) (\<lambda>sv.
       builder_signals sigs (Some sv) (dropped @ map builder_service_drop (case builder of None \<Rightarrow> [] | Some old \<Rightarrow> [old])))"
| "builder_signals ((h, Reload_Signal) # sigs) builder dropped = builder_signals sigs builder dropped"
| "builder_signals ((h, Stop_Signal) # sigs) builder dropped =
     builder_signals sigs None (dropped @ map builder_service_drop (case builder of None \<Rightarrow> [] | Some old \<Rightarrow> [old]))"

definition builder_main :: "('url service_host \<times> daemon_signal) list \<Rightarrow> 'url builder_service list result" where
  "builder_main sigs =
     rbind (builder_signals sigs None []) (\<lambda>(builder, dropped).
       Inr (dropped @ map builder_service_drop (case builder of None \<Rightarrow> [] | Some old \<Rightarrow> [old])))"

text \<open>\<open>main\<close> of the coordinator: the server that is running, with an empty list of builders when it starts, and those that were
  detached.\<close>

record web_listener =
  wl_addr :: socket_addr
  wl_builders :: "builder_entry list"

definition coordinator_state_new :: "builder_entry list" where
  "coordinator_state_new = []"

fun coordinator_signals ::
    "('url service_host \<times> daemon_signal) list \<Rightarrow> web_listener option \<Rightarrow> web_listener list \<Rightarrow>
     (web_listener option \<times> web_listener list) result" where
  "coordinator_signals [] web detached = Inr (web, detached)"
| "coordinator_signals ((h, Start_Signal) # sigs) web detached =
     rbind (unwrap (sh_config h)) (\<lambda>cfg.
     rbind (unwrap (sh_listen h (cf_coordinator_bind cfg))) (\<lambda>addr.
       coordinator_signals sigs (Some \<lparr>wl_addr = addr, wl_builders = coordinator_state_new\<rparr>) detached))"
| "coordinator_signals ((h, Reload_Signal) # sigs) web detached = coordinator_signals sigs web detached"
| "coordinator_signals ((h, Stop_Signal) # sigs) web detached =
     coordinator_signals sigs None (detached @ (case web of None \<Rightarrow> [] | Some v \<Rightarrow> [v]))"

section \<open>A builder that announces itself is listed\<close>

text \<open>A turn that goes well: the request reaches the coordinator within two seconds, and the answer and the oversleeping take
  no longer than two more.\<close>

definition prompt :: "ip_addr \<Rightarrow> turn \<Rightarrow> bool" where
  "prompt ip t \<longleftrightarrow> \<not> tr_done t \<and> tr_remote t = Some ip \<and> tr_reach t \<le> secs 2 \<and> tr_answer t + tr_late t \<le> secs 2"

definition guid_of :: "announcement \<Rightarrow> string option" where
  "guid_of an = map_option bu_guid (an_body an)"

lemma thread_anoncer_body: "an \<in> set (thread_anoncer info now ts) \<Longrightarrow> an_body an = Some info \<and> now \<le> an_time an"
proof (induction ts arbitrary: now)
  case (Cons t ts)
  show ?case
  proof (cases "an \<in> set (thread_anoncer info (turn_end now t) ts)")
    case True
    then show ?thesis using Cons.IH [OF True] by simp
  next
    case False
    then show ?thesis using Cons.prems by (auto split: if_splits option.splits)
  qed
qed simp

lemma thread_anoncer_remote:
  "\<forall>t \<in> set ts. prompt ip t \<Longrightarrow> an \<in> set (thread_anoncer info now ts) \<Longrightarrow> an_remote an = ip"
  by (induction ts arbitrary: now) (auto simp: prompt_def)

lemma thread_anoncer_before_end:
  "an \<in> set (thread_anoncer info now ts) \<Longrightarrow> an_time an \<le> anoncer_end now ts"
proof (induction ts arbitrary: now)
  case (Cons t ts)
  have later: "now \<le> anoncer_end now ts" for now
  proof (induction ts arbitrary: now)
    case (Cons u us)
    show ?case using Cons.IH [of "turn_end now u"] by simp
  qed simp
  show ?case
  proof (cases "an \<in> set (thread_anoncer info (turn_end now t) ts)")
    case True
    then show ?thesis using Cons.IH [OF True] by simp
  next
    case False
    then have "an_time an \<le> turn_end now t" using Cons.prems by (auto split: if_splits option.splits)
    then show ?thesis using later [of "turn_end now t"] by simp
  qed
qed simp

text \<open>The last announcement up to a time is never older than five seconds.\<close>

lemma anoncer_recent:
  assumes "\<forall>t \<in> set ts. prompt ip t" "start + secs 2 \<le> now" "now \<le> anoncer_end start ts"
  shows "filter (\<lambda>an. an_time an \<le> now) (thread_anoncer info start ts) \<noteq> [] \<and>
    now \<le> an_time (last (filter (\<lambda>an. an_time an \<le> now) (thread_anoncer info start ts))) + secs 5"
  using assms
proof (induction ts arbitrary: start)
  case Nil
  then show ?case by (simp add: secs_def)
next
  case (Cons t ts)
  let ?d = "start + tr_reach t" and ?next = "turn_end start t"
  let ?rest = "filter (\<lambda>an. an_time an \<le> now) (thread_anoncer info ?next ts)"
  have t: "\<not> tr_done t" "tr_remote t = Some ip" "tr_reach t \<le> secs 2" "tr_answer t + tr_late t \<le> secs 2"
    using Cons.prems(1) by (simp_all add: prompt_def)
  have all: "filter (\<lambda>an. an_time an \<le> now) (thread_anoncer info start (t # ts)) =
      \<lparr>an_time = ?d, an_remote = ip, an_body = Some info\<rparr> # ?rest"
    using t Cons.prems(2) by simp
  show ?case
  proof (cases "?next + secs 2 \<le> now")
    case True
    then have "?rest \<noteq> [] \<and> now \<le> an_time (last ?rest) + secs 5"
      using Cons.IH [of ?next] Cons.prems(1,3) by simp
    then show ?thesis unfolding all by simp
  next
    case False
    then have "now \<le> ?d + secs 5" using t(3,4) by (simp add: secs_def)
    moreover have "?d \<le> an_time (last ?rest)" if "?rest \<noteq> []"
    proof -
      have "last ?rest \<in> set (thread_anoncer info ?next ts)" using last_in_set [OF that] by simp
      then have "?next \<le> an_time (last ?rest)" using thread_anoncer_body by blast
      then show ?thesis by simp
    qed
    ultimately show ?thesis unfolding all by fastforce
  qed
qed

text \<open>What the coordinator keeps of a guid is its last accepted announcement.\<close>

lemma last_latest:
  "filter (\<lambda>u. fst (snd u) = g) us \<noteq> [] \<Longrightarrow> last (filter (\<lambda>u. fst (snd u) = g) us) \<in> set (latest us)"
proof (induction us)
  case (Cons u us)
  show ?case
  proof (cases "filter (\<lambda>u. fst (snd u) = g) us = []")
    case True
    then have "\<not> (\<exists>u' \<in> set us. fst (snd u') = g)" by (auto simp: filter_empty_conv)
    then show ?thesis using Cons.prems True by (auto split: if_splits)
  next
    case False
    then show ?thesis using Cons.IH by (auto split: if_splits)
  qed
qed simp

lemma accepted_own:
  assumes "\<And>an. an \<in> set ans \<Longrightarrow> guid_of an = Some g \<Longrightarrow> an_body an = Some u \<and> an_remote an = ip"
    "bu_guid u = g" "fix_endpoint a ip (bu_info u) = Some fixed"
  shows "filter (\<lambda>x. fst (snd x) = g) (List.map_filter (accepted a) ans) =
    map (\<lambda>an. (an_time an, g, fixed)) (filter (\<lambda>an. guid_of an = Some g) ans)"
  using assms(1)
proof (induction ans)
  case (Cons an ans)
  then have IH: "filter (\<lambda>x. fst (snd x) = g) (List.map_filter (accepted a) ans) =
      map (\<lambda>an. (an_time an, g, fixed)) (filter (\<lambda>an. guid_of an = Some g) ans)" by simp
  have step: "List.map_filter (accepted a) (an # ans) =
      (case accepted a an of None \<Rightarrow> [] | Some x \<Rightarrow> [x]) @ List.map_filter (accepted a) ans"
    by (simp add: List.map_filter_def split: option.split)
  show ?case
  proof (cases "guid_of an = Some g")
    case True
    then have "accepted a an = Some (an_time an, g, fixed)"
      using Cons.prems [of an] assms(2,3) by (simp add: accepted_def)
    then show ?thesis using True IH by (simp add: step)
  next
    case False
    then have "\<And>x. accepted a an = Some x \<Longrightarrow> fst (snd x) \<noteq> g"
      by (auto simp: accepted_def guid_of_def split: option.splits)
    then show ?thesis using False IH by (auto simp: step split: option.split)
  qed
qed (simp add: List.map_filter_def)

lemma announced_entries:
  fixes now :: instant
  assumes "sorted (map an_time ans)"
    and own: "filter (\<lambda>an. guid_of an = Some (bu_guid u)) ans = thread_anoncer u start turns"
    and prompt: "\<forall>t \<in> set turns. prompt ip t"
    and fixed: "fix_endpoint a ip (bu_info u) = Some fixed"
  defines "seen \<equiv> filter (\<lambda>an. an_time an \<le> now) ans"
  shows "start + secs 2 \<le> now \<Longrightarrow> now \<le> anoncer_end start turns \<Longrightarrow> fixed \<in> set (agent_list now (coordinator_run a seen))"
    and "anoncer_end start turns + secs 5 < now \<Longrightarrow>
      bu_guid u \<notin> be_guid ` set (filter (\<lambda>e. be_timeout e \<ge> now) (coordinator_run a seen))"
proof -
  let ?g = "bu_guid u" and ?us = "List.map_filter (accepted a) seen"
  let ?mine = "filter (\<lambda>an. an_time an \<le> now) (thread_anoncer u start turns)"
  have entries: "filter (\<lambda>e. be_timeout e \<ge> now) (coordinator_run a seen) = map entry_of (filter (fresh now) (latest ?us))"
    using assms(1) by (intro coordinator_entries) (simp_all add: seen_def sorted_filter)
  have body: "an_body an = Some u \<and> an_remote an = ip" if "an \<in> set seen" "guid_of an = Some ?g" for an
  proof -
    have "an \<in> set (thread_anoncer u start turns)" using that by (simp add: seen_def flip: own)
    then show ?thesis using thread_anoncer_body thread_anoncer_remote [OF prompt] by blast
  qed
  have "filter (\<lambda>an. guid_of an = Some ?g) seen = filter (\<lambda>an. an_time an \<le> now) (filter (\<lambda>an. guid_of an = Some ?g) ans)"
    by (simp add: seen_def conj_commute)
  then have "filter (\<lambda>an. guid_of an = Some ?g) seen = ?mine" by (simp only: own)
  then have mine: "filter (\<lambda>x. fst (snd x) = ?g) ?us = map (\<lambda>an. (an_time an, ?g, fixed)) ?mine"
    using accepted_own [of seen ?g u ip a fixed] body fixed by simp
  show "fixed \<in> set (agent_list now (coordinator_run a seen))" if "start + secs 2 \<le> now" "now \<le> anoncer_end start turns"
  proof -
    have ne: "?mine \<noteq> []" "now \<le> an_time (last ?mine) + secs 5" using anoncer_recent [OF prompt that, of u] by simp_all
    then have "last (filter (\<lambda>x. fst (snd x) = ?g) ?us) = (an_time (last ?mine), ?g, fixed)"
      unfolding mine by (simp add: last_map)
    then have "(an_time (last ?mine), ?g, fixed) \<in> set (latest ?us)"
      using last_latest [of ?g ?us] ne(1) unfolding mine by simp
    then have "(an_time (last ?mine), ?g, fixed) \<in> set (filter (fresh now) (latest ?us))" using ne(2) by (simp add: fresh_def)
    then have "be_info (entry_of (an_time (last ?mine), ?g, fixed)) \<in> be_info ` entry_of ` set (filter (fresh now) (latest ?us))"
      by blast
    then show ?thesis unfolding agent_list_def entries set_map by (simp add: entry_of_def)
  qed
  show "?g \<notin> be_guid ` set (filter (\<lambda>e. be_timeout e \<ge> now) (coordinator_run a seen))"
    if "anoncer_end start turns + secs 5 < now"
  proof
    assume "?g \<in> be_guid ` set (filter (\<lambda>e. be_timeout e \<ge> now) (coordinator_run a seen))"
    then obtain x where x: "x \<in> set (latest ?us)" "fst (snd x) = ?g" "fresh now x"
      unfolding entries by (auto simp: entry_of_def)
    then have "x \<in> set (filter (\<lambda>x. fst (snd x) = ?g) ?us)" using set_latest by auto
    then obtain an where "an \<in> set (thread_anoncer u start turns)" "fst x = an_time an" unfolding mine by auto
    then show False using thread_anoncer_before_end that x(3) by (fastforce simp: fresh_def)
  qed
qed

text \<open>C31: A builder whose thread announces itself over a working network is in every answer of the coordinator from two
  seconds after its start until its last turn is over, with its address completed, whatever the other builders send in between;
  five seconds after the last turn nothing of it is left.\<close>

theorem announced_builder_listed:
  assumes "sorted (map an_time ans)"
    "filter (\<lambda>an. guid_of an = Some (bu_guid u)) ans = thread_anoncer u start turns"
    "\<forall>t \<in> set turns. prompt ip t" "fix_endpoint a ip (bu_info u) = Some fixed"
  shows "(start + secs 2 \<le> now \<and> now \<le> anoncer_end start turns \<longrightarrow>
      fixed \<in> set (agent_list now (coordinator_run a (filter (\<lambda>an. an_time an \<le> now) ans)))) \<and>
    (anoncer_end start turns + secs 5 < now \<longrightarrow>
      bu_guid u \<notin> be_guid ` set (filter (\<lambda>e. be_timeout e \<ge> now) (coordinator_run a (filter (\<lambda>an. an_time an \<le> now) ans))))"
  using announced_entries [OF assms] by blast

definition sample_update :: "string \<Rightarrow> builder_info_update" where
  "sample_update guid = \<lparr>bu_guid = guid, bu_info = \<lparr>bi_name = guid, bi_endpoint = ''0.0.0.0:1'', bi_version = [], bi_toolchains = []\<rparr>\<rparr>"

definition sample_turn :: turn where
  "sample_turn = \<lparr>tr_done = False, tr_remote = Some (V4 [10, 0, 0, 7]), tr_reach = secs 1, tr_answer = secs 1, tr_late = 0\<rparr>"

text \<open>Two turns of one builder, with an announcement of another in between.\<close>

definition sample_history :: "announcement list" where
  "sample_history =
     [\<lparr>an_time = secs 1, an_remote = V4 [10, 0, 0, 7], an_body = Some (sample_update ''a'')\<rparr>,
      sample_announcement 2 ''b'',
      \<lparr>an_time = secs 4, an_remote = V4 [10, 0, 0, 7], an_body = Some (sample_update ''a'')\<rparr>]"

lemma announced_builder_listed_witness:
  "\<lparr>bi_name = ''a'', bi_endpoint = ''10.0.0.7:1'', bi_version = [], bi_toolchains = []\<rparr> \<in>
     set (agent_list (secs 6) (coordinator_run sample_addr_text (filter (\<lambda>an. an_time an \<le> secs 6) sample_history)))"
proof -
  have "sorted (map an_time sample_history)" by (simp add: sample_history_def sample_announcement_def secs_def)
  moreover have "filter (\<lambda>an. guid_of an = Some (bu_guid (sample_update ''a''))) sample_history =
      thread_anoncer (sample_update ''a'') 0 [sample_turn, sample_turn]"
    by (simp add: sample_history_def sample_announcement_def guid_of_def sample_update_def sample_turn_def secs_def)
  moreover have "\<forall>t \<in> set [sample_turn, sample_turn]. prompt (V4 [10, 0, 0, 7]) t"
    by (simp add: prompt_def sample_turn_def secs_def)
  moreover have "fix_endpoint sample_addr_text (V4 [10, 0, 0, 7]) (bu_info (sample_update ''a'')) =
      Some \<lparr>bi_name = ''a'', bi_endpoint = ''10.0.0.7:1'', bi_version = [], bi_toolchains = []\<rparr>"
    by (simp add: fix_endpoint_def sample_addr_text_def sample_update_def)
  moreover have "0 + secs 2 \<le> secs 6" "secs 6 \<le> anoncer_end 0 [sample_turn, sample_turn]"
    by (simp_all add: sample_turn_def secs_def)
  ultimately show ?thesis using announced_builder_listed by blast
qed

section \<open>The toolchains of a builder\<close>

lemma discovery_update:
  "distinct (map fst m) \<Longrightarrow>
   (\<forall>(name, tc) \<in> set m. tc_identifier tc = Some name \<and> tc \<in> A) \<Longrightarrow> set tcs \<subseteq> A \<Longrightarrow>
   (let m' = fold (\<lambda>tc m. case tc_identifier tc of None \<Rightarrow> m | Some name \<Rightarrow> AList.update name tc m) tcs m
    in distinct (map fst m') \<and> (\<forall>(name, tc) \<in> set m'. tc_identifier tc = Some name \<and> tc \<in> A) \<and>
       fst ` set m' = fst ` set m \<union> {name. \<exists>tc \<in> set tcs. tc_identifier tc = Some name})"
proof (induction tcs arbitrary: m)
  case (Cons tc tcs)
  show ?case
  proof (cases "tc_identifier tc")
    case None
    then show ?thesis using Cons.IH [OF Cons.prems(1,2)] Cons.prems(3) by (auto simp: Let_def)
  next
    case (Some name)
    let ?m = "AList.update name tc m"
    have d: "distinct (map fst ?m)" using Cons.prems(1) by (rule distinct_update)
    have "tc_identifier t = Some n \<and> t \<in> A" if "(n, t) \<in> set ?m" for n t
    proof -
      have "map_of ?m n = Some t" using d that by simp
      then have "(if n = name then Some tc else map_of m n) = Some t" by (simp add: update_conv')
      then show ?thesis using Some Cons.prems(2,3) by (auto split: if_splits dest: map_of_SomeD)
    qed
    then have ok: "\<forall>(n, t) \<in> set ?m. tc_identifier t = Some n \<and> t \<in> A" by blast
    have keys: "fst ` set ?m = insert name (fst ` set m)" by (simp add: dom_map_of_conv_image_fst [symmetric] update_conv')
    show ?thesis
      using Cons.IH [OF d ok] Cons.prems(3) Some unfolding keys by (auto simp: Let_def)
  qed
qed (simp add: Let_def)

lemma discovery_toolchains_ok:
  "distinct (map fst (discovery_toolchains cp))"
  "map_of (discovery_toolchains cp) name = Some tc \<Longrightarrow> tc_identifier tc = Some name \<and> tc \<in> set (cp_discovery cp)"
  "fst ` set (discovery_toolchains cp) = {name. \<exists>tc \<in> set (cp_discovery cp). tc_identifier tc = Some name}"
  using discovery_update [of "[]" "set (cp_discovery cp)" "cp_discovery cp"] map_of_SomeD [of "discovery_toolchains cp" name tc]
  by (auto simp: discovery_toolchains_def Let_def)

lemma builder_service_new_ok:
  assumes "builder_service_new h = Inr sv"
  shows "\<exists>temp endpoint coordinator.
    sh_temp_dir h = Inr temp \<and>
    bs_toolchains (sv_state sv) = discovery_toolchains (sh_compilers h temp) \<and> \<not> sv_done sv \<and>
    sv_anoncer sv = Some (announce (sh_uuid h) (sh_addr h) (sh_version h) endpoint (sv_state sv), coordinator)"
  using assms by (fastforce simp: builder_service_new_def builder_state_new_def result_simps split: option.splits)

lemma announced_names:
  "set (bi_toolchains (bu_info (announce uuid a version endpoint b))) = fst ` set (bs_toolchains b)"
  by (simp add: announce_def builder_info_update_new_def toolchain_names_def)

text \<open>Visual Studio of this host and Clang, of which no identifier begins like one of Visual Studio.\<close>

definition builder_compilers ::
    "(path \<Rightarrow> toolchain) \<Rightarrow> windows_host \<Rightarrow> filesystem \<Rightarrow> compiler \<Rightarrow> compiler" where
  "builder_compilers new w fs clang =
     group_compiler (supported_compilers \<lparr>cp_resolve = Map.empty, cp_discovery = vs_discovery new w fs\<rparr> clang)"

lemma builder_compilers_discovery:
  "cp_discovery (builder_compilers new w fs clang) = vs_discovery new w fs @ cp_discovery clang"
  by (simp add: builder_compilers_def group_compiler_def group_discovery_def supported_compilers_def group_add_def group_new_def)

text \<open>C16: A Visual Studio compiler that a client identifies as \<open>i\<close>, when a builder announces \<open>i\<close>, is served there: the
  builder knows a toolchain of that name, it is an installed compiler of the builder, and (for time stamps of eight digits)
  its product version, its time stamp and its size are those of the client's compiler.\<close>

theorem announced_toolchain_is_the_same:
  assumes "builder_service_new h = Inr sv" "sv_anoncer sv = Some (u, url)" "i \<in> set (bi_toolchains (bu_info u))"
    and "sh_compilers h = (\<lambda>_. builder_compilers (win_toolchain vh uuid tasks va fs) w fs clang)"
    and "\<forall>tc \<in> set (cp_discovery clang). \<forall>name. tc_identifier tc = Some name \<longrightarrow> take 3 name \<noteq> ''cl ''"
    and client: "vs_identifier va' fs' p = Some i" "fs' p = Some f'" "0x10000000 \<le> unat (pe_stamp (va_read_u32 va') (f_data f'))"
  shows "\<exists>cl f. map_of (bs_toolchains (sv_state sv)) i = Some (win_toolchain vh uuid tasks va fs cl) \<and> fs cl = Some f \<and>
    (0x10000000 \<le> unat (pe_stamp (va_read_u32 va) (f_data f)) \<longrightarrow>
      product_version va cl = product_version va' p \<and>
      pe_stamp (va_read_u32 va) (f_data f) = pe_stamp (va_read_u32 va') (f_data f') \<and>
      pe_size (va_read_u32 va) (f_data f) = pe_size (va_read_u32 va') (f_data f'))"
proof -
  let ?new = "win_toolchain vh uuid tasks va fs"
  let ?cp = "builder_compilers ?new w fs clang"
  have b: "bs_toolchains (sv_state sv) = discovery_toolchains ?cp" and u: "i \<in> fst ` set (bs_toolchains (sv_state sv))"
    using builder_service_new_ok [OF assms(1)] assms(2-4) by (auto simp: announced_names)
  then obtain tc where tc: "map_of (bs_toolchains (sv_state sv)) i = Some tc"
    by (metis dom_map_of_conv_image_fst domD)
  then have id: "tc_identifier tc = Some i" "tc \<in> set (vs_discovery ?new w fs) \<union> set (cp_discovery clang)"
    using discovery_toolchains_ok(2) [of ?cp i tc] b by (auto simp: builder_compilers_discovery)
  have "take 3 i = ''cl ''" using client(1) by (auto simp: vs_identifier_Some)
  then have "tc \<in> set (vs_discovery ?new w fs)" using id assms(5) by auto
  then obtain cl f where cl: "tc = ?new cl" "fs cl = Some f" by (auto simp: discovered)
  then have "vs_identifier va fs cl = Some i" using id by (simp add: win_toolchain_def)
  then show ?thesis using identifier_determines [of va fs cl i va' fs' p f f'] client tc cl by blast
qed

section \<open>The life of a builder\<close>

definition drop_current :: "'url builder_service option \<Rightarrow> 'url builder_service list" where
  "drop_current builder = map builder_service_drop (case builder of None \<Rightarrow> [] | Some old \<Rightarrow> [old])"

definition stopped :: "'url builder_service \<Rightarrow> bool" where
  "stopped sv \<longleftrightarrow> sv_done sv \<and> sv_anoncer sv = None"

lemma drop_current_stopped [simp]: "sv \<in> set (drop_current builder) \<Longrightarrow> stopped sv"
  by (auto simp: drop_current_def stopped_def builder_service_drop_def split: option.splits)

lemma length_drop_current [simp]: "length (drop_current builder) = (if builder = None then 0 else 1)"
  by (auto simp: drop_current_def split: option.split)

lemmas builder_signals_drop = builder_signals.simps [folded drop_current_def]

declare builder_signals.simps [simp del]

lemma builder_signals_dropped:
  "builder_signals sigs builder dropped = Inr (builder', dropped') \<Longrightarrow>
     \<exists>more. dropped' = dropped @ more \<and> (\<forall>sv \<in> set more. stopped sv) \<and>
       length more + (if builder' = None then 0 else 1) =
         (if builder = None then 0 else 1) + count_list (map snd sigs) Start_Signal"
proof (induction sigs builder dropped rule: builder_signals.induct)
  case (1 builder dropped)
  then show ?case by (simp add: builder_signals_drop)
next
  case (2 h sigs builder dropped)
  obtain sv where sv: "builder_service_new h = Inr sv"
    "builder_signals sigs (Some sv) (dropped @ drop_current builder) = Inr (builder', dropped')"
    using "2.prems" by (auto simp: builder_signals_drop rbind_eq_Inr)
  from "2.IH" [folded drop_current_def, OF sv] obtain xs where
    xs: "dropped' = (dropped @ drop_current builder) @ xs" "\<forall>sv \<in> set xs. stopped sv"
      "length xs + (if builder' = None then 0 else 1) = 1 + count_list (map snd sigs) Start_Signal" by auto
  show ?case by (rule exI [of _ "drop_current builder @ xs"]) (use xs in auto)
next
  case (3 h sigs builder dropped)
  then show ?case by (auto simp: builder_signals_drop)
next
  case (4 h sigs builder dropped)
  have "builder_signals sigs None (dropped @ drop_current builder) = Inr (builder', dropped')"
    using "4.prems" by (simp add: builder_signals_drop)
  from "4.IH" [folded drop_current_def, OF this] obtain xs where
    xs: "dropped' = (dropped @ drop_current builder) @ xs" "\<forall>sv \<in> set xs. stopped sv"
      "length xs + (if builder' = None then 0 else 1) = count_list (map snd sigs) Start_Signal" by auto
  show ?case by (rule exI [of _ "drop_current builder @ xs"]) (use xs in auto)
qed

text \<open>Whatever signals the builder's daemon gets, when its main function ends every service it ever started has
  been told to stop and its announcing thread joined, one for every start; and none is lost or stopped twice.\<close>

theorem builder_main_stops_all:
  assumes "builder_main sigs = Inr dropped"
  shows "(\<forall>sv \<in> set dropped. sv_done sv \<and> sv_anoncer sv = None) \<and>
    length dropped = count_list (map snd sigs) Start_Signal"
proof -
  obtain builder' dropped' where b: "builder_signals sigs None [] = Inr (builder', dropped')"
    "dropped = dropped' @ drop_current builder'"
    using assms by (auto simp: builder_main_def rbind_eq_Inr drop_current_def)
  have "\<forall>sv \<in> set dropped. stopped sv" "length dropped = count_list (map snd sigs) Start_Signal"
    using builder_signals_dropped [OF b(1)] b(2) by auto
  then show ?thesis by (simp add: stopped_def)
qed

section \<open>An example\<close>

text \<open>A builder with one compiler, a small executable.\<close>

definition le_u32 :: "bytes \<Rightarrow> 32 word" where
  "le_u32 bs = foldr (\<lambda>b acc. push_bit 8 acc OR ucast b) bs 0"

definition sample_pe :: bytes where
  "sample_pe = mz_signature @ replicate 58 0 @ [0x40, 0, 0, 0] @
     pe_signature @ replicate 4 0 @ [1, 2, 3, 0x5F] @ replicate 68 0 @ [0, 0x10, 0, 0]"

lemma sample_pe_fields:
  "header_field 0x3C sample_pe = [0x40, 0, 0, 0]" "header_field 0x40 sample_pe = pe_signature"
  "header_field 0x48 sample_pe = [1, 2, 3, 0x5F]" "header_field 0x90 sample_pe = [0, 0x10, 0, 0]"
  "length sample_pe = 148" "take 2 sample_pe = mz_signature"
  by (simp_all add: header_field_def sample_pe_def mz_signature_def pe_signature_def)

lemma sample_pe_ok:
  "pe_file le_u32 sample_pe" "unat (pe_stamp le_u32 sample_pe) = 0x5F030201" "unat (pe_size le_u32 sample_pe) = 0x1000"
proof -
  have "pe_offset le_u32 sample_pe = 0x40" by (simp add: pe_offset_def sample_pe_fields le_u32_def)
  then show "pe_file le_u32 sample_pe" "unat (pe_stamp le_u32 sample_pe) = 0x5F030201" "unat (pe_size le_u32 sample_pe) = 0x1000"
    by (simp_all add: pe_file_def pe_stamp_def pe_size_def sample_pe_fields le_u32_def)
qed

definition sample_version_api :: "unit version_api" where
  "sample_version_api = \<lparr>va_encode_wide = map of_char, va_info_size = (\<lambda>_. 1), va_info = (\<lambda>_ _. Some ()),
     va_query_translation = (\<lambda>_ _. Some (0x409, 0x4B0)), va_query_text = (\<lambda>_ _. Some ([], 1)), va_from_utf16 = (\<lambda>_. ''19''),
     va_read_u32 = le_u32\<rparr>"

definition installed_cl :: path where
  "installed_cl = win_join ''C:'' ''bin/cl.exe''"

definition sample_windows_fs :: filesystem where
  "sample_windows_fs = [installed_cl \<mapsto> \<lparr>f_data = sample_pe, f_mtime = 0\<rparr>]"

definition sample_windows :: windows_host where
  "sample_windows = \<lparr>wh_open_key = (\<lambda>_. Some \<lparr>rk_values = [Inr ''14.0''], rk_get = (\<lambda>_. Some ''C:'')\<rparr>), wh_version_re = (\<lambda>_. True)\<rparr>"

definition builder_vs_host :: vs_host where
  "builder_vs_host = \<lparr>vsh_run = (\<lambda>_ _ fs. (Inl not_found, fs)), vsh_junk = (\<lambda>_. 0), vsh_ansi = Inr, vsh_uuid = ''u'', vsh_now = 0,
     vsh_temp = ''/t'', vsh_env = Map.empty, vsh_regex = id\<rparr>"

definition sample_win_toolchain :: "path \<Rightarrow> toolchain" where
  "sample_win_toolchain = win_toolchain builder_vs_host ''o'' (\<lambda>_ _. Inl []) sample_version_api sample_windows_fs"

definition no_clang :: compiler where
  "no_clang = \<lparr>cp_resolve = Map.empty, cp_discovery = []\<rparr>"

definition sample_identifier :: string where
  "sample_identifier = ''cl 19 '' @ show_hex True 0x5F030201 @ show_hex False 0x1000"

lemma installed_cl_identifier: "vs_identifier sample_version_api sample_windows_fs installed_cl = Some sample_identifier"
  by (simp add: vs_identifier_Some product_version_def sample_version_api_def translation_key_def sample_windows_fs_def sample_pe_ok
      sample_identifier_def)

definition sample_service_host :: "string service_host" where
  "sample_service_host = \<lparr>sh_config = Inr (sample_config\<lparr>cf_coordinator := Some ''c''\<rparr>), sh_temp_dir = Inr ''/t'', sh_hostname = Inr ''b'',
     sh_semaphore = (\<lambda>_. Inr ()), sh_compilers = (\<lambda>_. builder_compilers sample_win_toolchain sample_windows sample_windows_fs no_clang),
     sh_listen = Inr, sh_uuid = ''g'', sh_version = ''1'', sh_addr = sample_addr_text, sh_fs = Map.empty\<rparr>"

lemma installed_cl_discovered:
  "sample_win_toolchain installed_cl \<in> set (vs_discovery sample_win_toolchain sample_windows sample_windows_fs)"
proof -
  have "''C:'' \<in> set (installations sample_windows)"
    by (simp add: installations_def sample_windows_def vc_reg_def List.map_filter_def key_installations_def ok_values_def)
  moreover have "''bin/cl.exe'' \<in> set cl_bin" by (simp add: cl_bin_def)
  moreover have "tc_identifier (sample_win_toolchain installed_cl) \<noteq> None"
    by (simp add: sample_win_toolchain_def win_toolchain_def installed_cl_identifier)
  moreover have "sample_windows_fs (win_join ''C:'' ''bin/cl.exe'') \<noteq> None"
    by (simp add: sample_windows_fs_def installed_cl_def)
  ultimately show ?thesis unfolding discovered installed_cl_def by blast
qed

lemma sample_service:
  "\<exists>sv u. builder_service_new sample_service_host = Inr sv \<and> sv_anoncer sv = Some (u, ''c'') \<and>
     sample_identifier \<in> set (bi_toolchains (bu_info u))"
proof -
  let ?cp = "builder_compilers sample_win_toolchain sample_windows sample_windows_fs no_clang"
  obtain b where b: "builder_state_new sample_service_host (sample_config\<lparr>cf_coordinator := Some ''c''\<rparr>) = Inr b"
      "bs_toolchains b = discovery_toolchains ?cp"
    by (auto simp: builder_state_new_def sample_service_host_def unwrap_def shared_state_new_def)
  have "tc_identifier (sample_win_toolchain installed_cl) = Some sample_identifier"
    by (simp add: sample_win_toolchain_def win_toolchain_def installed_cl_identifier)
  then have "sample_identifier \<in> fst ` set (bs_toolchains b)"
    unfolding b(2) discovery_toolchains_ok(3) builder_compilers_discovery set_append using installed_cl_discovered by blast
  moreover have config: "sh_config sample_service_host = Inr (sample_config\<lparr>cf_coordinator := Some ''c''\<rparr>)"
    "sh_listen sample_service_host = Inr" by (simp_all add: sample_service_host_def)
  ultimately show ?thesis
    using b(1) by (simp add: builder_service_new_def config unwrap_def announced_names)
qed

lemma announced_toolchain_is_the_same_witness:
  "\<exists>sv. builder_service_new sample_service_host = Inr sv \<and>
     (\<exists>cl f. map_of (bs_toolchains (sv_state sv)) sample_identifier = Some (sample_win_toolchain cl) \<and> sample_windows_fs cl = Some f)"
proof -
  obtain sv u where sv: "builder_service_new sample_service_host = Inr sv" "sv_anoncer sv = Some (u, ''c'')"
    "sample_identifier \<in> set (bi_toolchains (bu_info u))"
    using sample_service by blast
  have compilers: "sh_compilers sample_service_host = (\<lambda>_. builder_compilers (win_toolchain builder_vs_host ''o'' (\<lambda>_ _. Inl [])
      sample_version_api sample_windows_fs) sample_windows sample_windows_fs no_clang)"
    by (simp add: sample_service_host_def sample_win_toolchain_def [abs_def])
  have "\<forall>tc \<in> set (cp_discovery no_clang). \<forall>name. tc_identifier tc = Some name \<longrightarrow> take 3 name \<noteq> ''cl ''"
    by (simp add: no_clang_def)
  moreover have "sample_windows_fs installed_cl = Some \<lparr>f_data = sample_pe, f_mtime = 0\<rparr>" by (simp add: sample_windows_fs_def)
  moreover have "0x10000000 \<le> unat (pe_stamp (va_read_u32 sample_version_api) (f_data \<lparr>f_data = sample_pe, f_mtime = 0\<rparr>))"
    by (simp add: sample_version_api_def sample_pe_ok)
  ultimately show ?thesis
    using announced_toolchain_is_the_same [OF sv compilers _ installed_cl_identifier] sv(1)
    unfolding sample_win_toolchain_def by blast
qed

lemma builder_main_stops_all_witness:
  "\<exists>dropped. builder_main [(sample_service_host, Start_Signal), (sample_service_host, Reload_Signal), (sample_service_host, Stop_Signal)]
      = Inr dropped \<and> length dropped = 1"
proof -
  obtain sv where sv: "builder_service_new sample_service_host = Inr sv" using sample_service by blast
  have "builder_main [(sample_service_host, Start_Signal), (sample_service_host, Reload_Signal), (sample_service_host, Stop_Signal)]
      = Inr (drop_current (Some sv))"
    by (simp add: builder_main_def builder_signals_drop sv) (simp add: drop_current_def)
  then show ?thesis using builder_main_stops_all by fastforce
qed

end
