(* ===== verification/Startup.thy ===== *)
theory Startup
  imports Simple Slow_Ops Xg_Schedule
begin

text \<open>
  The programs \<open>octo_cl\<close>, \<open>octo_clang\<close> and \<open>xgConsole\<close> (\<open>src/bin/octo_cl.rs\<close>, \<open>src/bin/octo_clang.rs\<close>,
  \<open>src/bin/xgConsole.rs\<close>) from their start to their exit code: \<open>simple_compile\<close> and \<open>compile\<close> of \<open>src/simple.rs\<close>
  with \<open>CommandInfo::simple\<close> of \<open>src/compiler.rs\<close>, \<open>execute\<close> of \<open>xgConsole\<close>, and the executor put together; and the
  loop of the test tool \<open>src/bin/filter_cl.rs\<close>.

  The executor runs in threads, so that a program may end in several ways: \<open>outcome\<close> holds of the results a
  task may have, and the programs are relations between the environment and the exit code.
\<close>

section \<open>A run of the executor\<close>

definition finishes ::
    "('n \<Rightarrow> output_info result \<Rightarrow> bool) \<Rightarrow> ('n build_result \<Rightarrow> unit result) \<Rightarrow> 'n execution \<Rightarrow> exit_result \<Rightarrow> bool" where
  "finishes outcome update ex r =
     (case ex of
        Returned r' \<Rightarrow> r = r'
      | Started g workers _ \<Rightarrow> \<exists>s. reachable g outcome update workers s \<and> sy_phase s = Finished r)"

text \<open>What the value says of the tasks: the result of the theorem on the threads, also for the graphs that are handled at once.\<close>

lemma execution_ends:
  assumes g: "graph_ok g" "simple_graph g" "acyclic (edges g)" and run: "\<forall>t. outcome t (run t)"
    and ends: "finishes outcome update (execute_graph run update g limit) r"
  shows "case r of
      Inr c \<Rightarrow> if c = Some 0 then \<forall>t \<in> set (node_weights g). \<exists>out. outcome t (Inr out) \<and> success out
               else \<exists>t \<in> set (node_weights g). \<exists>out. outcome t (Inr out) \<and> oi_status out = c
    | Inl x \<Rightarrow> (\<exists>t \<in> set (node_weights g). outcome t (Inl x)) \<or> (\<exists>b. update b = Inl x)"
proof -
  have valid: "validate_graph g = Inr g" using validate_graph_result [OF g(1)] g(3) by simp
  consider "node_weights g = []" | t where "node_weights g = [t]" | "1 < node_count g"
    by (cases "node_weights g"; cases "tl (node_weights g)") (auto simp: node_count_def)
  then show ?thesis
  proof cases
    case 1
    then show ?thesis using ends valid by (simp add: finishes_def execute_graph_def node_count_def)
  next
    case (2 t)
    obtain b where r: "r = rbind (update b) (\<lambda>_. rbind (run t) (\<lambda>out. Inr (oi_status out)))"
      using ends valid 2 by (auto simp: finishes_def execute_graph_def node_count_def Let_def)
    have t: "outcome t (run t)" using run by simp
    show ?thesis
    proof (cases "update b")
      case (Inl x)
      then show ?thesis using r by auto
    next
      case (Inr u)
      then show ?thesis using r t unfolding 2 by (cases "run t") (auto simp: success_def)
    qed
  next
    case 3
    then obtain s where s: "reachable g outcome update (max 1 (min limit (node_count g))) s" "sy_phase s = Finished r"
      using ends valid by (auto simp: finishes_def execute_graph_def Let_def)
    have nth: "node_weights g ! t \<in> set (node_weights g)" if "t < node_count g" for t using that by (simp add: node_count_def)
    have all: "\<exists>t < node_count g. node_weights g ! t = n" if "n \<in> set (node_weights g)" for n
      using that by (auto simp: in_set_conv_nth node_count_def)
    note ended = execution_value [OF g(1,2) _ s]
    show ?thesis
    proof (cases r)
      case (Inl x)
      then show ?thesis using ended 3 nth by fastforce
    next
      case (Inr c)
      show ?thesis
      proof (cases "c = Some 0")
        case True
        then have "\<forall>t < node_count g. \<exists>out. outcome (node_weights g ! t) (Inr out) \<and> success out"
          using ended 3 Inr by simp
        then show ?thesis using Inr True all by force
      next
        case False
        then have "\<exists>t < node_count g. \<exists>out. outcome (node_weights g ! t) (Inr out) \<and> oi_status out = c"
          using ended 3 Inr by simp
        then show ?thesis using Inr False nth by force
      qed
    qed
  qed
qed

section \<open>The programs\<close>

definition command_simple :: "host \<Rightarrow> path \<Rightarrow> path option \<Rightarrow> (string \<times> string) list \<Rightarrow> command_info" where
  "command_simple os p cwd vars = \<lparr>cmd_program = p, cmd_dir = cwd, cmd_env = env_from_iter os vars\<rparr>"

text \<open>What the process starts with: its arguments (the program first), its directory and its variables, and what the executor
  may make of a task. \<open>remote\<close> is \<open>RemoteCompiler::new\<close> for the configured coordinator.\<close>

record 'url program_env =
  pe_os :: host
  pe_args :: "string list"
  pe_dir :: "path option"
  pe_vars :: "(string \<times> string) list"
  pe_debug :: "string list \<Rightarrow> string"
  pe_view :: "build_task graph_log \<Rightarrow> build_task graph"
  pe_remote :: "'url option \<Rightarrow> compiler \<Rightarrow> compiler"
  pe_config :: "'url config result"
  pe_semaphore :: "nat \<Rightarrow> unit result"
  pe_fs :: filesystem
  pe_stdout :: "bytes \<Rightarrow> unit result"
  pe_stderr :: "bytes \<Rightarrow> unit result"
  pe_outcome :: "build_task \<Rightarrow> output_info result \<Rightarrow> bool"

definition program_actions :: "'url program_env \<Rightarrow> path \<Rightarrow> 'url config \<Rightarrow> compiler \<Rightarrow> build_action list result" where
  "program_actions e exec cfg cp =
     compile_actions (pe_remote e (cf_coordinator cfg)) cp (command_simple (pe_os e) exec (pe_dir e) (pe_vars e)) (pe_args e)"

definition compile_ends :: "'url program_env \<Rightarrow> path \<Rightarrow> 'url config \<Rightarrow> compiler \<Rightarrow> exit_result \<Rightarrow> bool" where
  "compile_ends e exec cfg cp r \<longleftrightarrow>
     (case program_actions e exec cfg cp of
        Inl x \<Rightarrow> r = Inl x
      | Inr actions \<Rightarrow>
          \<exists>run. (\<forall>t. pe_outcome e t (run t)) \<and>
            finishes (pe_outcome e) (print_output (pe_stdout e) (pe_stderr e))
              (simple_build (pe_debug e) (pe_view e) run (print_output (pe_stdout e) (pe_stderr e))
                (unat (cf_process_limit cfg)) actions) r)"

definition program_exits :: "'url program_env \<Rightarrow> path \<Rightarrow> ('url config \<Rightarrow> compiler result) \<Rightarrow> int \<Rightarrow> bool" where
  "program_exits e exec factory code \<longleftrightarrow>
     (\<exists>r. (\<forall>cfg cp. pe_config e = Inr cfg \<longrightarrow> factory cfg = Inr cp \<longrightarrow> compile_ends e exec cfg cp r) \<and>
        simple_compile (pe_config e) (shared_state_new (pe_semaphore e) (pe_fs e)) factory (\<lambda>_ _ _. r) = Inr code)"

text \<open>\<open>temp_dir\<close> is \<open>TempDir::new\<close>; \<open>vs\<close> and \<open>clang\<close> are the compilers of \<open>VsCompiler::new\<close> and \<open>ClangCompiler::new\<close>.\<close>

definition octo_cl_exits :: "'url program_env \<Rightarrow> path result \<Rightarrow> (path \<Rightarrow> compiler) \<Rightarrow> int \<Rightarrow> bool" where
  "octo_cl_exits e temp_dir vs code = program_exits e ''cl.exe'' (\<lambda>_. map_sum id vs temp_dir) code"

definition octo_clang_exits :: "'url program_env \<Rightarrow> compiler \<Rightarrow> int \<Rightarrow> bool" where
  "octo_clang_exits e clang code = program_exits e ''clang'' (\<lambda>_. Inr clang) code"

section \<open>The exit code\<close>

definition action_task :: "'url program_env \<Rightarrow> build_action \<Rightarrow> build_task" where
  "action_task e a = \<lparr>bt_title = action_title (pe_debug e) a, bt_action = a\<rparr>"

lemma view_log_weights:
  assumes "graph_view view"
  shows "node_weights (view (add_tasks debug actions log_new)) = map (\<lambda>a. \<lparr>bt_title = action_title debug a, bt_action = a\<rparr>) actions"
proof -
  have "log_ok (add_tasks debug actions log_new)"
    using add_tasks_log [of debug actions log_new] by (simp add: log_ok_def log_new_def)
  then show ?thesis using add_tasks_log [of debug actions log_new] view_nodes [OF assms] by (simp add: log_new_def)
qed

lemma build_ends:
  assumes "graph_view (pe_view e)" "\<forall>t. pe_outcome e t (run t)"
    and ends: "finishes (pe_outcome e) update (simple_build (pe_debug e) (pe_view e) run update limit actions) r"
  shows "case r of
      Inr c \<Rightarrow> if c = Some 0 then \<forall>a \<in> set actions. \<exists>out. pe_outcome e (action_task e a) (Inr out) \<and> success out
               else \<exists>a \<in> set actions. \<exists>out. pe_outcome e (action_task e a) (Inr out) \<and> oi_status out = c
    | Inl x \<Rightarrow> (\<exists>a \<in> set actions. pe_outcome e (action_task e a) (Inl x)) \<or> (\<exists>b. update b = Inl x)"
proof -
  let ?g = "pe_view e (add_tasks (pe_debug e) actions log_new)"
  have w: "node_weights ?g = map (action_task e) actions"
    using view_log_weights [OF assms(1), of "pe_debug e" actions] by (simp add: action_task_def [abs_def])
  have g: "graph_ok ?g" "simple_graph ?g" "acyclic (edges ?g)"
    using simple_graph_good [OF assms(1), of "pe_debug e" actions] by (simp_all add: acyclic_def)
  from execution_ends [OF g assms(2) ends [unfolded simple_build_def]] show ?thesis
    unfolding w by (auto split: sum.splits if_splits)
qed

text \<open>A panic does not give an exit code.\<close>

lemma or_exit_eq: "or_exit n x f = Inr code \<longleftrightarrow> (\<exists>k m. x = Inl (IoError k m) \<and> code = n) \<or> (\<exists>v. x = Inr v \<and> f v = Inr code)"
  by (auto simp: or_exit_def split: sum.splits failure.splits)

text \<open>C10: A program that takes the place of a compiler exits with 0 only if all the tasks of the call may end with success
  (then the caller may go on); another exit code is one of the four of its own, or the status of a task.\<close>

theorem program_exit_code:
  assumes "graph_view (pe_view e)" "program_exits e exec factory code"
  defines "tasks cfg cp \<equiv> build_create_tasks (pe_remote e (cf_coordinator cfg) cp)
    (command_simple (pe_os e) exec (pe_dir e) (pe_vars e)) (tl (pe_args e))"
  shows "if code = 0 then
      \<exists>cfg cp. pe_config e = Inr cfg \<and> factory cfg = Inr cp \<and>
        (\<forall>a \<in> set (tasks cfg cp). \<exists>out. pe_outcome e (action_task e a) (Inr out) \<and> success out)
    else code \<in> {500, 501, 502, 503} \<or>
      (\<exists>cfg cp. pe_config e = Inr cfg \<and> factory cfg = Inr cp \<and>
        (\<exists>a \<in> set (tasks cfg cp). \<exists>out. pe_outcome e (action_task e a) (Inr out) \<and> oi_status out = Some code))"
proof (cases "code \<in> {500, 501, 502, 503}")
  case False
  obtain r where r: "\<forall>cfg cp. pe_config e = Inr cfg \<longrightarrow> factory cfg = Inr cp \<longrightarrow> compile_ends e exec cfg cp r"
    "simple_compile (pe_config e) (shared_state_new (pe_semaphore e) (pe_fs e)) factory (\<lambda>_ _ _. r) = Inr code"
    using assms(2) by (auto simp: program_exits_def)
  then obtain cfg st cp status where ok: "pe_config e = Inr cfg" "factory cfg = Inr cp" "r = Inr (Some code)"
    using False by (auto simp: simple_compile_def or_exit_eq split: option.splits)
  then have ends: "compile_ends e exec cfg cp (Inr (Some code))" using r(1) by blast
  then obtain run where "\<forall>t. pe_outcome e t (run t)" and
    fin: "finishes (pe_outcome e) (print_output (pe_stdout e) (pe_stderr e))
      (simple_build (pe_debug e) (pe_view e) run (print_output (pe_stdout e) (pe_stderr e)) (unat (cf_process_limit cfg))
        (tasks cfg cp)) (Inr (Some code))"
    by (auto simp: compile_ends_def program_actions_def compile_actions_def tasks_def split: if_splits)
  from build_ends [OF assms(1) this(1) fin] show ?thesis
    using False ok by (auto simp: tasks_def split: if_splits)
qed auto

text \<open>A command no compiler knows, which is run as it is and succeeds.\<close>

definition sample_program_env :: "string program_env" where
  "sample_program_env = \<lparr>pe_os = Unix, pe_args = [''octo_cl''], pe_dir = None, pe_vars = [], pe_debug = concat, pe_view = list_view,
     pe_remote = (\<lambda>_ cp. cp), pe_config = Inr sample_config, pe_semaphore = (\<lambda>_. Inr ()), pe_fs = Map.empty,
     pe_stdout = (\<lambda>_. Inr ()), pe_stderr = (\<lambda>_. Inr ()), pe_outcome = (\<lambda>_ r. r = Inr ok_output)\<rparr>"

definition unknown_compiler :: compiler where
  "unknown_compiler = \<lparr>cp_resolve = Map.empty, cp_discovery = []\<rparr>"

lemma sample_program: "program_exits sample_program_env ''cl.exe'' (\<lambda>_. Inr unknown_compiler) 0"
proof -
  let ?c = "command_simple Unix ''cl.exe'' None []"
  let ?b = "simple_build concat list_view (\<lambda>_. Inr ok_output) (print_output (\<lambda>_. Inr ()) (\<lambda>_. Inr ()))"
  have one: "build_create_tasks unknown_compiler ?c [] = [Exec ?c []]"
    by (simp add: build_create_tasks_def create_tasks_def unknown_compiler_def)
  have silent: "print_output (\<lambda>_. Inr ()) (\<lambda>_. Inr ()) b = Inr ()" for b :: "build_task build_result"
    by (simp add: print_output_def split: sum.split)
  have "finishes (\<lambda>_ r. r = Inr ok_output) (print_output (\<lambda>_. Inr ()) (\<lambda>_. Inr ())) (?b limit [Exec ?c []]) (Inr (Some 0))" for limit
    using simple_build_cases [OF list_view_ok, where debug = concat and run = "\<lambda>_. Inr ok_output" and process_limit = limit
        and update = "print_output (\<lambda>_. Inr ()) (\<lambda>_. Inr ())" and cp = unknown_compiler and command = ?c and args = "[]"]
    unfolding one by (auto simp: finishes_def silent ok_output_def node_count_def split: execution.splits dest: arg_cong [where f = length])
  then have "compile_ends sample_program_env ''cl.exe'' cfg unknown_compiler (Inr (Some 0))" for cfg
    by (auto simp: compile_ends_def program_actions_def compile_actions_def sample_program_env_def one intro!: exI [of _ "\<lambda>_. Inr ok_output"])
  then have "\<forall>cfg cp. pe_config sample_program_env = Inr cfg \<longrightarrow> (Inr unknown_compiler :: compiler result) = Inr cp \<longrightarrow>
      compile_ends sample_program_env ''cl.exe'' cfg cp (Inr (Some 0))" by simp
  moreover have "simple_compile (pe_config sample_program_env)
      (shared_state_new (pe_semaphore sample_program_env) (pe_fs sample_program_env)) (\<lambda>_. Inr unknown_compiler)
      (\<lambda>_ _ _. Inr (Some 0)) = Inr 0"
    by (simp add: simple_compile_def or_exit_def sample_program_env_def shared_state_new_def)
  ultimately show ?thesis unfolding program_exits_def by blast
qed

lemma program_exit_code_witness:
  "\<exists>cfg cp. pe_config sample_program_env = Inr cfg \<and> (Inr unknown_compiler :: compiler result) = Inr cp"
  using program_exit_code [OF _ sample_program] list_view_ok by (auto simp: sample_program_env_def)

section \<open>The console\<close>

text \<open>\<open>execute\<close> of \<open>xgConsole\<close>: the value of the executor is returned after the cache has been cleaned up, whose result is not
  looked at. \<open>println\<close> prints the line of a task.\<close>

definition console_update :: "'url program_env \<Rightarrow> (string \<Rightarrow> unit result) \<Rightarrow> build_task build_result \<Rightarrow> unit result" where
  "console_update e println = print_task_result println (pe_stdout e) (pe_stderr e)"

definition console_ends ::
    "'url program_env \<Rightarrow> console \<Rightarrow> (xg_node graph_log \<Rightarrow> xg_node graph) \<Rightarrow> path result \<Rightarrow> (path \<Rightarrow> compiler) \<Rightarrow>
     (string \<Rightarrow> unit result) \<Rightarrow> string list \<Rightarrow> exit_result \<Rightarrow> bool" where
  "console_ends e co xview temp_dir compilers println args r \<longleftrightarrow>
     (case rbind (pe_config e) (\<lambda>cfg.
        rbind (shared_state_new (pe_semaphore e) (pe_fs e) cfg) (\<lambda>_. rbind temp_dir (\<lambda>temp. Inr (cfg, temp)))) of
        Inl x \<Rightarrow> r = Inl x
      | Inr (cfg, temp) \<Rightarrow>
          \<exists>run. (\<forall>t. pe_outcome e t (run t)) \<and>
            finishes (pe_outcome e) (console_update e println)
              (console_execute co xview (pe_view e) (pe_remote e (cf_coordinator cfg) (compilers temp)) run
                (console_update e println) (unat (cf_process_limit cfg)) args) r)"

text \<open>C18: xgConsole exits with 0 only if the command line gave a graph and each of its actions may end with success; 500 and 501 are
  its own, any other exit code is the status of an action.\<close>

theorem console_exit_code:
  assumes "graph_view xview" "graph_view (pe_view e)" "xg_host_ok (co_xg co)"
    "console_ends e co xview temp_dir compilers println args r"
  defines "plan cfg temp \<equiv> console_graph co xview (pe_view e) (pe_remote e (cf_coordinator cfg) (compilers temp)) args"
  shows "if console_exit r = 0 then
      \<exists>cfg temp h. pe_config e = Inr cfg \<and> temp_dir = Inr temp \<and> plan cfg temp = Inr h \<and>
        (\<forall>t \<in> set (node_weights h). \<exists>out. pe_outcome e t (Inr out) \<and> success out)
    else console_exit r \<in> {500, 501} \<or>
      (\<exists>cfg temp h. pe_config e = Inr cfg \<and> temp_dir = Inr temp \<and> plan cfg temp = Inr h \<and>
        (\<exists>t \<in> set (node_weights h). \<exists>out. pe_outcome e t (Inr out) \<and> oi_status out = Some (console_exit r)))"
proof (cases "\<exists>c. r = Inr (Some c)")
  case True
  then obtain c where r: "r = Inr (Some c)" by blast
  then obtain cfg st temp where ok: "pe_config e = Inr cfg" "temp_dir = Inr temp"
      "shared_state_new (pe_semaphore e) (pe_fs e) cfg = Inr st"
    using assms(4) by (cases "pe_config e"; cases temp_dir; cases "shared_state_new (pe_semaphore e) (pe_fs e) (projr (pe_config e))")
      (auto simp: console_ends_def)
  then obtain run where run: "\<forall>t. pe_outcome e t (run t)"
    "finishes (pe_outcome e) (console_update e println)
      (console_execute co xview (pe_view e) (pe_remote e (cf_coordinator cfg) (compilers temp)) run
        (console_update e println) (unat (cf_process_limit cfg)) args) r"
    using assms(4) by (auto simp: console_ends_def)
  then obtain h where h: "plan cfg temp = Inr h"
    using r by (cases "plan cfg temp") (auto simp: console_execute_def plan_def finishes_def)
  have good: "graph_ok h" "simple_graph h" "acyclic (edges h)"
    using console_graph_good [OF assms(1-3), of "pe_remote e (cf_coordinator cfg) (compilers temp)" args] h by (simp_all add: plan_def)
  have "finishes (pe_outcome e) (console_update e println)
      (execute_graph run (console_update e println) h (unat (cf_process_limit cfg))) r"
    using run(2) h by (simp add: console_execute_def plan_def)
  from execution_ends [OF good run(1) this] show ?thesis
    using r ok h by (auto simp: console_exit_def split: if_splits)
next
  case False
  then show ?thesis by (auto simp: console_exit_def split: sum.splits option.splits)
qed

text \<open>The build of two commands, run by one worker.\<close>

lemma sample_build_finished:
  "\<exists>s. reachable sample_build (\<lambda>_ r. r = Inr ok_output) (\<lambda>_. Inr ()) 1 s \<and> sy_phase s = Finished (Inr (Some 0))"
proof -
  note defs = sample_build_def list_view_def node_count_def ok_output_def success_def receive_def
    handle_message_def get_flag_def is_ready_def build_result_new_def Let_def numeral_2_eq_2 sample_ran_def
  let ?run = "reachable sample_build (\<lambda>_ r. r = Inr ok_output) (\<lambda>_. Inr ()) 1"
  let ?ended = "\<lambda>p. (sample_ran [] [True, True] None 2 [1, 0])\<lparr>sy_phase := p\<rparr>"
  have 1: "?run ((sample_ran [] [False, True] None 1 [1, 0])\<lparr>sy_results := [\<lparr>rm_index = 0, rm_worker = 0, rm_result = Inr ok_output\<rparr>]\<rparr>)"
    using reachable.more [OF sample_build_run step.finish_task [where w = 0 and t = 0 and r = "Inr ok_output"]] by (simp add: sample_ran_def)
  have 2: "?run (?ended (Cleanup (Inr (Some 0))))"
    using reachable.more [OF 1 step.receive_result] by (simp add: defs)
  have 3: "?run (?ended (Draining (Inr (Some 0))))"
    using reachable.more [OF 2 step.clear_end [where r = "Inr (Some 0)"]] by (simp add: sample_ran_def)
  have "?run (?ended (Finished (Inr (Some 0))))"
    using reachable.more [OF 3 step.drain_end [where r = "Inr (Some 0)"]] by (simp add: sample_ran_def)
  then show ?thesis by force
qed

definition sample_console_env :: "string program_env" where
  "sample_console_env = sample_program_env\<lparr>pe_config := Inr one_worker_config\<rparr>"

lemma sample_console_graph: "console_graph sample_console list_view list_view no_compiler [''build.xml''] = Inr sample_build"
proof -
  have "parse_files sample_console [''build.xml''] log_new = Inr xg_sample_log"
    using xg_sample_parse by (simp add: sample_console_def)
  moreover have "validate_graph sample_commands = Inr sample_commands"
    using validate_graph_result [OF sample_commands_ok(1)] sample_commands_ok(3) by simp
  ultimately show ?thesis
    using sample_prepare by (simp add: console_graph_def is_flag_def expand_files_def) (simp add: sample_console_def is_flag_def expand_files_def)
qed

lemma sample_console_ends:
  "console_ends sample_console_env sample_console list_view (Inr ''/t'') (\<lambda>_. no_compiler) (\<lambda>_. Inr ()) [''build.xml''] (Inr (Some 0))"
proof -
  have silent: "console_update sample_console_env (\<lambda>_. Inr ()) = (\<lambda>_. Inr ())"
    by (rule ext) (simp add: console_update_def print_task_result_def sample_console_env_def sample_program_env_def split: sum.split)
  have "validate_graph sample_build = Inr sample_build"
    using validate_graph_result [OF sample_build_ok(2)] sample_build_ok(1) by simp
  moreover have "node_count sample_build = 2" by (simp add: sample_build_def list_view_def node_count_def)
  ultimately have "finishes (\<lambda>_ r. r = Inr ok_output) (\<lambda>_. Inr ())
      (execute_graph (\<lambda>_. Inr ok_output) (\<lambda>_. Inr ()) sample_build 0) (Inr (Some 0))"
    using sample_build_finished by (simp add: finishes_def execute_graph_def)
  then show ?thesis
    unfolding console_ends_def silent
    by (auto simp: sample_console_env_def sample_program_env_def shared_state_new_def one_worker_config_def console_execute_def
        sample_console_graph intro!: exI [of _ "\<lambda>_. Inr ok_output"])
qed

lemma console_exit_code_witness:
  "\<exists>h. console_graph sample_console list_view list_view no_compiler [''build.xml''] = Inr h \<and>
     (\<forall>t \<in> set (node_weights h). \<exists>out. pe_outcome sample_console_env t (Inr out) \<and> success out)"
proof -
  have "xg_host_ok (co_xg sample_console)" using xg_sample_host_ok by (simp add: sample_console_def)
  moreover have "pe_view sample_console_env = list_view" by (simp add: sample_console_env_def sample_program_env_def)
  ultimately show ?thesis
    using console_exit_code [OF list_view_ok _ _ sample_console_ends] list_view_ok
    by (auto simp: console_exit_def sample_console_env_def sample_program_env_def)
qed

section \<open>The test tool\<close>

text \<open>\<open>bench_filter\<close> filters a file \<open>num\<close> times; the average of the sizes is compared with the last one (\<open>usize\<close> is taken
  as large enough for the sum). No turn at all divides by zero.\<close>

fun bench_loop :: "(bytes \<Rightarrow> bytes result) \<Rightarrow> bytes \<Rightarrow> bytes option \<Rightarrow> bool \<Rightarrow> nat \<Rightarrow> nat \<Rightarrow> bytes \<Rightarrow> (nat \<times> bytes) result" where
  "bench_loop ansi source marker keep_headers 0 acc result = Inr (acc, result)"
| "bench_loop ansi source marker keep_headers (Suc n) acc result =
     (case filter_preprocessed vec_write ansi (file_reader source) [] marker keep_headers of
        Inl _ \<Rightarrow> Inl (Panic ''called Result::unwrap() on an Err value'')
      | Inr result \<Rightarrow> bench_loop ansi source marker keep_headers n (acc + length result) result)"

definition bench_filter :: "(bytes \<Rightarrow> bytes result) \<Rightarrow> bytes result \<Rightarrow> bytes option \<Rightarrow> bool \<Rightarrow> nat \<Rightarrow> bytes result" where
  "bench_filter ansi source marker keep_headers num =
     (case source of
        Inl _ \<Rightarrow> Inl (Panic ''called Result::unwrap() on an Err value'')
      | Inr source \<Rightarrow>
          rbind (bench_loop ansi source marker keep_headers num 0 []) (\<lambda>(acc, result).
            if num = 0 then Inl (Panic ''attempt to divide by zero'')
            else if acc div num = length result then Inr result
            else Inl (Panic ''assertion failed: total / num == result.len()'')))"

lemma bench_loop_ok:
  "filter_preprocessed vec_write ansi (file_reader source) [] marker keep = Inr out \<Longrightarrow>
     bench_loop ansi source marker keep n acc result = Inr (acc + n * length out, if n = 0 then result else out)"
  by (induction n arbitrary: acc result) auto

text \<open>The assertion of the tool never fails: the filter gives the same result every time.\<close>

lemma bench_filter_result:
  assumes "0 < num"
  shows "bench_filter ansi (Inr source) marker keep num =
    (case filter_preprocessed vec_write ansi (file_reader source) [] marker keep of
       Inl _ \<Rightarrow> Inl (Panic ''called Result::unwrap() on an Err value'')
     | Inr out \<Rightarrow> Inr out)"
proof (cases "filter_preprocessed vec_write ansi (file_reader source) [] marker keep")
  case (Inl x)
  then show ?thesis using assms by (cases num) (simp_all add: bench_filter_def)
next
  case (Inr out)
  then show ?thesis using assms bench_loop_ok [OF Inr] by (simp add: bench_filter_def)
qed

end
