(* ===== verification/Entry_Points.thy ===== *)
theory Entry_Points
  imports Startup
begin

text \<open>
  What remains of the \<open>main\<close> functions: the version \<open>xgConsole\<close> prints (\<open>src/version.rs\<close>), its \<open>main\<close>
  (\<open>src/bin/xgConsole.rs\<close>), the arguments of the test tool (\<open>src/bin/filter_cl.rs\<close>, the crate \<open>clap\<close> gives the arguments
  it has found), and the descriptions of the program's errors (\<open>std::error::Error::description\<close>), beside the texts they print.
\<close>

section \<open>xgConsole\<close>

definition full_version :: "string \<Rightarrow> string \<Rightarrow> string \<Rightarrow> string" where
  "full_version version arch os = version @ ''-'' @ arch @ ''-'' @ os"

text \<open>The lines \<open>main\<close> prints itself, and its exit code; the name of the program is the first argument. \<open>help\<close> are the lines of
  \<open>Config::help\<close> and whether it comes to its end, \<open>execute\<close> the value of \<open>execute\<close>; a panic is the exit code 101 of Rust.\<close>

definition console_main ::
    "string \<Rightarrow> string list \<times> unit result \<Rightarrow> (failure \<Rightarrow> string) \<Rightarrow> (string list \<Rightarrow> exit_result) \<Rightarrow> string list \<Rightarrow> string list \<times> int" where
  "console_main version help display execute args =
     (let head = (''xgConsole ('' @ version @ ''):'') # map (\<lambda>arg. ''  '' @ arg) args
      in if length args = 1 then
           let (ls, res) = help in (head @ [] # ls, case res of Inl _ \<Rightarrow> 101 | Inr _ \<Rightarrow> 0)
         else if args = [] then (head, 101)
         else case execute (tl args) of
                Inl (Panic m) \<Rightarrow> (head, 101)
              | Inl e \<Rightarrow> (head @ [''FATAL ERROR: '' @ display e], console_exit (Inl e))
              | Inr r \<Rightarrow> (head, console_exit (Inr r)))"

text \<open>With arguments, the exit code 0 is the one of a build.\<close>

lemma console_main_success:
  assumes "1 < length args"
  shows "snd (console_main version help display execute args) = 0 \<longleftrightarrow> console_exit (execute (tl args)) = 0"
proof -
  have "args \<noteq> []" using assms by auto
  then show ?thesis using assms by (auto simp: console_main_def console_exit_def Let_def split: sum.splits failure.splits option.splits)
qed

section \<open>The arguments of the test tool\<close>

text \<open>\<open>str::parse::<usize>\<close>.\<close>

definition parse_usize :: "string \<Rightarrow> nat option" where
  "parse_usize s =
     (let digits = (case s of CHR ''+'' # r \<Rightarrow> r | _ \<Rightarrow> s);
          n = foldl (\<lambda>n c. 10 * n + (of_char c - 48)) 0 digits
      in if digits \<noteq> [] \<and> list_all (\<lambda>c. 48 \<le> (of_char c :: nat) \<and> (of_char c :: nat) \<le> 57) digits \<and> n < 2 ^ 64 then Some n else None)"

record filter_matches =
  fm_input :: "string list option"
  fm_marker :: "string option"
  fm_keep :: bool
  fm_count :: "string option"

text \<open>\<open>read\<close> is \<open>fs::read\<close>.\<close>

fun bench_all :: "(bytes \<Rightarrow> bytes result) \<Rightarrow> (path \<Rightarrow> bytes result) \<Rightarrow> bytes option \<Rightarrow> bool \<Rightarrow> nat \<Rightarrow> path list \<Rightarrow> unit result" where
  "bench_all ansi read marker keep cnt [] = Inr ()"
| "bench_all ansi read marker keep cnt (input # inputs) =
     rbind (bench_filter ansi (read input) marker keep cnt) (\<lambda>_. bench_all ansi read marker keep cnt inputs)"

definition filter_cl_main :: "(bytes \<Rightarrow> bytes result) \<Rightarrow> (path \<Rightarrow> bytes result) \<Rightarrow> filter_matches \<Rightarrow> unit result" where
  "filter_cl_main ansi read m =
     (case fm_input m of
        None \<Rightarrow> Inl (Panic ''called Option::unwrap() on a None value'')
      | Some inputs \<Rightarrow>
          case parse_usize (case fm_count m of Some s \<Rightarrow> s | None \<Rightarrow> ''1'') of
            None \<Rightarrow> Inl (Panic ''called Result::unwrap() on an Err value'')
          | Some cnt \<Rightarrow> bench_all ansi read (map_option ascii (fm_marker m)) (fm_keep m) cnt inputs)"

text \<open>When the tool comes to its end.\<close>

lemma bench_filter_ends:
  "(\<exists>out. bench_filter ansi source marker keep num = Inr out) \<longleftrightarrow>
     0 < num \<and> (\<exists>text out. source = Inr text \<and> filter_preprocessed vec_write ansi (file_reader text) [] marker keep = Inr out)"
proof (cases "0 < num")
  case True
  then show ?thesis using bench_filter_result [OF True]
    by (cases source) (auto simp: bench_filter_def split: sum.splits)
next
  case False
  then show ?thesis by (simp add: bench_filter_def split: sum.split)
qed

lemma bench_all_ends:
  "bench_all ansi read marker keep cnt inputs = Inr () \<longleftrightarrow>
     list_all (\<lambda>p. \<exists>out. bench_filter ansi (read p) marker keep cnt = Inr out) inputs"
  by (induction inputs) (auto simp: rbind_def split: sum.splits)

lemma filter_cl_main_ends:
  "filter_cl_main ansi read m = Inr () \<longleftrightarrow>
     (\<exists>inputs cnt. fm_input m = Some inputs \<and> parse_usize (case fm_count m of Some s \<Rightarrow> s | None \<Rightarrow> ''1'') = Some cnt \<and>
        list_all (\<lambda>p. 0 < cnt \<and> (\<exists>text out. read p = Inr text \<and>
          filter_preprocessed vec_write ansi (file_reader text) [] (map_option ascii (fm_marker m)) (fm_keep m) = Inr out)) inputs)"
  by (simp add: filter_cl_main_def bench_all_ends bench_filter_ends split: option.split)

lemma parse_usize_samples:
  "parse_usize ''1'' = Some 1" "parse_usize ''+20'' = Some 20" "parse_usize [] = None" "parse_usize ''+'' = None"
  "parse_usize ''1k'' = None" "parse_usize ''18446744073709551615'' = Some 18446744073709551615"
  "parse_usize ''18446744073709551616'' = None"
  by (simp_all add: parse_usize_def)

section \<open>Descriptions of errors\<close>

primrec compiler_error_description :: "compiler_error \<Rightarrow> string" where
  "compiler_error_description (InvalidArguments a) = ''can't parse command line arguments''"
| "compiler_error_description (ToolchainNotFound p) = ''can't find toolchain''"

primrec cache_error_description :: "cache_error \<Rightarrow> string" where
  "cache_error_description (InvalidHeader p) = ''invalid cache file header''"
| "cache_error_description (InvalidFooter p) = ''invalid cache file footer''"
| "cache_error_description (PackedFilesMismatch p) = ''unexpected count of packed cached files''"
| "cache_error_description (MutexError m) = ''mutex error''"

primrec pp_description :: "postprocess_error \<Rightarrow> string" where
  "pp_description LiteralEol = ''unexpected end of line in literal''"
| "pp_description LiteralEof = ''unexpected end of stream in literal''"
| "pp_description LiteralTooLong = ''literal too long''"
| "pp_description EscapeEof = ''unexpected end of escape sequence''"
| "pp_description MarkerNotFound = ''can't find precompiled header marker in preprocessed file''"
| "pp_description InvalidLiteral = ''can't create string from literal''"
| "pp_description TokenTooLong = ''token too long''"

primrec xg_error_description :: "xg_parse_error \<Rightarrow> string" where
  "xg_error_description (AttributeNotFound attr) = ''attribute not found''"
| "xg_error_description (EnvironmentNotFound i) = [CHR 0xD1, CHR 0x81] @ ''an't find environment by id''"
| "xg_error_description (ToolNotFound i) = [CHR 0xD1, CHR 0x81] @ ''an't find tool by id''"
| "xg_error_description (DependencyNotFound i) = [CHR 0xD1, CHR 0x81] @ ''an't find task for dependency by id''"
| "xg_error_description InvalidStreamFormat = ''unexpected XML-stream root element''"
| "xg_error_description EndOfStream = ''unexpended end of stream''"
| "xg_error_description (XmlError e) = ''xml reading error''"

text \<open>The text of an error goes on from its description with what the error is about; the errors of the preprocessed source are
  about nothing more. (The errors of the parser of task files say ``by id'' in the one and ``with id'' in the other.)\<close>

lemma description_starts_display:
  "\<exists>rest. compiler_error_display e1 = compiler_error_description e1 @ rest"
  "\<exists>rest. cache_error_display e2 = cache_error_description e2 @ '': '' @ rest"
  "pp_display e3 = pp_description e3"
proof -
  show "\<exists>rest. compiler_error_display e1 = compiler_error_description e1 @ rest" by (cases e1) (simp_all add: compiler_error_display.simps)
  show "\<exists>rest. cache_error_display e2 = cache_error_description e2 @ '': '' @ rest" by (cases e2) (simp_all add: cache_error_display.simps)
  show "pp_display e3 = pp_description e3" by (cases e3) (simp_all add: pp_display.simps)
qed

end
