(* ===== verification/Test_Text.thy ===== *)
theory Test_Text
  imports Octo_Prelude
begin

text \<open>
  The texts of the unit tests of the program: in a line, \<open>~\<close> stands for a quotation mark, \<open>|\<close> for a backslash and \<open>^\<close>
  for a tabulator.
\<close>

definition source_line :: "string \<Rightarrow> string" where
  "source_line l = map (\<lambda>c. if c = CHR ''~'' then CHR 0x22 else if c = CHR ''|'' then CHR 0x5C
     else if c = CHR ''^'' then CHR 0x09 else c) l"

definition source_text :: "string list \<Rightarrow> string" where
  "source_text ls = concat (map (\<lambda>l. source_line l @ [CHR 0x0A]) ls)"

end
