(* ===== verification/Filter_Tests.thy ===== *)
theory Filter_Tests
  imports Postprocess_Filter File_Cache Test_Text
begin

text \<open>
  The unit tests of \<open>src/vs/postprocess.rs\<close> on the model: every definition is a test, with the texts of the source, and
  every lemma says that the filter of the model passes it, with both kinds of line ends. The runs are evaluated on the
  specification of the filter, which the scanner refines.
\<close>

definition with_eol :: "string \<Rightarrow> string \<Rightarrow> string" where
  "with_eol eol s = concat (map (\<lambda>c. if c = CHR 0x0A then eol else [c]) s)"

definition check_filter_pass :: "string \<Rightarrow> string \<Rightarrow> string option \<Rightarrow> bool \<Rightarrow> string \<Rightarrow> bool" where
  "check_filter_pass original expected marker keep_headers eol \<longleftrightarrow>
     filter_preprocessed vec_write Inr ((file_reader (ascii (with_eol eol original)))) [] (map_option ascii marker) keep_headers
       = Inr (ascii (with_eol eol expected))"

definition check_filter :: "string \<Rightarrow> string \<Rightarrow> string option \<Rightarrow> bool \<Rightarrow> bool" where
  "check_filter original expected marker keep_headers \<longleftrightarrow>
     check_filter_pass original expected marker keep_headers [CHR 0x0A] \<and>
     check_filter_pass original expected marker keep_headers [CHR 0x0D, CHR 0x0A]"

definition test_filter_precompiled_keep :: bool where
  "test_filter_precompiled_keep \<longleftrightarrow> check_filter
     (source_text
      [''#line 1 ~sample.cpp~'',
       ''#line 1 ~e:/work/octobuild/test_cl/sample header.h~'',
       ''# pragma once'',
       ''void hello();'',
       ''#line 2 ~sample.cpp~'',
       '''',
       ''int main(int argc, char **argv) {'',
       ''^return 0;'',
       ''}''])
     (source_text
      [''#line 1 ~sample.cpp~'',
       ''#line 1 ~e:/work/octobuild/test_cl/sample header.h~'',
       ''# pragma once'',
       ''void hello();'',
       ''#line 2 ~sample.cpp~'',
       ''#pragma hdrstop'',
       ''#line 2 ~sample.cpp~'',
       '''',
       ''int main(int argc, char **argv) {'',
       ''^return 0;'',
       ''}''])
     (Some (source_line ''sample header.h'')) True"

definition test_filter_precompiled_remove :: bool where
  "test_filter_precompiled_remove \<longleftrightarrow> check_filter
     (source_text
      [''#line 1 ~sample.cpp~'',
       ''#line 1 ~e:/work/octobuild/test_cl/sample header.h~'',
       ''# pragma once'',
       ''void hello1();'',
       ''void hello2();'',
       ''#line 2 ~sample.cpp~'',
       '''',
       ''int main(int argc, char **argv) {'',
       ''^return 0;'',
       ''}''])
     (source_text
      [''#pragma hdrstop'',
       ''#line 2 ~sample.cpp~'',
       '''',
       ''int main(int argc, char **argv) {'',
       ''^return 0;'',
       ''}''])
     (Some (source_line ''sample header.h'')) False"

definition test_filter_precompiled_case :: bool where
  "test_filter_precompiled_case \<longleftrightarrow> check_filter
     (source_text
      [''#line 1 ~sample.cpp~'',
       ''#line 1 ~e:/work/octobuild/test_cl/StdAfx.h~'',
       ''# pragma once'',
       ''void hello1();'',
       ''void hello2();'',
       ''#line 2 ~sample.cpp~'',
       '''',
       ''int main(int argc, char **argv) {'',
       ''    return 0;'',
       ''}''])
     (source_text
      [''#pragma hdrstop'',
       ''#line 2 ~sample.cpp~'',
       '''',
       ''int main(int argc, char **argv) {'',
       ''    return 0;'',
       ''}''])
     (Some (source_line ''STDafx.h'')) False"

definition test_filter_precompiled_hdrstop :: bool where
  "test_filter_precompiled_hdrstop \<longleftrightarrow> check_filter
     (source_text
      [''#line 1 ~sample.cpp~'',
       '' #line 1 ~e:/work/octobuild/test_cl/sample header.h~'',
       ''void hello();'',
       ''# pragma  hdrstop'',
       ''void data();'',
       ''# pragma once'',
       ''#line 2 ~sample.cpp~'',
       '''',
       ''int main(int argc, char **argv) {'',
       ''^return 0;'',
       ''}''])
     (source_text
      [''#pragma hdrstop'',
       ''void data();'',
       ''# pragma once'',
       ''#line 2 ~sample.cpp~'',
       '''',
       ''int main(int argc, char **argv) {'',
       ''^return 0;'',
       ''}''])
     None False"

definition test_filter_precompiled_hdrstop_keep :: bool where
  "test_filter_precompiled_hdrstop_keep \<longleftrightarrow> check_filter
     (source_text
      [''#line 1 ~sample.cpp~'',
       '' #line 1 ~e:/work/octobuild/test_cl/sample header.h~'',
       ''void hello();'',
       ''# pragma  hdrstop'',
       ''void data();'',
       ''# pragma once'',
       ''#line 2 ~sample.cpp~'',
       '''',
       ''int main(int argc, char **argv) {'',
       ''^return 0;'',
       ''}''])
     (source_text
      [''#line 1 ~sample.cpp~'',
       '' #line 1 ~e:/work/octobuild/test_cl/sample header.h~'',
       ''void hello();'',
       ''# pragma  hdrstop'',
       ''void data();'',
       ''# pragma once'',
       ''#line 2 ~sample.cpp~'',
       '''',
       ''int main(int argc, char **argv) {'',
       ''^return 0;'',
       ''}''])
     None True"

definition test_filter_precompiled_winpath :: bool where
  "test_filter_precompiled_winpath \<longleftrightarrow> check_filter
     (source_text
      [''#line 1 ~sample.cpp~'',
       ''#line 1 ~e:||work||octobuild||test_cl||sample header.h~'',
       ''# pragma once'',
       ''void hello();'',
       ''#line 2 ~sample.cpp~'',
       '''',
       ''int main(int argc, char **argv) {'',
       ''^return 0;'',
       ''}''])
     (source_text
      [''#line 1 ~sample.cpp~'',
       ''#line 1 ~e:||work||octobuild||test_cl||sample header.h~'',
       ''# pragma once'',
       ''void hello();'',
       ''#line 2 ~sample.cpp~'',
       ''#pragma hdrstop'',
       ''#line 2 ~sample.cpp~'',
       '''',
       ''int main(int argc, char **argv) {'',
       ''^return 0;'',
       ''}''])
     (Some (source_line ''e:|work|octobuild|test_cl|sample header.h'')) True"
lemma check_filter_pass_output:
  "check_filter_pass original expected marker keep eol \<longleftrightarrow>
     filter_output Inr (map_option ascii marker) keep (ascii (with_eol eol original)) = Inr (ascii (with_eol eol expected))"
  by (simp add: check_filter_pass_def filter_into_vec rbind_def split: sum.split)

lemmas check_filter_eval = check_filter_def check_filter_pass_output source_text_def source_line_def with_eol_def
  filter_output_eval subpath_eval

lemma filter_precompiled_keep_passes: "test_filter_precompiled_keep"
  by (simp add: test_filter_precompiled_keep_def check_filter_eval)

lemma filter_precompiled_remove_passes: "test_filter_precompiled_remove"
  by (simp add: test_filter_precompiled_remove_def check_filter_eval)

lemma filter_precompiled_case_passes: "test_filter_precompiled_case"
  by (simp add: test_filter_precompiled_case_def check_filter_eval)

lemma filter_precompiled_hdrstop_passes: "test_filter_precompiled_hdrstop"
  by (simp add: test_filter_precompiled_hdrstop_def check_filter_eval)

lemma filter_precompiled_hdrstop_keep_passes: "test_filter_precompiled_hdrstop_keep"
  by (simp add: test_filter_precompiled_hdrstop_keep_def check_filter_eval)

lemma filter_precompiled_winpath_passes: "test_filter_precompiled_winpath"
  by (simp add: test_filter_precompiled_winpath_def check_filter_eval)

end
