(* ===== verification/Stream_Tests.thy ===== *)
theory Stream_Tests
  imports MemStream
begin

text \<open>
  The tests of \<open>src/io/memstream.rs\<close>. They write random blocks to a stream, copy it out and read it back; here the test is
  proved for all block sizes, all random data and all contents of fresh memory.
\<close>

text \<open>The first loop: the bytes expected and the stream. A block has \<open>write_size\<close> random bytes; \<open>random\<close> gives the bytes in the
  order they are drawn. (With a size of 0 the loop of the source would not end.)\<close>

function check_write :: "(nat \<Rightarrow> byte) \<Rightarrow> (nat \<Rightarrow> byte) \<Rightarrow> nat \<Rightarrow> bytes \<Rightarrow> mem_stream \<Rightarrow> (bytes \<times> mem_stream) result" where
  "check_write junk random write_size expected writer =
     (if length expected < BLOCK_SIZE * 3 \<and> 0 < write_size then
        let block = map (\<lambda>i. random (length expected + i)) [0..<write_size]
        in rbind (write_data junk writer block) (\<lambda>r.
             if fst r \<noteq> write_size then Inl (Panic ''assertion failed: writer.write(&block).unwrap() == write_size'')
             else check_write junk random write_size (expected @ block) (snd r))
      else Inr (expected, writer))"
  by pat_completeness auto
termination
  by (relation "measure (\<lambda>(junk, random, write_size, expected, writer). BLOCK_SIZE * 3 - length expected)") auto

declare check_write.simps [simp del]

text \<open>The last loop, with as much fuel as there are calls of \<open>read\<close> at most.\<close>

fun check_read :: "nat \<Rightarrow> bytes \<Rightarrow> bytes \<Rightarrow> mem_reader \<Rightarrow> bytes result" where
  "check_read 0 block actual reader = Inl (Panic ''out of fuel'')"
| "check_read (Suc fuel) block actual reader =
     rbind (mem_read block reader) (\<lambda>(n, block', reader').
       if n = 0 then Inr actual else check_read fuel block' (actual @ take n block') reader')"

definition check_stream :: "(nat \<Rightarrow> byte) \<Rightarrow> (nat \<Rightarrow> byte) \<Rightarrow> nat \<Rightarrow> nat \<Rightarrow> bool" where
  "check_stream junk random write_size read_size \<longleftrightarrow>
     (case check_write junk random write_size [] ms_new of
        Inl e \<Rightarrow> False
      | Inr (expected, writer) \<Rightarrow>
          (case ms_copy vec_write writer [] of Inl e \<Rightarrow> False | Inr (_, actual) \<Rightarrow> actual = expected) \<and>
          rbind (ms_reader writer) (check_read (Suc (length expected)) (replicate read_size 0) []) = Inr expected)"

lemma check_write_ok:
  "ms_inv writer \<Longrightarrow> ms_content writer = expected \<Longrightarrow>
     \<exists>expected' writer'. check_write junk random write_size expected writer = Inr (expected', writer') \<and> ms_inv writer' \<and>
       ms_content writer' = expected'"
proof (induction junk random write_size expected writer rule: check_write.induct)
  case (1 junk random write_size expected writer)
  show ?case
  proof (cases "length expected < BLOCK_SIZE * 3 \<and> 0 < write_size")
    case True
    let ?block = "map (\<lambda>i. random (length expected + i)) [0..<write_size]"
    obtain w where w: "write_data junk writer ?block = Inr (write_size, w)" "ms_inv w" "ms_content w = expected @ ?block"
      using write_data_ok [OF "1.prems"(1), of junk ?block] "1.prems"(2) by auto
    then show ?thesis
      using "1.IH" [OF True refl w(1)] True by (simp add: check_write.simps [of junk random write_size expected writer])
  next
    case False
    then show ?thesis using "1.prems" by (simp only: check_write.simps [of junk random write_size expected writer] if_False) auto
  qed
qed

lemma check_read_ok:
  "mr_inv reader \<Longrightarrow> length (mr_rest reader) < fuel \<Longrightarrow> block \<noteq> [] \<Longrightarrow>
     check_read fuel block actual reader = Inr (actual @ mr_rest reader)"
proof (induction fuel arbitrary: block actual reader)
  case (Suc fuel)
  obtain r where r: "mem_read block reader = Inr (min (length block) (length (mr_rest reader)),
      take (length block) (mr_rest reader) @ drop (length (mr_rest reader)) block, r)" "mr_inv r"
    "mr_rest r = drop (length block) (mr_rest reader)"
    using mem_read_ok [OF Suc.prems(1)] by blast
  show ?case
  proof (cases "mr_rest reader = []")
    case True
    then show ?thesis using r(1) by simp
  next
    case False
    let ?block = "take (length block) (mr_rest reader) @ drop (length (mr_rest reader)) block"
    have ne: "?block \<noteq> []" using False Suc.prems(3) by simp
    have n: "0 < length block" "0 < length (mr_rest reader)" using Suc.prems(3) False by simp_all
    then have "length (mr_rest r) < length (mr_rest reader)" unfolding r(3) length_drop by (rule diff_less)
    then have "length (mr_rest r) < fuel" using Suc.prems(2) by simp
    from Suc.IH [OF r(2) this ne] show ?thesis
      using r n by (simp add: min_def)
  qed
qed simp

lemma check_stream_any:
  assumes "0 < read_size"
  shows "check_stream junk random write_size read_size"
proof -
  obtain expected writer where w: "check_write junk random write_size [] ms_new = Inr (expected, writer)"
    "ms_inv writer" "ms_content writer = expected"
    using check_write_ok [of ms_new "[]" junk random write_size] by auto
  obtain ms where copy: "ms_copy vec_write writer [] = Inr (ms_len writer, ms)" "ms = expected"
    using vec_sink.ms_copy_ok [OF w(2), of "[]"] w(3) by auto
  obtain reader where r: "ms_reader writer = Inr reader" "mr_inv reader" "mr_rest reader = expected"
    using ms_reader_ok [OF w(2)] w(3) by auto
  have "check_read (Suc (length expected)) (replicate read_size 0) [] reader = Inr expected"
    using check_read_ok [OF r(2), of "Suc (length expected)" "replicate read_size 0" "[]"] r(3) assms by simp
  then show ?thesis using w(1) copy r(1) by (simp add: check_stream_def)
qed

text \<open>The test of the stream passes whatever the sizes of the blocks written and read, the random bytes and the contents of
  fresh memory: the copy and the bytes read back are the bytes written.\<close>

theorem check_stream_passes:
  assumes "0 < read_size"
  shows "check_stream junk random write_size read_size"
  using assms by (rule check_stream_any)

definition test_simple :: "(nat \<Rightarrow> byte) \<Rightarrow> (nat \<Rightarrow> byte) \<Rightarrow> bool" where
  "test_simple junk random \<longleftrightarrow> check_stream junk random BLOCK_SIZE BLOCK_SIZE"

definition test_simple_half :: "(nat \<Rightarrow> byte) \<Rightarrow> (nat \<Rightarrow> byte) \<Rightarrow> bool" where
  "test_simple_half junk random \<longleftrightarrow> check_stream junk random (BLOCK_SIZE div 2) (BLOCK_SIZE div 2)"

definition test_simple_one_and_half :: "(nat \<Rightarrow> byte) \<Rightarrow> (nat \<Rightarrow> byte) \<Rightarrow> bool" where
  "test_simple_one_and_half junk random \<longleftrightarrow> check_stream junk random (BLOCK_SIZE * 3 div 2) (BLOCK_SIZE * 3 div 2)"

definition test_simple_1 :: "(nat \<Rightarrow> byte) \<Rightarrow> (nat \<Rightarrow> byte) \<Rightarrow> bool" where
  "test_simple_1 junk random \<longleftrightarrow> check_stream junk random 1 1"

definition test_simple_7 :: "(nat \<Rightarrow> byte) \<Rightarrow> (nat \<Rightarrow> byte) \<Rightarrow> bool" where
  "test_simple_7 junk random \<longleftrightarrow> check_stream junk random 7 7"

lemma stream_tests_pass:
  "test_simple junk random" "test_simple_half junk random" "test_simple_one_and_half junk random"
  "test_simple_1 junk random" "test_simple_7 junk random"
  by (simp_all add: test_simple_def test_simple_half_def test_simple_one_and_half_def test_simple_1_def test_simple_7_def
      BLOCK_SIZE_def check_stream_any)

lemma check_stream_passes_witness: "check_stream (\<lambda>_. 0) (\<lambda>i. of_nat i) 7 7"
  by (rule check_stream_passes) simp

end
