(* ===== verification/Unit_Tests.thy ===== *)
theory Unit_Tests
  imports Test_Text Cmd_Parse Clang_Prepare Vs_Compiler Xg_Console Worker_Correct
begin

text \<open>
  The unit tests of the program without regular expressions, run on the model: the command lines of
  \<open>src/cmd/unix.rs\<close> and \<open>src/cmd/windows.rs\<close>, the options of \<open>src/clang/prepare.rs\<close> and \<open>src/vs/prepare.rs\<close>, the
  texts of response files, the output of \<open>src/vs/compiler.rs\<close>, the variables of \<open>src/bin/xgConsole.rs\<close> and the
  empty graph of \<open>src/worker.rs\<close>. Every definition is the condition a test asserts, every lemma says that it holds.
  The other tests of the executor are in \<open>Worker_Tests\<close>, the tests of regular expressions (the versions of Clang, the flags of
  xgConsole, the warnings of cl) in \<open>Clang_Patterns\<close>, \<open>Xg_Patterns\<close> and \<open>Vs_Patterns\<close>.
\<close>

section \<open>Command lines\<close>

definition test_parse_unix_1 :: bool where
  "test_parse_unix_1 \<longleftrightarrow> parse_unix (source_line ''~abc~ d e'') = Inr [''abc'', ''d'', ''e'']"

definition test_parse_unix_2 :: bool where
  "test_parse_unix_2 \<longleftrightarrow> parse_unix (source_line '' ~abc~ d e '') = Inr [''abc'', ''d'', ''e'']"

definition test_parse_unix_3 :: bool where
  "test_parse_unix_3 \<longleftrightarrow> parse_unix (source_line ''~~ ~abc~ d e ~~'') = Inr [[], ''abc'', ''d'', ''e'', []]"

definition test_parse_unix_4 :: bool where
  "test_parse_unix_4 \<longleftrightarrow> parse_unix (source_line ''a||b d~e f~g h'') = Inr [source_line ''a|b'', ''de fg'', ''h'']"

definition test_parse_unix_5 :: bool where
  "test_parse_unix_5 \<longleftrightarrow> parse_unix (source_line ''a|||~b c d'') = Inr [source_line ''a|~b'', ''c'', ''d'']"

definition test_parse_unix_6 :: bool where
  "test_parse_unix_6 \<longleftrightarrow> parse_unix (source_line ''a||||~b c~ d e'') = Inr [source_line ''a||b c'', ''d'', ''e'']"

definition test_parse_unix_7 :: bool where
  "test_parse_unix_7 \<longleftrightarrow> parse_unix (source_line ''C:|Windows|System32 d e'') = Inr [source_line ''C:|Windows|System32'', ''d'', ''e'']"

definition test_parse_unix_8 :: bool where
  "test_parse_unix_8 \<longleftrightarrow> parse_unix (source_line ''/TEST~C:|Windows|System32~ d e'') = Inr [source_line ''/TESTC:|Windows|System32'', ''d'', ''e'']"

definition test_parse_unix_9 :: bool where
  "test_parse_unix_9 \<longleftrightarrow> parse_unix (source_line ''begin ' some text ~ foo| bar|' end'') = Inr [''begin'', source_line '' some text ~ foo| bar|'', ''end'']"

definition test_parse_unix_10 :: bool where
  "test_parse_unix_10 \<longleftrightarrow> parse_unix (source_line ''begin some| text end'') = Inr [''begin'', ''some text'', ''end'']"

lemma cmd_unix_tests_pass:
  "test_parse_unix_1" "test_parse_unix_2" "test_parse_unix_3" "test_parse_unix_4" "test_parse_unix_5"
  "test_parse_unix_6" "test_parse_unix_7" "test_parse_unix_8" "test_parse_unix_9" "test_parse_unix_10"
  by code_simp+

definition test_parse_windows_1 :: bool where
  "test_parse_windows_1 \<longleftrightarrow> parse_windows (source_line ''~abc~ d e'') = Inr [''abc'', ''d'', ''e'']"

definition test_parse_windows_2 :: bool where
  "test_parse_windows_2 \<longleftrightarrow> parse_windows (source_line '' ~abc~ d e '') = Inr [''abc'', ''d'', ''e'']"

definition test_parse_windows_3 :: bool where
  "test_parse_windows_3 \<longleftrightarrow> parse_windows (source_line ''~~ ~abc~ d e ~~'') = Inr [[], ''abc'', ''d'', ''e'', []]"

definition test_parse_windows_4 :: bool where
  "test_parse_windows_4 \<longleftrightarrow> parse_windows (source_line ''a||b d~e f~g h'') = Inr [source_line ''a||b'', ''de fg'', ''h'']"

definition test_parse_windows_5 :: bool where
  "test_parse_windows_5 \<longleftrightarrow> parse_windows (source_line ''a|||~b c d'') = Inr [source_line ''a|~b'', ''c'', ''d'']"

definition test_parse_windows_6 :: bool where
  "test_parse_windows_6 \<longleftrightarrow> parse_windows (source_line ''a||||~b c~ d e'') = Inr [source_line ''a||b c'', ''d'', ''e'']"

definition test_parse_windows_7 :: bool where
  "test_parse_windows_7 \<longleftrightarrow> parse_windows (source_line ''C:|Windows|System32 d e'') = Inr [source_line ''C:|Windows|System32'', ''d'', ''e'']"

definition test_parse_windows_8 :: bool where
  "test_parse_windows_8 \<longleftrightarrow> parse_windows (source_line ''/TEST~C:|Windows|System32~ d e'') = Inr [source_line ''/TESTC:|Windows|System32'', ''d'', ''e'']"

definition test_parse_windows_9 :: bool where
  "test_parse_windows_9 \<longleftrightarrow> parse_windows (source_line ''/Fp~Debug|HelloWorld.pch~ /Fo~Debug||~ /Gd'') = Inr [source_line ''/FpDebug|HelloWorld.pch'', source_line ''/FoDebug|'', ''/Gd'']"

lemma cmd_windows_tests_pass:
  "test_parse_windows_1" "test_parse_windows_2" "test_parse_windows_3" "test_parse_windows_4"
  "test_parse_windows_5" "test_parse_windows_6" "test_parse_windows_7" "test_parse_windows_8"
  "test_parse_windows_9"
  by code_simp+

section \<open>Options\<close>

definition test_clang_parse_argument_precompile :: bool where
  "test_clang_parse_argument_precompile \<longleftrightarrow> clang_parse_arguments (split_char (CHR '' '')
     (''-x c++-header -pipe -Wall -Werror -funwind-tables -Wsequence-point -mmmx -msse -msse2 '' @
      ''-fno-math-errno -fno-rtti -g3 -gdwarf-3 -O2 -D_LINUX64 -IEngine/Source -IDeveloper/Public '' @
      ''-I Runtime/Core/Private -D IS_PROGRAM=1 -D UNICODE -DIS_MONOLITHIC=1 -std=c++11 -o '' @
      ''CorePrivatePCH.h.pch CorePrivatePCH.h'')) = Inr
      [Param Ignore ''x'' ''c++-header'',
       Flag Shared ''pipe'',
       Flag Shared ''Wall'',
       Flag Shared ''Werror'',
       Flag Shared ''funwind-tables'',
       Flag Shared ''Wsequence-point'',
       Flag Shared ''mmmx'',
       Flag Shared ''msse'',
       Flag Shared ''msse2'',
       Flag Shared ''fno-math-errno'',
       Flag Shared ''fno-rtti'',
       Flag Shared ''g3'',
       Flag Shared ''gdwarf-3'',
       Flag Shared ''O2'',
       Param Shared ''D'' ''_LINUX64'',
       Param Preprocessor ''I'' ''Engine/Source'',
       Param Preprocessor ''I'' ''Developer/Public'',
       Param Preprocessor ''I'' ''Runtime/Core/Private'',
       Param Shared ''D'' ''IS_PROGRAM=1'',
       Param Shared ''D'' ''UNICODE'',
       Param Shared ''D'' ''IS_MONOLITHIC=1'',
       Flag Shared ''std=c++11'',
       Output Object ''o'' ''CorePrivatePCH.h.pch'',
       Input Source [] ''CorePrivatePCH.h'']"

lemma clang_parse_argument_precompile_test_passes: "test_clang_parse_argument_precompile"
  by code_simp

definition test_clang_parse_argument_compile :: bool where
  "test_clang_parse_argument_compile \<longleftrightarrow> clang_parse_arguments (split_char (CHR '' '')
     (''-c -include-pch CorePrivatePCH.h.pch -pipe -Wall -Werror -funwind-tables -Wsequence-point '' @
      ''-mmmx -msse -msse2 -fno-math-errno -fno-rtti -g3 -gdwarf-3 -O2 -D IS_PROGRAM=1 -D UNICODE '' @
      ''-DIS_MONOLITHIC=1 -x c++ -std=c++11 -include CorePrivatePCH.h -o Module.Core.cpp.o '' @
      ''Module.Core.cpp'')) = Inr
      [Flag Ignore ''c'',
       Param Preprocessor ''include-pch'' ''CorePrivatePCH.h.pch'',
       Flag Shared ''pipe'',
       Flag Shared ''Wall'',
       Flag Shared ''Werror'',
       Flag Shared ''funwind-tables'',
       Flag Shared ''Wsequence-point'',
       Flag Shared ''mmmx'',
       Flag Shared ''msse'',
       Flag Shared ''msse2'',
       Flag Shared ''fno-math-errno'',
       Flag Shared ''fno-rtti'',
       Flag Shared ''g3'',
       Flag Shared ''gdwarf-3'',
       Flag Shared ''O2'',
       Param Shared ''D'' ''IS_PROGRAM=1'',
       Param Shared ''D'' ''UNICODE'',
       Param Shared ''D'' ''IS_MONOLITHIC=1'',
       Param Ignore ''x'' ''c++'',
       Flag Shared ''std=c++11'',
       Param Preprocessor ''include'' ''CorePrivatePCH.h'',
       Output Object ''o'' ''Module.Core.cpp.o'',
       Input Source [] ''Module.Core.cpp'']"

lemma clang_parse_argument_compile_test_passes: "test_clang_parse_argument_compile"
  by code_simp

definition test_vs_parse_argument :: bool where
  "test_vs_parse_argument \<longleftrightarrow> vs_parse_arguments (split_char (CHR '' '')
     (''/TP /c /Yusample.h /Fpsample.h.pch /Fosample.cpp.o /DTEST /D TEST2 /arch:AVX sample.cpp'')) = Inr
      [Param Ignore ''T'' ''P'',
       Flag Ignore ''c'',
       Input InMarker ''Yu'' ''sample.h'',
       Input Precompiled ''Fp'' ''sample.h.pch'',
       Output Object ''Fo'' ''sample.cpp.o'',
       Param Shared ''D'' ''TEST'',
       Param Shared ''D'' ''TEST2'',
       Flag Shared ''arch:AVX'',
       Input Source [] ''sample.cpp'']"

lemma vs_parse_argument_test_passes: "test_vs_parse_argument"
  by code_simp
section \<open>Response files\<close>

text \<open>The Russian word of the test, in UTF-8.\<close>

definition rus :: string where
  "rus = map char_of [0xD1, 0x80, 0xD1, 0x83, 0xD1, 0x81 :: nat]"

definition test_decode_string :: "(bytes \<Rightarrow> string result) \<Rightarrow> bool" where
  "test_decode_string ansi \<longleftrightarrow>
     decode_string ansi (ascii ''test'') = Inr ''test'' \<and>
     decode_string ansi ([0xEF, 0xBB, 0xBF] @ ascii ''test '' @ [0xD1, 0x80, 0xD1, 0x83, 0xD1, 0x81]) = Inr (''test '' @ rus) \<and>
     decode_string ansi ([0xFF, 0xFE] @ concat (map (\<lambda>c. [c, 0]) (ascii ''test '')) @ [0x40, 0x04, 0x43, 0x04, 0x41, 0x04])
       = Inr (''test '' @ rus) \<and>
     decode_string ansi ([0xFE, 0xFF] @ concat (map (\<lambda>c. [0, c]) (ascii ''test '')) @ [0x04, 0x40, 0x04, 0x43, 0x04, 0x41])
       = Inr (''test '' @ rus)"

text \<open>An ANSI code page that leaves ASCII alone, as the crate \<open>local_encoding\<close> has on every system.\<close>

lemma decode_string_test_passes: "test_decode_string (\<lambda>d. Inr (text_of d))"
  by (simp add: test_decode_string_def decode_string_def text_of_def decode_utf16_def ascii_def rus_def utf8_encode_def utf8_char_def
      scalar_def continuation_def char_of_eq_iff)

section \<open>Output of the compiler\<close>

definition check_prepare_output :: "(bytes \<Rightarrow> bytes) \<Rightarrow> string \<Rightarrow> string \<Rightarrow> string \<Rightarrow> bool \<Rightarrow> bool" where
  "check_prepare_output re original expected line ok \<longleftrightarrow>
     prepare_output re (ascii line) (ascii original) ok = ascii expected"

definition test_prepare_output_simple :: "(bytes \<Rightarrow> bytes) \<Rightarrow> bool" where
  "test_prepare_output_simple re \<longleftrightarrow> check_prepare_output re
     (source_text [''BLABLABLA'', ''foo.c : warning C4411: foo bar''])
     (source_text [''foo.c : warning C4411: foo bar'']) ''BLABLABLA'' True"

definition test_prepare_output_c4628_remove :: "(bytes \<Rightarrow> bytes) \<Rightarrow> bool" where
  "test_prepare_output_c4628_remove re \<longleftrightarrow> check_prepare_output re
     (source_text [''BLABLABLA'', ''foo.c(41) : warning C4411: foo bar'', ''foo.c(42) : warning C4628: foo bar'',
       ''foo.c(43) : warning C4433: foo bar''])
     (source_text [''foo.c(41) : warning C4411: foo bar'', ''foo.c(43) : warning C4433: foo bar'']) ''BLABLABLA'' True"

definition test_prepare_output_c4628_keep :: "(bytes \<Rightarrow> bytes) \<Rightarrow> bool" where
  "test_prepare_output_c4628_keep re \<longleftrightarrow> check_prepare_output re
     (source_text [''BLABLABLA'', ''foo.c(41) : warning C4411: foo bar'', ''foo.c(42) : warning C4628: foo bar'',
       ''foo.c(43) : warning C4433: foo bar''])
     (source_text [''foo.c(41) : warning C4411: foo bar'', ''foo.c(42) : warning C4628: foo bar'',
       ''foo.c(43) : warning C4433: foo bar'']) ''BLABLABLA'' False"

text \<open>The first line goes, whatever the regular expression is; for a failed compilation it is not used at all. On the text of
  the second test it has to remove the second line.\<close>

lemmas prepare_output_eval = check_prepare_output_def prepare_output_def source_text_def source_line_def ascii_def is_eol_def Let_def

lemma prepare_output_tests_pass:
  "re (ascii (source_text [''foo.c : warning C4411: foo bar''])) = ascii (source_text [''foo.c : warning C4411: foo bar'']) \<Longrightarrow>
     test_prepare_output_simple re"
  "re (ascii (source_text [''foo.c(41) : warning C4411: foo bar'', ''foo.c(42) : warning C4628: foo bar'',
         ''foo.c(43) : warning C4433: foo bar''])) =
       ascii (source_text [''foo.c(41) : warning C4411: foo bar'', ''foo.c(43) : warning C4433: foo bar'']) \<Longrightarrow>
     test_prepare_output_c4628_remove re"
  "test_prepare_output_c4628_keep re"
  by (simp_all add: test_prepare_output_simple_def test_prepare_output_c4628_remove_def test_prepare_output_c4628_keep_def
      prepare_output_eval)

section \<open>Variables\<close>

text \<open>Any other name would be a panic of the test.\<close>

definition test_parse_vars :: bool where
  "test_parse_vars \<longleftrightarrow>
     expand_arg (\<lambda>name. if name = ''test'' then Some ''foo'' else if name = ''inner'' then Some ''$(bar)'' else None)
       ''A$(test)$(inner)$(none)B'' = ''Afoo$(bar)$(none)B''"

lemma parse_vars_test_passes: "test_parse_vars"
  by code_simp

section \<open>The executor\<close>

text \<open>The callback must not be called.\<close>

definition test_execute_graph_empty :: "(build_task \<Rightarrow> output_info result) \<Rightarrow> bool" where
  "test_execute_graph_empty run \<longleftrightarrow>
     (case execute_graph run (\<lambda>_. Inl (Panic ''internal error: entered unreachable code''))
         \<lparr>node_weights = [], outgoing = (\<lambda>_. []), incoming = (\<lambda>_. [])\<rparr> 2 of
        Returned (Inr _) \<Rightarrow> True
      | _ \<Rightarrow> False)"

lemma execute_graph_empty_test_passes: "test_execute_graph_empty run"
  by (simp add: test_execute_graph_empty_def execute_graph_def validate_graph_def node_count_def externals_def)

end
