(* ===== verification/Worker_Reports.thy ===== *)
theory Worker_Reports
  imports Worker_Correct
begin

text \<open>
  What the progress callback of \<open>execute_graph\<close> (\<open>src/worker.rs\<close>) sees. The callback is called in the two places where the
  main thread takes a message and counts it, so its calls are the steps that raise the counter; the relation \<open>observed\<close>
  collects them along a run, in order, each with the message it is made for. The console prints the progress from these
  calls and the programs print the outputs of the compilers in them.
\<close>

section \<open>The calls along a run\<close>

definition progress_calls :: "'n graph \<Rightarrow> system \<Rightarrow> system \<Rightarrow> (result_message \<times> 'n build_result) list" where
  "progress_calls g s s' =
     (if sy_count s' = Suc (sy_count s) then [(hd (sy_results s), build_result_new g (hd (sy_results s)) (sy_count s'))] else [])"

inductive observed ::
    "'n graph \<Rightarrow> ('n \<Rightarrow> output_info result \<Rightarrow> bool) \<Rightarrow> ('n build_result \<Rightarrow> unit result) \<Rightarrow> nat \<Rightarrow>
     (result_message \<times> 'n build_result) list \<Rightarrow> system \<Rightarrow> bool"
  for g outcome update workers where
  observed_init: "observed g outcome update workers [] (system_init g workers)"
| observed_more: "observed g outcome update workers cs s \<Longrightarrow> step g outcome update s s' \<Longrightarrow>
    observed g outcome update workers (cs @ progress_calls g s s') s'"

text \<open>The observation does not restrict the runs.\<close>

lemma observed_reachable: "observed g outcome update workers cs s \<Longrightarrow> reachable g outcome update workers s"
  by (induction rule: observed.induct) (auto intro: reachable.intros)

lemma reachable_observed: "reachable g outcome update workers s \<Longrightarrow> \<exists>cs. observed g outcome update workers cs s"
  by (induction rule: reachable.induct) (blast intro: observed.intros)+

section \<open>The invariant\<close>

abbreviation call_index :: "result_message \<times> 'n build_result \<Rightarrow> nat" where
  "call_index c \<equiv> rm_index (fst c)"

definition report_inv ::
    "'n graph \<Rightarrow> ('n \<Rightarrow> output_info result \<Rightarrow> bool) \<Rightarrow> (result_message \<times> 'n build_result) list \<Rightarrow> system \<Rightarrow> bool" where
  "report_inv g outcome cs s \<longleftrightarrow>
     mset (somes (sy_busy s)) + mset (map rm_index (sy_results s)) + mset (map call_index cs) = mset (sy_started s) \<and>
     done_set (sy_completed s) \<subseteq> call_index ` set cs \<and>
     topological g (map call_index cs) \<and>
     length cs = sy_count s \<and>
     map (br_completed \<circ> snd) cs = [1..<Suc (length cs)] \<and>
     (\<forall>(m, b) \<in> set cs. build_result_new g m (br_completed b) = b \<and> outcome (node_weights g ! rm_index m) (rm_result m))"

lemma report_inv_call:
  assumes "exec_inv g outcome update s" "report_inv g outcome cs s" "sy_results s = m # ms"
    and s': "sy_results s' = ms" "sy_busy s' = sy_busy s" "sy_started s' = sy_started s" "sy_count s' = Suc (sy_count s)"
      "done_set (sy_completed s') \<subseteq> insert (rm_index m) (done_set (sy_completed s))"
  shows "report_inv g outcome (cs @ progress_calls g s s') s'"
proof -
  let ?b = "build_result_new g m (Suc (sy_count s))"
  have calls: "progress_calls g s s' = [(m, ?b)]" using assms(3) s'(4) by (simp add: progress_calls_def)
  have "rm_index m \<in># mset (sy_started s)"
    using assms(2) unfolding report_inv_def assms(3) by (elim conjE) (erule subst, simp)
  then have "set (outgoing g (rm_index m)) \<subseteq> done_set (sy_completed s)"
    using exec_inv_started(2) [OF assms(1)] by (auto simp: ready_set_def deps_done_def)
  also have "... \<subseteq> set (map call_index cs)" using assms(2) by (simp add: report_inv_def)
  finally have "topological g (map call_index (cs @ [(m, ?b)]))"
    using assms(2) topological_snoc [of g "map call_index cs"] by (simp add: report_inv_def)
  moreover have "outcome (node_weights g ! rm_index m) (rm_result m)" using assms(1,3) by (simp add: exec_inv_def)
  moreover have "br_completed ?b = Suc (length cs)" "build_result_new g m (br_completed ?b) = ?b"
    using assms(2) by (simp_all add: report_inv_def build_result_new_def)
  moreover have "mset (somes (sy_busy s)) + mset (map rm_index ms) + mset (map call_index (cs @ [(m, ?b)])) = mset (sy_started s)"
    using assms(2) unfolding report_inv_def assms(3) by simp
  ultimately show ?thesis
    unfolding calls report_inv_def s'(1-4) using assms(2) s'(5) by (auto simp: report_inv_def)
qed

lemma receive_call:
  assumes "graph_ok g" "exec_inv g outcome update s" "report_inv g outcome cs s" "sy_results s = m # ms"
  shows "report_inv g outcome (cs @ progress_calls g s (receive g update m s)) (receive g update m s)"
proof -
  let ?c = "sy_completed s"
  have len: "length ?c = node_count g" using assms(2) by (simp add: exec_inv_def)
  have started: "mset (rm_index m # map call_index cs) \<subseteq># mset (sy_started s)"
    using assms(3) unfolding report_inv_def assms(4)
    by (elim conjE) (erule subst, simp)
  then have "rm_index m \<in> set (sy_started s)" by (auto dest: mset_subset_eqD)
  then have range: "rm_index m < node_count g" using exec_inv_started(2) [OF assms(2)] by (auto simp: ready_set_def)
  have "rm_index m \<notin> call_index ` set cs"
    using started mset_sub_distinct [of "rm_index m # map call_index cs" "set (sy_started s)"] exec_inv_started(1) [OF assms(2)]
    by (simp add: mset_set_set)
  then have new: "rm_index m \<notin> done_set ?c" using assms(3) by (auto simp: report_inv_def)
  show ?thesis
    by (rule handle_message_cases [OF assms(1) len range new, of update "sy_count s"])
      (use len range in \<open>auto intro!: report_inv_call [OF assms(2-4)] simp: receive_def assms(4) done_set_update split: if_splits\<close>)
qed

lemma observed_inv:
  assumes "graph_ok g" "simple_graph g" "0 < node_count g" "observed g outcome update workers cs s"
  shows "report_inv g outcome cs s"
  using assms(4)
proof induction
  case observed_init
  then show ?case by (simp add: report_inv_def system_init_def topological_def)
next
  case (observed_more cs s s')
  have inv: "exec_inv g outcome update s" using reachable_inv [OF assms(1-3) observed_reachable] observed_more.hyps(1) by blast
  from observed_more.hyps(2) show ?case
  proof (cases rule: step.cases)
    case (take_task w t ts)
    then show ?thesis
      using observed_more.IH somes_take [OF take_task(2,3)]
      by (auto simp: report_inv_def progress_calls_def ac_simps)
  next
    case (finish_task w t r)
    then show ?thesis
      using observed_more.IH somes_finish [OF finish_task(2,3)]
      by (auto simp: report_inv_def progress_calls_def ac_simps)
  next
    case (receive_result m ms)
    then show ?thesis using receive_call [OF assms(1) inv observed_more.IH] by simp
  next
    case (drain_result r m ms)
    show ?thesis by (rule report_inv_call [OF inv observed_more.IH drain_result(3)]) (auto simp: drain_result(1))
  qed (use observed_more.IH in \<open>auto simp: report_inv_def progress_calls_def\<close>)
qed

text \<open>The loop that waits for the tasks in progress ends with everything received, unless the callback fails in it.\<close>

lemma finished_settled:
  assumes "graph_ok g" "simple_graph g" "0 < node_count g" "reachable g outcome update workers s" "sy_phase s = Finished r"
  shows "sy_results s = [] \<and> somes (sy_busy s) = [] \<or> (\<exists>b e. update b = Inl e)"
  using assms(4,5)
proof (induction arbitrary: r)
  case init
  then show ?case by (simp add: system_init_def)
next
  case (more s s')
  have "exec_inv g outcome update s" using reachable_inv [OF assms(1-3) more.hyps(1)] by simp
  then have idle: "sy_tasks s = []" if "phase_rank (sy_phase s) \<le> 1" using that by (simp add: exec_inv_def)
  from more.hyps(2) show ?case
  proof (cases rule: step.cases)
    case (take_task w t ts)
    then show ?thesis using idle more.prems by simp
  next
    case (finish_task w t x)
    then show ?thesis using more.IH [of r] more.prems nth_mem [OF finish_task(2)] by (auto simp: somes_Nil)
  next
    case (receive_result m ms)
    then show ?thesis using more.prems by (auto simp: receive_def split: prod.splits option.splits)
  next
    case (drain_result x m ms)
    then show ?thesis using more.prems by (auto split: sum.splits)
  qed (use more.prems in \<open>auto simp: somes_Nil\<close>)
qed

section \<open>What the callback has seen\<close>

lemma reports_in_order:
  assumes "graph_ok g" "simple_graph g" "0 < node_count g" "observed g outcome update workers cs s"
  shows "map (br_completed \<circ> snd) cs = [1..<Suc (length cs)]"
    and "\<forall>(m, b) \<in> set cs. br_task b = node_weights g ! rm_index m \<and> br_total b = node_count g \<and> outcome (br_task b) (br_result b)"
    and "distinct (map call_index cs)" "set (map call_index cs) \<subseteq> {..<node_count g}" "length cs \<le> node_count g"
    and "topological g (map call_index cs)"
    and "sy_phase s = Finished (Inr (Some 0)) \<Longrightarrow> set (map call_index cs) = {..<node_count g}"
    and "sy_phase s = Finished r \<Longrightarrow> \<forall>b. \<exists>u. update b = Inr u \<Longrightarrow> mset (map call_index cs) = mset (sy_started s)"
proof -
  note reach = observed_reachable [OF assms(4)]
  note inv = observed_inv [OF assms] and exec = conjunct1 [OF reachable_inv [OF assms(1-3) reach]]
  show "map (br_completed \<circ> snd) cs = [1..<Suc (length cs)]" "topological g (map call_index cs)"
    using inv by (simp_all add: report_inv_def)
  have b: "build_result_new g m (br_completed b) = b \<and> outcome (node_weights g ! rm_index m) (rm_result m)" if "(m, b) \<in> set cs" for m b
    using inv that by (auto simp: report_inv_def)
  have "br_task b = node_weights g ! rm_index m \<and> br_total b = node_count g \<and> outcome (br_task b) (br_result b)" if "(m, b) \<in> set cs" for m b
    using b [OF that] by (cases b) (auto simp: build_result_new_def)
  then show "\<forall>(m, b) \<in> set cs. br_task b = node_weights g ! rm_index m \<and> br_total b = node_count g \<and> outcome (br_task b) (br_result b)"
    by blast
  have sub: "mset (map call_index cs) \<subseteq># mset (sy_started s)" using inv by (metis mset_subset_eq_add_right report_inv_def)
  then show dist: "distinct (map call_index cs)"
    using mset_sub_distinct [of _ "set (sy_started s)"] exec_inv_started(1) [OF exec] by (metis mset_set_set)
  have "set (map call_index cs) \<subseteq> set (sy_started s)" using set_mset_mono [OF sub] by simp
  then show range: "set (map call_index cs) \<subseteq> {..<node_count g}"
    using exec_inv_started(2) [OF exec] by (auto simp: ready_set_def)
  show "length cs \<le> node_count g"
    using card_mono [OF _ range] distinct_card [OF dist] by simp
  show "set (map call_index cs) = {..<node_count g}" if "sy_phase s = Finished (Inr (Some 0))"
    using execution_value [OF assms(1-3) reach that] inv range by (auto simp: report_inv_def)
  show "mset (map call_index cs) = mset (sy_started s)" if "sy_phase s = Finished r" "\<forall>b. \<exists>u. update b = Inr u"
    using finished_settled [OF assms(1-3) reach that(1)] that(2) inv by (auto simp: report_inv_def)
qed

text \<open>C7: What the progress callback sees in any interleaving of the threads: its calls are numbered 1, 2, 3 and so on with
  the number of tasks as the total, each shows a task with a result this task can have, no task is shown twice, and every task is
  shown behind all the tasks it depends on. When the execution ends with status 0 all tasks have been shown; whatever its value is,
  when it ends and the callback has not failed, exactly the tasks that were started have been shown.\<close>

theorem progress_reports:
  assumes "graph_ok g" "simple_graph g" "0 < node_count g" "observed g outcome update workers cs s"
  shows "map (br_completed \<circ> snd) cs = [1..<Suc (length cs)] \<and>
    (\<forall>(m, b) \<in> set cs. br_task b = node_weights g ! rm_index m \<and> br_total b = node_count g \<and> outcome (br_task b) (br_result b)) \<and>
    distinct (map (rm_index \<circ> fst) cs) \<and>
    (\<forall>xs t ys. map (rm_index \<circ> fst) cs = xs @ t # ys \<longrightarrow> set (outgoing g t) \<subseteq> set xs) \<and>
    (sy_phase s = Finished (Inr (Some 0)) \<longrightarrow> set (map (rm_index \<circ> fst) cs) = {..<node_count g}) \<and>
    (\<forall>r. sy_phase s = Finished r \<and> (\<forall>b. \<exists>u. update b = Inr u) \<longrightarrow> set (map (rm_index \<circ> fst) cs) = set (sy_started s))"
proof -
  note r = reports_in_order [OF assms]
  have index: "map (rm_index \<circ> fst) cs = map call_index cs" by simp
  show ?thesis
    unfolding index topological_def [symmetric]
  proof (intro conjI allI impI r(1-3,6,7))
    fix r assume "sy_phase s = Finished r \<and> (\<forall>b. \<exists>u. update b = Inr u)"
    then show "set (map call_index cs) = set (sy_started s)" by (intro mset_eq_setD, intro r(8)) auto
  qed
qed

lemma progress_reports_witness:
  "\<exists>cs. observed chain_graph all_ok silent 1 cs (chain_state [] None None [True, True] 2 (Finished (Inr (Some 0))) [1, 0]) \<and>
     map (br_completed \<circ> snd) cs = [1, 2] \<and> set (map (rm_index \<circ> fst) cs) = {0, 1}"
proof -
  obtain cs where cs: "observed chain_graph all_ok silent 1 cs (chain_state [] None None [True, True] 2 (Finished (Inr (Some 0))) [1, 0])"
    using reachable_observed [OF chain_run(2)] by blast
  note p = progress_reports [OF chain_graph_ok(1-3) cs]
  have "set (map (rm_index \<circ> fst) cs) = {..<node_count chain_graph}" using p by (elim conjE) (erule mp, simp)
  then have "set (map (rm_index \<circ> fst) cs) = {..<2}" by (simp add: chain_graph_def node_count_def)
  then have all: "set (map (rm_index \<circ> fst) cs) = {0, 1}" by auto
  have "distinct (map (rm_index \<circ> fst) cs)" using p by (elim conjE)
  then have "length cs = card (set (map (rm_index \<circ> fst) cs))" using distinct_card by fastforce
  then have len: "length cs = 2" unfolding all by simp
  have "map (br_completed \<circ> snd) cs = [1..<Suc 2]" using conjunct1 [OF p] unfolding len .
  also have "... = [1, 2]" by (simp add: eval_nat_numeral)
  finally have calls: "map (br_completed \<circ> snd) cs = [1, 2]" .
  show ?thesis by (intro exI [of _ cs] conjI cs calls all)
qed

end
