(* ===== verification/Worker_Tests.thy ===== *)
theory Worker_Tests
  imports Worker_Reports Petgraph
begin

text \<open>
  The tests of \<open>src/worker.rs\<close> that run tasks. A test on one machine sees one interleaving; what is proved here is its assertion
  in every one of them, for every implementation of the graph.
\<close>

definition empty_task :: "string \<Rightarrow> build_task" where
  "empty_task title = \<lparr>bt_title = title, bt_action = Empty\<rparr>"

text \<open>What \<open>execute_compiler\<close> can return for a task.\<close>

definition task_outcome ::
    "'e host_env \<Rightarrow> (process_command \<Rightarrow> statistic \<Rightarrow> filesystem \<Rightarrow> output_info result \<times> statistic \<times> filesystem) \<Rightarrow>
     build_task \<Rightarrow> output_info result \<Rightarrow> bool" where
  "task_outcome h spawn task r \<longleftrightarrow> (\<exists>st. r = fst (execute_compiler h spawn task st))"

lemma empty_task_outcome: "task_outcome h spawn (empty_task t) r \<longleftrightarrow> r = Inr ok_output"
  by (simp add: task_outcome_def execute_compiler_def empty_task_def ok_output_def)

text \<open>The callback of both tests only records the task.\<close>

definition record_title :: "build_task build_result \<Rightarrow> unit result" where
  "record_title r = Inr ()"

section \<open>One task\<close>

definition single_log :: "build_task graph_log" where
  "single_log = snd (log_node (empty_task ''task 1'') log_new)"

text \<open>The only task is run by the main thread and shown to the callback once.\<close>

lemma execute_graph_single_test_passes:
  assumes "graph_view view"
  shows "execute_graph (\<lambda>task. fst (execute_compiler h spawn task st)) update (view single_log) 4 =
    Returned (rbind (update \<lparr>br_task = empty_task ''task 1'', br_worker = 0, br_result = Inr ok_output, br_completed = 1, br_total = 1\<rparr>)
      (\<lambda>_. Inr (Some 0)))"
proof -
  have log: "log_ok single_log" "gl_nodes single_log = [empty_task ''task 1'']" "gl_edges single_log = []"
    by (simp_all add: single_log_def log_node_def log_new_def log_ok_def)
  have "validate_graph (view single_log) = Inr (view single_log)"
    using validate_graph_result [OF view_graph_ok [OF assms log(1)]] log view_edges [OF assms log(1)] by (simp add: acyclic_def)
  then show ?thesis
    using log view_nodes [OF assms log(1)]
    by (simp add: execute_graph_def node_count_def execute_compiler_def empty_task_def ok_output_def)
qed

section \<open>Two tasks\<close>

definition no_hang_log :: "build_task graph_log" where
  "no_hang_log =
     (let (t1, g) = log_node (empty_task ''task 1'') log_new;
          (t2, g) = log_node (empty_task ''task 2'') g
      in log_edge t2 t1 g)"

lemma no_hang_graph:
  assumes "graph_view view"
  defines "g \<equiv> view no_hang_log"
  shows "graph_ok g" "simple_graph g" "node_weights g = [empty_task ''task 1'', empty_task ''task 2'']" "node_count g = 2"
    "edges g = {(1, 0)}" "acyclic (edges g)"
proof -
  have log: "log_ok no_hang_log" "log_simple no_hang_log" "gl_edges no_hang_log = [(1, 0)]"
    "gl_nodes no_hang_log = [empty_task ''task 1'', empty_task ''task 2'']"
    by (simp_all add: no_hang_log_def log_node_def log_edge_def log_new_def log_ok_def log_simple_def)
  show "graph_ok g" "simple_graph g" "node_weights g = [empty_task ''task 1'', empty_task ''task 2'']" "node_count g = 2"
    and edges: "edges g = {(1, 0)}"
    using log view_graph_ok [OF assms(1) log(1)] view_simple [OF assms(1) log(1,2)] view_nodes [OF assms(1) log(1)]
      view_edges [OF assms(1) log(1)]
    by (simp_all add: g_def node_count_def)
  show "acyclic (edges g)" unfolding edges by (rule acyclicI_order [where f = "\<lambda>i. i"]) auto
qed

text \<open>The order of the two results: an index list with both tasks, each once and behind what it needs.\<close>

lemma two_in_order:
  assumes "distinct is" "set is = {..<2}" "topological g is" "edges g = {(1, 0)}"
  shows "is = [0, 1]"
proof -
  have "length is = 2" using distinct_card [OF assms(1)] assms(2) by simp
  then obtain a b where ab: "is = [a, b]" by (auto simp: numeral_2_eq_2 length_Suc_conv)
  have ends: "{a, b} = {0, 1}" using assms(2) unfolding ab by (auto simp: lessThan_Suc numeral_2_eq_2)
  have "a \<noteq> 1"
  proof
    assume "a = 1"
    then have "set (outgoing g 1) \<subseteq> {}"
      using assms(3) [unfolded topological_def, rule_format, of "[]" 1 "[b]"] ab by simp
    moreover have "0 \<in> set (outgoing g 1)" using assms(4) by (auto simp: edges_def)
    ultimately show False by simp
  qed
  then show ?thesis using ab ends unfolding doubleton_eq_iff by blast
qed

theorem execute_graph_no_hang_test_passes:
  fixes h :: "'e host_env"
    and spawn :: "process_command \<Rightarrow> statistic \<Rightarrow> filesystem \<Rightarrow> output_info result \<times> statistic \<times> filesystem"
  assumes "graph_view view"
  defines "g \<equiv> view no_hang_log" and "outcome \<equiv> task_outcome h spawn"
  shows "execute_graph run record_title g 4 = Started g 2 (system_init g 2)"
    and "observed g outcome record_title 2 cs s \<Longrightarrow> sy_phase s = Finished r \<Longrightarrow>
      r = Inr (Some 0) \<and> map (bt_title \<circ> br_task \<circ> snd) cs = [''task 1'', ''task 2'']"
    and "reachable g outcome record_title 2 s \<Longrightarrow> \<forall>r. sy_phase s \<noteq> Finished r \<Longrightarrow> \<exists>s'. step g outcome record_title s s'"
proof -
  note graph = no_hang_graph [OF assms(1), folded g_def]
  have pos: "0 < node_count g" using graph(4) by simp
  show "execute_graph run record_title g 4 = Started g 2 (system_init g 2)"
    using validate_graph_result [OF graph(1)] graph(4,6) by (simp add: execute_graph_def eval_nat_numeral)
  show "\<exists>s'. step g outcome record_title s s'" if "reachable g outcome record_title 2 s" "\<forall>r. sy_phase s \<noteq> Finished r"
    by (rule execution_never_stuck [OF graph(1,2,6) pos _ that(1) _ that(2)]) (auto simp: outcome_def task_outcome_def)
  show "r = Inr (Some 0) \<and> map (bt_title \<circ> br_task \<circ> snd) cs = [''task 1'', ''task 2'']"
    if run: "observed g outcome record_title 2 cs s" and fin: "sy_phase s = Finished r"
  proof -
    have two: "i = 0 \<or> i = 1" if "i < node_count g" for i using that graph(4) by linarith
    have "outcome (node_weights g ! i) x \<longleftrightarrow> x = Inr ok_output" if "i < node_count g" for i x
      using two [OF that] graph(3) by (auto simp: outcome_def empty_task_outcome)
    then have r: "r = Inr (Some 0)"
      using execution_value [OF graph(1,2) pos observed_reachable [OF run] fin]
      by (cases r) (auto simp: record_title_def ok_output_def split: if_splits)
    note rep = reports_in_order [OF graph(1,2) pos run]
    have "map call_index cs = [0, 1]"
      using two_in_order [OF rep(3) _ rep(6) graph(5)] rep(7) fin r graph(4) by simp
    moreover have "map (bt_title \<circ> br_task \<circ> snd) cs = map (\<lambda>i. bt_title (node_weights g ! i)) (map call_index cs)"
      using rep(2) by auto
    ultimately show ?thesis using r graph(3) by (simp add: empty_task_def)
  qed
qed

end
