(* ===== verification/Regex.thy ===== *)
theory Regex
  imports Octo_Prelude
begin

text \<open>
  Regular expressions. The patterns are part of the program (\<open>src/clang/compiler.rs\<close>, \<open>src/vs/compiler.rs\<close>,
  \<open>src/bin/xgConsole.rs\<close>), the crate \<open>regex\<close> that runs them is not. This theory holds the syntax of the patterns the program
  uses, the text of a pattern, and the meaning the crate documents: the leftmost match, and among those at one place the one a
  backtracking search finds first. The components state what they rely on in the crate as a hypothesis over this meaning, for
  texts in ASCII, where the classes of the crate are those below.
\<close>

section \<open>Patterns\<close>

datatype char_class = Digit | Word_Char | Blank | Not_Blank | Dot | One_Of char | None_Of char

text \<open>A literal says whether it is written with a backslash. Groups that capture have a number.\<close>

datatype regex =
    Empty_Regex
  | Text_Start
  | Text_End
  | Literal bool char
  | Class char_class
  | Many char_class
  | Many_Lazy char_class
  | Some_Of char_class
  | Maybe regex
  | Group nat regex
  | Group_Plain regex
  | Then regex regex

text \<open>The flags \<open>(?m)\<close> and \<open>(?i)\<close> in front of a pattern.\<close>

record pattern =
  pt_multi_line :: bool
  pt_any_case :: bool
  pt_regex :: regex

definition plain_pattern :: "regex \<Rightarrow> pattern" where
  "plain_pattern r = \<lparr>pt_multi_line = False, pt_any_case = False, pt_regex = r\<rparr>"

fun regex_seq :: "regex list \<Rightarrow> regex" where
  "regex_seq [] = Empty_Regex"
| "regex_seq [r] = r"
| "regex_seq (r # rs) = Then r (regex_seq rs)"

definition plain_text :: "string \<Rightarrow> regex" where
  "plain_text s = regex_seq (map (Literal False) s)"

section \<open>Their text\<close>

abbreviation backslash_char :: char where "backslash_char \<equiv> CHR 0x5C"
abbreviation newline :: char where "newline \<equiv> CHR 0x0A"

fun class_text :: "char_class \<Rightarrow> string" where
  "class_text Digit = [backslash_char, CHR ''d'']"
| "class_text Word_Char = [backslash_char, CHR ''w'']"
| "class_text Blank = [backslash_char, CHR ''s'']"
| "class_text Not_Blank = [backslash_char, CHR ''S'']"
| "class_text Dot = ''.''"
| "class_text (One_Of c) = [CHR ''['', c, CHR '']'']"
| "class_text (None_Of c) = [CHR ''['', CHR ''^'', c, CHR '']'']"

fun regex_text :: "regex \<Rightarrow> string" where
  "regex_text Empty_Regex = []"
| "regex_text Text_Start = ''^''"
| "regex_text Text_End = ''$''"
| "regex_text (Literal escaped c) =
     (if c = newline then [backslash_char, CHR ''n''] else if escaped then [backslash_char, c] else [c])"
| "regex_text (Class k) = class_text k"
| "regex_text (Many k) = class_text k @ ''*''"
| "regex_text (Many_Lazy k) = class_text k @ ''*?''"
| "regex_text (Some_Of k) = class_text k @ ''+''"
| "regex_text (Maybe r) = regex_text r @ ''?''"
| "regex_text (Group n r) = ''('' @ regex_text r @ '')''"
| "regex_text (Group_Plain r) = ''(?:'' @ regex_text r @ '')''"
| "regex_text (Then r s) = regex_text r @ regex_text s"

definition pattern_text :: "pattern \<Rightarrow> string" where
  "pattern_text p =
     (if pt_multi_line p then ''(?m)'' else []) @ (if pt_any_case p then ''(?i)'' else []) @ regex_text (pt_regex p)"

text \<open>The text of a pattern in the sources, with \<open>#\<close> for a backslash.\<close>

definition source_pattern :: "string \<Rightarrow> string" where
  "source_pattern s = map (\<lambda>c. if c = CHR ''#'' then backslash_char else c) s"

text \<open>Groups are numbered by their opening parentheses.\<close>

fun group_numbers :: "regex \<Rightarrow> nat list" where
  "group_numbers (Maybe r) = group_numbers r"
| "group_numbers (Group n r) = n # group_numbers r"
| "group_numbers (Group_Plain r) = group_numbers r"
| "group_numbers (Then r s) = group_numbers r @ group_numbers s"
| "group_numbers _ = []"

section \<open>Their meaning\<close>

definition is_digit_char :: "char \<Rightarrow> bool" where
  "is_digit_char c \<longleftrightarrow> 48 \<le> (of_char c :: nat) \<and> (of_char c :: nat) \<le> 57"

definition is_word_char :: "char \<Rightarrow> bool" where
  "is_word_char c \<longleftrightarrow> is_digit_char c \<or> c = CHR ''_'' \<or>
     97 \<le> (of_char (lower_char c) :: nat) \<and> (of_char (lower_char c) :: nat) \<le> 122"

definition is_white :: "char \<Rightarrow> bool" where
  "is_white c \<longleftrightarrow> c = CHR '' '' \<or> 9 \<le> (of_char c :: nat) \<and> (of_char c :: nat) \<le> 13"

fun in_class :: "char_class \<Rightarrow> char \<Rightarrow> bool" where
  "in_class Digit c \<longleftrightarrow> is_digit_char c"
| "in_class Word_Char c \<longleftrightarrow> is_word_char c"
| "in_class Blank c \<longleftrightarrow> is_white c"
| "in_class Not_Blank c \<longleftrightarrow> \<not> is_white c"
| "in_class Dot c \<longleftrightarrow> c \<noteq> newline"
| "in_class (One_Of d) c \<longleftrightarrow> c = d"
| "in_class (None_Of d) c \<longleftrightarrow> c \<noteq> d"

text \<open>A place in the text: what is behind (reversed), what is ahead, and the groups captured so far.\<close>

type_synonym place = "string \<times> string \<times> (nat \<times> string) list"

fun runs :: "char_class \<Rightarrow> place \<Rightarrow> place list" where
  "runs k (b, [], g) = [(b, [], g)]"
| "runs k (b, c # a, g) = (b, c # a, g) # (if in_class k c then runs k (c # b, a, g) else [])"

text \<open>The places a pattern can lead to, the preferred ones first.\<close>

fun results :: "bool \<Rightarrow> bool \<Rightarrow> regex \<Rightarrow> place \<Rightarrow> place list" where
  "results m i Empty_Regex p = [p]"
| "results m i Text_Start (b, a, g) = (if b = [] \<or> m \<and> hd b = newline then [(b, a, g)] else [])"
| "results m i Text_End (b, a, g) = (if a = [] \<or> m \<and> hd a = newline then [(b, a, g)] else [])"
| "results m i (Literal e c) (b, a, g) =
     (case a of
        x # xs \<Rightarrow> if x = c \<or> i \<and> lower_char x = lower_char c then [(x # b, xs, g)] else []
      | [] \<Rightarrow> [])"
| "results m i (Class k) (b, a, g) =
     (case a of x # xs \<Rightarrow> if in_class k x then [(x # b, xs, g)] else [] | [] \<Rightarrow> [])"
| "results m i (Many k) p = rev (runs k p)"
| "results m i (Many_Lazy k) p = runs k p"
| "results m i (Some_Of k) p = rev (tl (runs k p))"
| "results m i (Maybe r) p = results m i r p @ [p]"
| "results m i (Group n r) (b, a, g) =
     map (\<lambda>(b', a', g'). (b', a', (n, take (length a - length a') a) # g')) (results m i r (b, a, g))"
| "results m i (Group_Plain r) p = results m i r p"
| "results m i (Then r s) p = concat (map (results m i s) (results m i r p))"

definition matches_at :: "pattern \<Rightarrow> string \<Rightarrow> string \<Rightarrow> place list" where
  "matches_at t b a = results (pt_multi_line t) (pt_any_case t) (pt_regex t) (b, a, [])"

text \<open>\<open>Regex::captures\<close>: the leftmost match.\<close>

fun search :: "pattern \<Rightarrow> string \<Rightarrow> string \<Rightarrow> place option" where
  "search t b [] = (case matches_at t b [] of p # _ \<Rightarrow> Some p | [] \<Rightarrow> None)"
| "search t b (c # a) = (case matches_at t b (c # a) of p # _ \<Rightarrow> Some p | [] \<Rightarrow> search t (c # b) a)"

definition is_match :: "pattern \<Rightarrow> string \<Rightarrow> bool" where
  "is_match t s \<longleftrightarrow> search t [] s \<noteq> None"

definition capture :: "pattern \<Rightarrow> string \<Rightarrow> nat \<Rightarrow> string option" where
  "capture t s n = (case search t [] s of None \<Rightarrow> None | Some (b, a, g) \<Rightarrow> map_of g n)"

text \<open>\<open>Regex::replace_all\<close> with the empty text: what lies between the matches.\<close>

function delete_from :: "pattern \<Rightarrow> string \<Rightarrow> string \<Rightarrow> string" where
  "delete_from t b a =
     (let step = (case a of [] \<Rightarrow> [] | c # cs \<Rightarrow> c # delete_from t (c # b) cs)
      in case matches_at t b a of
           (b', a', g) # _ \<Rightarrow> if length a' < length a then delete_from t b' a' else step
         | [] \<Rightarrow> step)"
  by pat_completeness auto
termination by (relation "measure (\<lambda>(t, b, a). length a)") auto

declare delete_from.simps [simp del]

definition delete_all :: "pattern \<Rightarrow> string \<Rightarrow> string" where
  "delete_all t s = delete_from t [] s"

section \<open>What matches\<close>

lemma runs_conv:
  "set (runs k (b, a, g)) = {(rev w @ b, a', g) | w a'. a = w @ a' \<and> list_all (in_class k) w}"
proof (induction a arbitrary: b)
  case (Cons c a)
  show ?case
  proof (intro equalityI subsetI)
    fix x assume "x \<in> set (runs k (b, c # a, g))"
    then consider "x = (b, c # a, g)" | "in_class k c" "x \<in> set (runs k (c # b, a, g))" by (auto split: if_splits)
    then show "x \<in> {(rev w @ b, a', g) | w a'. c # a = w @ a' \<and> list_all (in_class k) w}"
    proof cases
      case 2
      then obtain w a' where "a = w @ a'" "list_all (in_class k) w" "x = (rev w @ c # b, a', g)" using Cons.IH by auto
      then show ?thesis using 2(1) by (auto intro!: exI [of _ "c # w"])
    qed auto
  next
    fix x assume "x \<in> {(rev w @ b, a', g) | w a'. c # a = w @ a' \<and> list_all (in_class k) w}"
    then obtain w a' where w: "c # a = w @ a'" "list_all (in_class k) w" "x = (rev w @ b, a', g)" by blast
    show "x \<in> set (runs k (b, c # a, g))"
    proof (cases w)
      case (Cons d w')
      then have "x \<in> set (runs k (c # b, a, g))" using w unfolding Cons.IH by auto
      then show ?thesis using w Cons by auto
    qed (use w in auto)
  qed
qed auto

lemma runs_tl_conv:
  "set (tl (runs k (b, a, g))) = {(rev w @ b, a', g) | w a'. a = w @ a' \<and> w \<noteq> [] \<and> list_all (in_class k) w}"
proof (cases a)
  case (Cons c cs)
  show ?thesis
  proof (intro equalityI subsetI)
    fix x assume "x \<in> set (tl (runs k (b, a, g)))"
    then have c: "in_class k c" "x \<in> set (runs k (c # b, cs, g))" by (auto simp: Cons split: if_splits)
    then obtain w a' where "cs = w @ a'" "list_all (in_class k) w" "x = (rev w @ c # b, a', g)" unfolding runs_conv by auto
    then show "x \<in> {(rev w @ b, a', g) | w a'. a = w @ a' \<and> w \<noteq> [] \<and> list_all (in_class k) w}"
      using c(1) by (auto simp: Cons intro!: exI [of _ "c # w"])
  next
    fix x assume "x \<in> {(rev w @ b, a', g) | w a'. a = w @ a' \<and> w \<noteq> [] \<and> list_all (in_class k) w}"
    then obtain w a' where w: "a = w @ a'" "w \<noteq> []" "list_all (in_class k) w" "x = (rev w @ b, a', g)" by blast
    then obtain w' where "w = c # w'" by (cases w) (auto simp: Cons)
    then show "x \<in> set (tl (runs k (b, a, g)))" using w by (auto simp: Cons runs_conv)
  qed
qed simp

lemma all_in_class [simp]:
  "list_all (in_class Dot) w \<longleftrightarrow> newline \<notin> set w"
  "list_all (in_class (None_Of d)) w \<longleftrightarrow> d \<notin> set w"
  "list_all (in_class Digit) w \<longleftrightarrow> list_all is_digit_char w"
  "list_all (in_class Word_Char) w \<longleftrightarrow> list_all is_word_char w"
  "list_all (in_class Blank) w \<longleftrightarrow> list_all is_white w"
  "list_all (in_class Not_Blank) w \<longleftrightarrow> list_all (\<lambda>c. \<not> is_white c) w"
  by (induction w) auto

text \<open>The texts a pattern can consume at a place. Groups have no part in it.\<close>

fun spans :: "bool \<Rightarrow> bool \<Rightarrow> regex \<Rightarrow> string \<Rightarrow> string \<Rightarrow> string \<Rightarrow> bool" where
  "spans m i Empty_Regex b w a \<longleftrightarrow> w = []"
| "spans m i Text_Start b w a \<longleftrightarrow> w = [] \<and> (b = [] \<or> m \<and> hd b = newline)"
| "spans m i Text_End b w a \<longleftrightarrow> w = [] \<and> (a = [] \<or> m \<and> hd a = newline)"
| "spans m i (Literal e c) b w a \<longleftrightarrow> (\<exists>x. w = [x] \<and> (x = c \<or> i \<and> lower_char x = lower_char c))"
| "spans m i (Class k) b w a \<longleftrightarrow> (\<exists>x. w = [x] \<and> in_class k x)"
| "spans m i (Many k) b w a \<longleftrightarrow> list_all (in_class k) w"
| "spans m i (Many_Lazy k) b w a \<longleftrightarrow> list_all (in_class k) w"
| "spans m i (Some_Of k) b w a \<longleftrightarrow> w \<noteq> [] \<and> list_all (in_class k) w"
| "spans m i (Maybe r) b w a \<longleftrightarrow> w = [] \<or> spans m i r b w a"
| "spans m i (Group n r) b w a \<longleftrightarrow> spans m i r b w a"
| "spans m i (Group_Plain r) b w a \<longleftrightarrow> spans m i r b w a"
| "spans m i (Then r s) b w a \<longleftrightarrow> (\<exists>u v. w = u @ v \<and> spans m i r b u (v @ a) \<and> spans m i s (rev u @ b) v a)"

lemma spans_one:
  "spans m i (Then (Class k) r) b w a \<longleftrightarrow> (\<exists>x v. w = x # v \<and> in_class k x \<and> spans m i r (x # b) v a)"
  "spans m i (Then (Literal e c) r) b w a \<longleftrightarrow>
     (\<exists>x v. w = x # v \<and> (x = c \<or> i \<and> lower_char x = lower_char c) \<and> spans m i r (x # b) v a)"
proof -
  have one: "(\<exists>u v. w = u @ v \<and> (\<exists>x. u = [x] \<and> Q x) \<and> P u v) \<longleftrightarrow> (\<exists>x v. w = x # v \<and> Q x \<and> P [x] v)" for P Q
    by (metis append_Cons append_Nil)
  show "spans m i (Then (Class k) r) b w a \<longleftrightarrow> (\<exists>x v. w = x # v \<and> in_class k x \<and> spans m i r (x # b) v a)"
    using one [of "in_class k" "\<lambda>u v. spans m i r (rev u @ b) v a"] by simp
  show "spans m i (Then (Literal e c) r) b w a \<longleftrightarrow>
     (\<exists>x v. w = x # v \<and> (x = c \<or> i \<and> lower_char x = lower_char c) \<and> spans m i r (x # b) v a)"
    using one [of "\<lambda>x. x = c \<or> i \<and> lower_char x = lower_char c" "\<lambda>u v. spans m i r (rev u @ b) v a"] by simp
qed

lemma spans_group:
  "spans m i (Then (Group n r) s) b w a \<longleftrightarrow> (\<exists>u v. w = u @ v \<and> spans m i r b u (v @ a) \<and> spans m i s (rev u @ b) v a)"
  by simp

definition reached :: "place list \<Rightarrow> (string \<times> string) set" where
  "reached ps = (\<lambda>(b, a, g). (b, a)) ` set ps"

lemma results_spans:
  "reached (results m i r (b, a, g)) = {(rev w @ b, a') | w a'. a = w @ a' \<and> spans m i r b w a'}"
proof (induction r arbitrary: b a g)
  case (Many k)
  then show ?case using runs_conv [of k b a g] by (auto simp: reached_def image_iff)
next
  case (Many_Lazy k)
  then show ?case using runs_conv [of k b a g] by (auto simp: reached_def image_iff)
next
  case (Some_Of k)
  then show ?case using runs_tl_conv [of k b a g] by (auto simp: reached_def image_iff)
next
  case (Maybe r)
  then show ?case using Maybe [of b a g] by (auto simp: reached_def)
next
  case (Group n r)
  have "reached (results m i (Group n r) (b, a, g)) = reached (results m i r (b, a, g))"
    by (force simp: reached_def image_iff)
  then show ?case using Group [of b a g] by simp
next
  case (Then r s)
  have "reached (results m i (Then r s) (b, a, g)) =
      (\<Union>(b', a', g') \<in> set (results m i r (b, a, g)). reached (results m i s (b', a', g')))"
    by (force simp: reached_def)
  also have "... = (\<Union>(b', a') \<in> reached (results m i r (b, a, g)). {(rev w @ b', a'') | w a''. a' = w @ a'' \<and> spans m i s b' w a''})"
    unfolding Then.IH(2) by (force simp: reached_def)
  also have "... = {(rev w @ b, a') | w a'. a = w @ a' \<and> spans m i (Then r s) b w a'}"
    unfolding Then.IH(1) by (auto; metis append.assoc rev_append)
  finally show ?case .
qed (auto simp: reached_def split: list.split)

lemma reached_Nil: "ps = [] \<longleftrightarrow> reached ps = {}"
  by (simp add: reached_def)

text \<open>A pattern is found at a place when it spans some of what is ahead.\<close>

lemma matches_at_iff:
  "matches_at t b s \<noteq> [] \<longleftrightarrow> (\<exists>w a. s = w @ a \<and> spans (pt_multi_line t) (pt_any_case t) (pt_regex t) b w a)"
  unfolding matches_at_def reached_Nil results_spans by auto

lemma search_iff:
  "search t b s \<noteq> None \<longleftrightarrow>
     (\<exists>u w a. s = u @ w @ a \<and> spans (pt_multi_line t) (pt_any_case t) (pt_regex t) (rev u @ b) w a)"
proof (induction s arbitrary: b)
  case Nil
  then show ?case using matches_at_iff [of t b "[]"] by (auto split: list.split)
next
  case (Cons c s)
  have "search t b (c # s) \<noteq> None \<longleftrightarrow> matches_at t b (c # s) \<noteq> [] \<or> search t (c # b) s \<noteq> None" by (simp split: list.split)
  also have "... \<longleftrightarrow> (\<exists>u w a. c # s = u @ w @ a \<and> spans (pt_multi_line t) (pt_any_case t) (pt_regex t) (rev u @ b) w a)"
    (is "?l \<longleftrightarrow> ?r")
  proof
    assume ?l
    then show ?r
    proof
      assume "matches_at t b (c # s) \<noteq> []"
      then obtain w a where "c # s = [] @ w @ a \<and> spans (pt_multi_line t) (pt_any_case t) (pt_regex t) (rev [] @ b) w a"
        unfolding matches_at_iff by auto
      then show ?r by blast
    next
      assume "search t (c # b) s \<noteq> None"
      then obtain u w a where "s = u @ w @ a" "spans (pt_multi_line t) (pt_any_case t) (pt_regex t) (rev (c # u) @ b) w a"
        unfolding Cons.IH by auto
      then show ?r by (metis append_Cons)
    qed
  next
    assume ?r
    then obtain u w a where u: "c # s = u @ w @ a" "spans (pt_multi_line t) (pt_any_case t) (pt_regex t) (rev u @ b) w a" by blast
    show ?l
    proof (cases u)
      case Nil
      then show ?thesis using u unfolding matches_at_iff by auto
    next
      case (Cons d v)
      then have "s = v @ w @ a" "spans (pt_multi_line t) (pt_any_case t) (pt_regex t) (rev v @ c # b) w a" using u by auto
      then show ?thesis unfolding Cons.IH by blast
    qed
  qed
  finally show ?case .
qed

section \<open>Groups\<close>

text \<open>Matching adds groups of the pattern to those captured before.\<close>

lemma results_groups:
  "(b', a', g') \<in> set (results m i r (b, a, g)) \<Longrightarrow> \<exists>h. g' = h @ g \<and> fst ` set h \<subseteq> set (group_numbers r)"
proof (induction r arbitrary: b a g b' a' g')
  case (Many k)
  then show ?case using runs_conv [of k b a g] by auto
next
  case (Many_Lazy k)
  then show ?case using runs_conv [of k b a g] by auto
next
  case (Some_Of k)
  then show ?case using runs_tl_conv [of k b a g] by auto
next
  case (Maybe r)
  then show ?case by fastforce
next
  case (Group n r)
  then obtain g1 where "(b', a', g1) \<in> set (results m i r (b, a, g))" "g' = (n, take (length a - length a') a) # g1" by auto
  then show ?case using Group.IH by fastforce
next
  case (Then r s)
  then obtain b1 a1 g1 where r: "(b1, a1, g1) \<in> set (results m i r (b, a, g))" and s: "(b', a', g') \<in> set (results m i s (b1, a1, g1))"
    by auto
  show ?case using Then.IH(1) [OF r] Then.IH(2) [OF s] by fastforce
qed (auto split: list.splits if_splits)

lemma results_span:
  assumes "(b', a', g') \<in> set (results m i r (b, a, g))"
  shows "\<exists>w. a = w @ a' \<and> b' = rev w @ b \<and> spans m i r b w a'"
proof -
  have "(b', a') \<in> reached (results m i r (b, a, g))"
    unfolding reached_def by (rule image_eqI [OF _ assms]) simp
  then show ?thesis unfolding results_spans by blast
qed

text \<open>A sequence cut in two.\<close>

lemma results_append:
  "rs \<noteq> [] \<Longrightarrow> ss \<noteq> [] \<Longrightarrow>
     results m i (regex_seq (rs @ ss)) p = concat (map (results m i (regex_seq ss)) (results m i (regex_seq rs) p))"
proof (induction rs arbitrary: p rule: regex_seq.induct)
  case (2 r)
  then show ?case by (cases ss) auto
next
  case (3 r r' rs)
  have flat: "concat (map (\<lambda>q. concat (map f (g q))) ps) = concat (map f (concat (map g ps)))" for f g and ps :: "place list"
    by (induction ps) auto
  have rest: "results m i (regex_seq (r' # rs @ ss)) =
      (\<lambda>q. concat (map (results m i (regex_seq ss)) (results m i (regex_seq (r' # rs)) q)))"
    by (rule ext) (use 3 in simp)
  show ?case using flat [of "results m i (regex_seq ss)" "results m i (regex_seq (r' # rs))" "results m i r p"]
    by (simp add: rest)
qed simp

text \<open>The greedy run of a class comes first.\<close>

lemma runs_longest:
  "\<exists>ps. rev (runs k (b, a, g)) = (rev (takeWhile (in_class k) a) @ b, dropWhile (in_class k) a, g) # ps"
proof (induction a arbitrary: b)
  case (Cons c a)
  obtain ps where "rev (runs k (c # b, a, g)) = (rev (takeWhile (in_class k) a) @ c # b, dropWhile (in_class k) a, g) # ps"
    using Cons by blast
  then show ?case by simp
qed simp

text \<open>A sequence of parts without groups and of groups without groups in them: what each consumed, and the groups in order.\<close>

fun flat_part :: "regex \<Rightarrow> bool" where
  "flat_part (Group n r) \<longleftrightarrow> group_numbers r = []"
| "flat_part r \<longleftrightarrow> group_numbers r = []"

fun part_group :: "regex \<Rightarrow> string \<Rightarrow> (nat \<times> string) list" where
  "part_group (Group n r) u = [(n, u)]"
| "part_group r u = []"

lemma part_result:
  assumes "p \<in> set (results m i r (b, a, g))" "flat_part r"
  shows "\<exists>u a'. a = u @ a' \<and> spans m i r b u a' \<and> p = (rev u @ b, a', part_group r u @ g)"
proof -
  obtain b' a' g' where p: "p = (b', a', g')" by (cases p)
  obtain u where u: "a = u @ a'" "b' = rev u @ b" "spans m i r b u a'" using results_span assms(1) unfolding p by blast
  have "g' = part_group r u @ g"
  proof (cases "\<exists>n s. r = Group n s")
    case True
    then obtain n s where r: "r = Group n s" by blast
    then obtain g1 where g1: "(b', a', g1) \<in> set (results m i s (b, a, g))" "g' = (n, take (length a - length a') a) # g1"
      using assms(1) p by auto
    have "g1 = g" using results_groups [OF g1(1)] assms(2) r by auto
    then show ?thesis using g1(2) u(1) r by simp
  next
    case False
    then have "group_numbers r = []" "part_group r u = []" using assms(2) by (cases r; simp)+
    then show ?thesis using results_groups assms(1) unfolding p by fastforce
  qed
  then show ?thesis using u p by blast
qed

lemma seq_result:
  assumes "p \<in> set (results m i (regex_seq rs) (b, a, g))" "\<forall>r \<in> set rs. flat_part r"
  shows "\<exists>us b' a'. a = concat us @ a' \<and> list_all2 (\<lambda>r u. \<exists>b a. spans m i r b u a) rs us \<and>
    p = (b', a', rev (concat (map2 part_group rs us)) @ g)"
  using assms
proof (induction rs arbitrary: b a g rule: regex_seq.induct)
  case 1
  then show ?case by simp
next
  case (2 r)
  then obtain u a' where u: "a = u @ a'" "spans m i r b u a'" "p = (rev u @ b, a', part_group r u @ g)"
    using part_result [of p m i r b a g] by auto
  have "rev (part_group r u) = part_group r u" by (cases r) auto
  then show ?case using u by (intro exI [of _ "[u]"]) auto
next
  case (3 r r' rs)
  then obtain q where q: "q \<in> set (results m i r (b, a, g))" "p \<in> set (results m i (regex_seq (r' # rs)) q)" by auto
  then obtain u a1 where u: "a = u @ a1" "spans m i r b u a1" "q = (rev u @ b, a1, part_group r u @ g)"
    using part_result 3(3) by (metis list.set_intros(1))
  obtain us b' a' where us: "a1 = concat us @ a'" "list_all2 (\<lambda>r u. \<exists>b a. spans m i r b u a) (r' # rs) us"
    "p = (b', a', rev (concat (map2 part_group (r' # rs) us)) @ part_group r u @ g)"
    using 3(1) [OF q(2) [unfolded u(3)]] 3(3) by auto
  have "rev (part_group r u) = part_group r u" by (cases r) auto
  then show ?case using u us
    by (intro exI [of _ "u # us"] exI [of _ b'] exI [of _ a']) auto
qed

text \<open>A group followed by a pattern without groups of its number: what it captured, and that the rest follows.\<close>

lemma group_then:
  assumes "(b', a', g') \<in> set (results m i (Then (Group n r) s) (b, a, g))" "n \<notin> set (group_numbers s)"
  obtains u v where "a = u @ v @ a'" "map_of g' n = Some u" "spans m i r b u (v @ a')" "spans m i s (rev u @ b) v a'"
proof -
  obtain b1 a1 g1 where r: "(b1, a1, g1) \<in> set (results m i r (b, a, g))"
    and s: "(b', a', g') \<in> set (results m i s (b1, a1, (n, take (length a - length a1) a) # g1))"
    using assms(1) by auto
  obtain u where u: "a = u @ a1" "b1 = rev u @ b" "spans m i r b u a1" using results_span [OF r] by blast
  obtain v where v: "a1 = v @ a'" "spans m i s b1 v a'" using results_span [OF s] by blast
  obtain h where "g' = h @ (n, take (length a - length a1) a) # g1" "fst ` set h \<subseteq> set (group_numbers s)"
    using results_groups [OF s] by blast
  moreover have "take (length a - length a1) a = u" using u(1) by simp
  ultimately have g': "g' = h @ (n, u) # g1" "map_of h n = None" using assms(2) by (auto simp: map_of_eq_None_iff)
  then have "map_of g' n = Some u" by (simp add: map_add_def)
  then show ?thesis using that u v by blast
qed

section \<open>Patterns tied to the start of the text\<close>

text \<open>Without \<open>(?m)\<close> such a pattern is only tried at the start.\<close>

lemma search_later: "\<not> pt_multi_line t \<Longrightarrow> pt_regex t = Then Text_Start r \<Longrightarrow> b \<noteq> [] \<Longrightarrow> search t b a = None"
  by (induction t b a rule: search.induct) (simp_all add: matches_at_def)

lemma search_start:
  assumes "\<not> pt_multi_line t" "pt_regex t = Then Text_Start r"
  shows "search t [] s = (case results False (pt_any_case t) r ([], s, []) of p # _ \<Rightarrow> Some p | [] \<Rightarrow> None)"
  using assms by (cases s) (auto simp: matches_at_def search_later split: list.split)

lemma search_start_result:
  assumes "\<not> pt_multi_line t" "pt_regex t = Then Text_Start r" "search t [] s = Some p"
  shows "p \<in> set (results False (pt_any_case t) r ([], s, []))"
  using assms(3) unfolding search_start [OF assms(1,2)]
  by (cases "results False (pt_any_case t) r ([], s, [])") auto

lemma is_match_start:
  assumes "\<not> pt_multi_line t" "pt_regex t = Then Text_Start r"
  shows "is_match t s \<longleftrightarrow> (\<exists>w a. s = w @ a \<and> spans False (pt_any_case t) r [] w a)"
proof -
  have "is_match t s \<longleftrightarrow> results False (pt_any_case t) r ([], s, []) \<noteq> []"
    by (simp add: is_match_def search_start [OF assms] split: list.split)
  then show ?thesis unfolding reached_Nil results_spans by auto
qed

text \<open>A pattern from the start to the end of the text.\<close>

lemma spans_end: "spans False i (regex_seq (rs @ [Text_End])) b w a \<Longrightarrow> a = []"
proof (induction rs arbitrary: b w a)
  case (Cons r rs)
  then show ?case by (cases rs) (auto; blast)+
qed simp

lemma is_match_whole:
  assumes "\<not> pt_multi_line t" "pt_regex t = Then Text_Start (regex_seq (rs @ [Text_End]))"
  shows "is_match t s \<longleftrightarrow> spans False (pt_any_case t) (regex_seq (rs @ [Text_End])) [] s []"
proof -
  have "(\<exists>w a. s = w @ a \<and> spans False (pt_any_case t) (regex_seq (rs @ [Text_End])) [] w a) \<longleftrightarrow>
      spans False (pt_any_case t) (regex_seq (rs @ [Text_End])) [] s []"
  proof
    assume "\<exists>w a. s = w @ a \<and> spans False (pt_any_case t) (regex_seq (rs @ [Text_End])) [] w a"
    then obtain w a where w: "s = w @ a" "spans False (pt_any_case t) (regex_seq (rs @ [Text_End])) [] w a" by blast
    then show "spans False (pt_any_case t) (regex_seq (rs @ [Text_End])) [] s []" using spans_end [OF w(2)] by simp
  next
    assume *: "spans False (pt_any_case t) (regex_seq (rs @ [Text_End])) [] s []"
    show "\<exists>w a. s = w @ a \<and> spans False (pt_any_case t) (regex_seq (rs @ [Text_End])) [] w a"
      by (rule exI [of _ s], rule exI [of _ "[]"]) (simp add: *)
  qed
  then show ?thesis unfolding is_match_start [OF assms] .
qed

lemma capture_start:
  assumes "\<not> pt_multi_line t" "pt_regex t = Then Text_Start r" "capture t s n = Some u"
  obtains b' a' g' where "(b', a', g') \<in> set (results False (pt_any_case t) r ([], s, []))" "map_of g' n = Some u"
proof -
  obtain p ps where p: "results False (pt_any_case t) r ([], s, []) = p # ps" "(case p of (b, a, g) \<Rightarrow> map_of g n) = Some u"
    using assms(3) by (auto simp: capture_def search_start [OF assms(1,2)] split: list.splits)
  then show ?thesis using that [of "fst p" "fst (snd p)" "snd (snd p)"] by (auto split: prod.splits)
qed

text \<open>Plain text stands for itself, or for the same letters in any case.\<close>

lemma spans_literals:
  "spans m i (regex_seq (map (Literal False) s)) b w a \<longleftrightarrow> list_all2 (\<lambda>x c. x = c \<or> i \<and> lower_char x = lower_char c) w s"
proof (induction "map (Literal False) s" arbitrary: s b w a rule: regex_seq.induct)
  case (3 r1 r2 rs)
  then obtain c d s' where s: "s = c # d # s'" by (auto simp: map_eq_Cons_conv)
  have "spans m i (regex_seq (map (Literal False) (d # s'))) b' w' a' \<longleftrightarrow>
      list_all2 (\<lambda>x c. x = c \<or> i \<and> lower_char x = lower_char c) w' (d # s')" for b' w' a'
    by (rule "3.hyps"(1)) (use 3(2) s in simp)
  then show ?case by (cases w) (auto simp: s spans_one simp del: spans.simps(12))
qed (auto simp: map_eq_Cons_conv list_all2_Cons2)

lemma spans_plain_text [simp]:
  "spans m False (plain_text s) b w a \<longleftrightarrow> w = s"
  "spans m True (plain_text s) b w a \<longleftrightarrow> map lower_char w = map lower_char s"
proof -
  show "spans m False (plain_text s) b w a \<longleftrightarrow> w = s" by (simp add: plain_text_def spans_literals list_all2_eq)
  have "list_all2 (\<lambda>x c. x = c \<or> lower_char x = lower_char c) w s \<longleftrightarrow> map lower_char w = map lower_char s"
    by (induction w s rule: list_induct2') auto
  then show "spans m True (plain_text s) b w a \<longleftrightarrow> map lower_char w = map lower_char s"
    by (simp add: plain_text_def spans_literals)
qed

lemma lower_char_other:
  assumes "\<not> is_word_char c"
  shows "lower_char x = c \<longleftrightarrow> x = c"
proof -
  have letter: "is_word_char (lower_char x)" "is_word_char x" if "65 \<le> (of_char x :: nat)" "(of_char x :: nat) \<le> 90" for x
    using that by (simp_all add: is_word_char_def lower_char_def)
  show ?thesis using assms letter by (auto simp: lower_char_def Let_def)
qed

lemma lower_char_same: "\<not> is_word_char c \<Longrightarrow> lower_char x = lower_char c \<longleftrightarrow> x = c"
  using lower_char_other [of c x] lower_char_other [of c c] by simp

end
