(* ===== verification/Xg_Patterns.thy ===== *)
theory Xg_Patterns
  imports Xg_Schedule Regex
begin

text \<open>
  The patterns of \<open>src/bin/xgConsole.rs\<close>: which arguments are flags, and which files a mask with \<open>?\<close> and \<open>*\<close> stands for on
  Windows, where the mask is turned into a pattern.
\<close>

text \<open>The crate runs a pattern as documented, on ASCII.\<close>

definition runs_pattern :: "console \<Rightarrow> pattern \<Rightarrow> bool" where
  "runs_pattern co t \<longleftrightarrow> (\<forall>s. list_all is_ascii s \<longrightarrow> (co_is_match co (pattern_text t) s \<longleftrightarrow> is_match t s))"

section \<open>Flags\<close>

definition flag_pattern :: pattern where
  "flag_pattern = plain_pattern (Then Text_Start (regex_seq
     [Literal False slash, Some_Of Word_Char, Maybe (Group 1 (Then (Class (One_Of (CHR ''=''))) (Many Dot))), Text_End]))"

lemma flag_pattern_text: "is_flag co arg = co_is_match co (pattern_text flag_pattern) arg"
  by (simp add: is_flag_def flag_pattern_def plain_pattern_def pattern_text_def)

lemma flag_pattern_match:
  "is_match flag_pattern arg \<longleftrightarrow>
     (\<exists>name. name \<noteq> [] \<and> list_all is_word_char name \<and>
        (arg = slash # name \<or> (\<exists>v. arg = slash # name @ CHR ''='' # v \<and> newline \<notin> set v)))"
proof -
  have regex: "pt_regex flag_pattern = Then Text_Start (regex_seq
      ([Literal False slash, Some_Of Word_Char, Maybe (Group 1 (Then (Class (One_Of (CHR ''=''))) (Many Dot)))] @ [Text_End]))"
    by (simp add: flag_pattern_def plain_pattern_def)
  have "\<not> pt_multi_line flag_pattern" "\<not> pt_any_case flag_pattern" by (simp_all add: flag_pattern_def plain_pattern_def)
  then show ?thesis using is_match_whole [OF _ regex, of arg] by auto
qed

section \<open>Masks\<close>

text \<open>What a mask stands for.\<close>

fun mask_matches :: "string \<Rightarrow> string \<Rightarrow> bool" where
  "mask_matches [] s \<longleftrightarrow> s = []"
| "mask_matches (c # w) [] \<longleftrightarrow> c = CHR ''*'' \<and> mask_matches w []"
| "mask_matches (c # w) (x # s) \<longleftrightarrow>
     (if c = CHR ''*'' then mask_matches w (x # s) \<or> mask_matches (c # w) s
      else (c = CHR ''?'' \<or> x = c) \<and> mask_matches w s)"

text \<open>\<open>regex::escape\<close> puts a backslash in front of the characters that mean something in a pattern.\<close>

definition escapes :: "console \<Rightarrow> (char \<Rightarrow> bool) \<Rightarrow> bool" where
  "escapes co special \<longleftrightarrow>
     (\<forall>s. list_all is_ascii s \<longrightarrow> co_escape co s = concat (map (\<lambda>c. if special c then [backslash_char, c] else [c]) s))"

definition mask_part :: "(char \<Rightarrow> bool) \<Rightarrow> char \<Rightarrow> regex" where
  "mask_part special c =
     (if c = CHR ''?'' then Class Dot else if c = CHR ''*'' then Many Dot else Literal (special c) c)"

definition mask_pattern :: "(char \<Rightarrow> bool) \<Rightarrow> string \<Rightarrow> pattern" where
  "mask_pattern special w = plain_pattern (Then Text_Start (regex_seq (map (mask_part special) w @ [Text_End])))"

lemma regex_text_seq: "regex_text (regex_seq rs) = concat (map regex_text rs)"
  by (induction rs rule: regex_seq.induct) auto

lemma mask_part_text:
  "c \<noteq> newline \<Longrightarrow> regex_text (mask_part special c) =
     (if is_mask_char c then (if c = CHR ''?'' then ''.'' else ''.*'') else if special c then [backslash_char, c] else [c])"
  by (simp add: mask_part_def is_mask_char_def)

text \<open>The part between two signs of the mask.\<close>

lemma mask_chunk_text:
  assumes "escapes co special" "list_all is_ascii chunk" "newline \<notin> set chunk" "\<not> (\<exists>c \<in> set chunk. is_mask_char c)"
  shows "co_escape co chunk = concat (map (\<lambda>c. regex_text (mask_part special c)) chunk)"
proof -
  have each: "regex_text (mask_part special c) = (if special c then [backslash_char, c] else [c])" if "c \<in> set chunk" for c
  proof -
    have "c \<noteq> newline" "\<not> is_mask_char c" using that assms(3,4) by auto
    then show ?thesis by (simp add: mask_part_text)
  qed
  have "map (\<lambda>c. if special c then [backslash_char, c] else [c]) chunk = map (\<lambda>c. regex_text (mask_part special c)) chunk"
    by (rule map_cong [OF refl]) (simp only: each)
  moreover have "co_escape co chunk = concat (map (\<lambda>c. if special c then [backslash_char, c] else [c]) chunk)"
    using assms(1,2) by (simp add: escapes_def)
  ultimately show ?thesis by (simp only:)
qed

lemma mask_loop_text:
  assumes "escapes co special" "list_all is_ascii (chunk @ w)" "newline \<notin> set (chunk @ w)" "\<not> (\<exists>c \<in> set chunk. is_mask_char c)"
  shows "mask_loop co chunk w = concat (map (\<lambda>c. regex_text (mask_part special c)) (chunk @ w))"
  using assms(2-4)
proof (induction w arbitrary: chunk)
  case Nil
  then show ?case using mask_chunk_text [OF assms(1)] by simp
next
  case (Cons c w)
  have chunk: "co_escape co chunk = concat (map (\<lambda>c. regex_text (mask_part special c)) chunk)"
    using Cons.prems by (intro mask_chunk_text [OF assms(1)]) auto
  show ?case
  proof (cases "is_mask_char c")
    case True
    then have "mask_loop co [] w = concat (map (\<lambda>c. regex_text (mask_part special c)) ([] @ w))"
      using Cons.prems by (intro Cons.IH) auto
    then show ?thesis using True chunk Cons.prems by (auto simp: mask_part_text)
  next
    case False
    then have "mask_loop co (chunk @ [c]) w = concat (map (\<lambda>c. regex_text (mask_part special c)) ((chunk @ [c]) @ w))"
      using Cons.prems by (intro Cons.IH) auto
    then show ?thesis using False by simp
  qed
qed

lemma mask_to_regex_text:
  assumes "escapes co special" "list_all is_ascii w" "newline \<notin> set w"
  shows "mask_to_regex co w = pattern_text (mask_pattern special w)"
  using mask_loop_text [of co special "[]" w] assms
  by (simp add: mask_to_regex_def mask_pattern_def plain_pattern_def pattern_text_def regex_text_seq comp_def)

lemma mask_star: "newline \<notin> set s \<Longrightarrow>
  mask_matches (CHR ''*'' # w) s \<longleftrightarrow> (\<exists>u v. s = u @ v \<and> newline \<notin> set u \<and> mask_matches w v)"
proof (induction s)
  case (Cons x s)
  show ?case
  proof
    assume "mask_matches (CHR ''*'' # w) (x # s)"
    then consider "mask_matches w (x # s)" | "mask_matches (CHR ''*'' # w) s" by auto
    then show "\<exists>u v. x # s = u @ v \<and> newline \<notin> set u \<and> mask_matches w v"
    proof cases
      case 1
      then show ?thesis by (intro exI [of _ "[]"] exI [of _ "x # s"]) simp
    next
      case 2
      then obtain u v where "s = u @ v" "newline \<notin> set u" "mask_matches w v" using Cons by auto
      then show ?thesis using Cons.prems by (intro exI [of _ "x # u"] exI [of _ v]) auto
    qed
  next
    assume "\<exists>u v. x # s = u @ v \<and> newline \<notin> set u \<and> mask_matches w v"
    then obtain u v where uv: "x # s = u @ v" "newline \<notin> set u" "mask_matches w v" by blast
    show "mask_matches (CHR ''*'' # w) (x # s)"
    proof (cases u)
      case (Cons d u')
      then have "mask_matches (CHR ''*'' # w) s" using Cons.IH Cons.prems uv by auto
      then show ?thesis by simp
    qed (use uv in auto)
  qed
qed auto

lemma mask_spans:
  "newline \<notin> set s \<Longrightarrow> spans False False (regex_seq (map (mask_part special) w @ [Text_End])) b s [] \<longleftrightarrow> mask_matches w s"
proof (induction w arbitrary: b s)
  case (Cons c w)
  have step: "regex_seq (map (mask_part special) (c # w) @ [Text_End]) =
      Then (mask_part special c) (regex_seq (map (mask_part special) w @ [Text_End]))"
    by (cases w) auto
  have IH: "spans False False (regex_seq (map (mask_part special) w @ [Text_End])) b' v [] \<longleftrightarrow> mask_matches w v"
    if "s = u @ v" for b' u v
    using Cons that by simp
  consider (star) "c = CHR ''*''" | (any) "c = CHR ''?''" | (plain) "c \<noteq> CHR ''*''" "c \<noteq> CHR ''?''" by blast
  then show ?case
  proof cases
    case star
    have "(\<exists>u v. s = u @ v \<and> newline \<notin> set u \<and> spans False False (regex_seq (map (mask_part special) w @ [Text_End])) (rev u @ b) v []) \<longleftrightarrow>
        (\<exists>u v. s = u @ v \<and> newline \<notin> set u \<and> mask_matches w v)"
      using IH by blast
    then have "spans False False (regex_seq (map (mask_part special) (c # w) @ [Text_End])) b s [] \<longleftrightarrow>
        (\<exists>u v. s = u @ v \<and> newline \<notin> set u \<and> mask_matches w v)"
      unfolding step using star by (simp add: mask_part_def)
    then show ?thesis using star mask_star [OF Cons.prems, of w] by simp
  next
      case any
    then show ?thesis
      unfolding step using IH [of "[x]" v for x v] Cons.prems
      by (cases s) (auto simp: mask_part_def spans_one simp del: spans.simps(12))
  next
    case plain
    then show ?thesis
      unfolding step using IH [of "[x]" v for x v]
      by (cases s) (auto simp: mask_part_def spans_one simp del: spans.simps(12))
  qed
qed auto

lemma mask_pattern_match:
  assumes "newline \<notin> set s"
  shows "is_match (mask_pattern special w) s \<longleftrightarrow> mask_matches w s"
proof -
  have "pt_regex (mask_pattern special w) = Then Text_Start (regex_seq (map (mask_part special) w @ [Text_End]))"
    by (simp add: mask_pattern_def plain_pattern_def)
  then have "is_match (mask_pattern special w) s \<longleftrightarrow>
      spans False (pt_any_case (mask_pattern special w)) (regex_seq (map (mask_part special) w @ [Text_End])) [] s []"
    by (intro is_match_whole) (simp_all add: mask_pattern_def plain_pattern_def)
  then show ?thesis using mask_spans [OF assms, of special w "[]"] by (simp add: mask_pattern_def plain_pattern_def)
qed

section \<open>The command line of the console\<close>

text \<open>A name of a directory the mask can be compared with.\<close>

definition name_ok :: "console \<Rightarrow> string \<Rightarrow> bool" where
  "name_ok co name \<longleftrightarrow> list_all is_ascii (co_lower co name) \<and> newline \<notin> set (co_lower co name)"

definition entry_matches :: "console \<Rightarrow> string \<Rightarrow> string option \<times> path \<Rightarrow> bool" where
  "entry_matches co wild e \<longleftrightarrow>
     (case fst e of None \<Rightarrow> False | Some name \<Rightarrow> mask_matches (co_lower co wild) (co_lower co name))"

lemma find_files_mask:
  assumes "escapes co special" "runs_pattern co (mask_pattern special (co_lower co wild))" "name_ok co wild"
    "co_read_dir co dir = Inr (map Inr es)" "list_all (\<lambda>e. case fst e of None \<Rightarrow> True | Some name \<Rightarrow> name_ok co name) es"
  shows "find_files co dir wild = Inr (map snd (filter (entry_matches co wild) es))"
proof -
  have expr: "mask_to_regex co (co_lower co wild) = pattern_text (mask_pattern special (co_lower co wild))"
    using assms(1,3) by (intro mask_to_regex_text) (auto simp: name_ok_def)
  have test: "co_is_match co (pattern_text (mask_pattern special (co_lower co wild))) (co_lower co name) \<longleftrightarrow>
      mask_matches (co_lower co wild) (co_lower co name)" if "name_ok co name" for name
    using assms(2) that mask_pattern_match by (simp add: runs_pattern_def name_ok_def)
  have "matching_entries co (pattern_text (mask_pattern special (co_lower co wild))) (map Inr es) =
      Inr (map snd (filter (entry_matches co wild) es))"
    using assms(5)
  proof (induction es)
    case (Cons e es)
    then show ?case using test by (cases e; cases "fst e") (auto simp: entry_matches_def)
  qed simp
  then show ?thesis using assms(4) by (simp add: find_files_def expr Let_def)
qed

text \<open>Which arguments are taken for flags and skipped: a slash, a word, and nothing else or an equals sign with anything in the
  line behind it. An absolute Unix path of one part, such as a task file in the root directory without an extension, is one.\<close>

lemma is_flag_form:
  assumes "runs_pattern co flag_pattern" "list_all is_ascii arg"
  shows "is_flag co arg \<longleftrightarrow>
    (\<exists>name. name \<noteq> [] \<and> list_all is_word_char name \<and>
       (arg = slash # name \<or> (\<exists>v. arg = slash # name @ CHR ''='' # v \<and> newline \<notin> set v)))"
  using assms by (simp add: flag_pattern_text runs_pattern_def flag_pattern_match)

text \<open>C38: On Windows an argument whose file name holds \<open>?\<close> or \<open>*\<close> stands for the files of its directory that the mask
  describes, in the order of the directory and whatever the case of their names: a \<open>?\<close> for one character, a \<open>*\<close> for any number,
  every other character, be it special in a regular expression or not, for itself. When there is no such file it stands for itself.\<close>

theorem expand_files_mask:
  assumes "co_host co = Windows" "co_file_name co arg = Some wild" "co_parent co arg = Some dir"
    "CHR ''?'' \<in> set wild \<or> CHR ''*'' \<in> set wild"
    "escapes co special" "runs_pattern co (mask_pattern special (co_lower co wild))" "name_ok co wild"
    "co_read_dir co dir = Inr (map Inr es)" "list_all (\<lambda>e. case fst e of None \<Rightarrow> True | Some name \<Rightarrow> name_ok co name) es"
  shows "expand_files co files arg =
    files @ (let found = map snd (filter (entry_matches co wild) es) in if found = [] then [arg] else found)"
proof -
  have "\<exists>c \<in> set wild. is_mask_char c" using assms(4) by (auto simp: is_mask_char_def)
  then show ?thesis
    using find_files_mask [OF assms(5-9)] assms(1-3) by (simp add: expand_files_def Let_def)
qed

definition mask_entries :: "(string option \<times> path) list" where
  "mask_entries = [(Some ''ab.XML'', ''d/ab.XML''), (Some ''abxml'', ''d/abxml''), (None, ''d/x''), (Some ''a..xil'', ''d/a..xil''),
     (Some ''b.xml'', ''d/b.xml'')]"

definition mask_console :: console where
  "mask_console = sample_console
     \<lparr>co_host := Windows, co_file_name := (\<lambda>_. Some ''A*.x?l''), co_parent := (\<lambda>_. Some ''d''), co_lower := map lower_char,
      co_escape := (\<lambda>s. concat (map (\<lambda>c. if c = CHR ''.'' then [backslash_char, c] else [c]) s)),
      co_is_match := (\<lambda>text s. is_match (mask_pattern (\<lambda>c. c = CHR ''.'') ''a*.x?l'') s),
      co_read_dir := (\<lambda>_. Inr (map Inr mask_entries))\<rparr>"

lemma mask_names: "list_all (\<lambda>n. list_all is_ascii (map lower_char n) \<and> newline \<notin> set (map lower_char n))
    [''A*.x?l'', ''ab.XML'', ''abxml'', ''a..xil'', ''b.xml'']"
  by code_simp

lemma mask_results:
  "map lower_char ''A*.x?l'' = ''a*.x?l''"
  "mask_matches (map lower_char ''A*.x?l'') (map lower_char ''ab.XML'')"
  "\<not> mask_matches (map lower_char ''A*.x?l'') (map lower_char ''abxml'')"
  "mask_matches (map lower_char ''A*.x?l'') (map lower_char ''a..xil'')"
  "\<not> mask_matches (map lower_char ''A*.x?l'') (map lower_char ''b.xml'')"
  by code_simp+

lemma expand_files_mask_witness:
  "expand_files mask_console [''f''] ''d/A*.x?l'' = [''f'', ''d/ab.XML'', ''d/a..xil'']"
proof -
  have lower: "co_lower mask_console = map lower_char" by (simp add: mask_console_def)
  have names: "name_ok mask_console n" if "n \<in> {''A*.x?l'', ''ab.XML'', ''abxml'', ''a..xil'', ''b.xml''}" for n
    using that mask_names unfolding name_ok_def lower by auto
  have runs: "runs_pattern mask_console (mask_pattern (\<lambda>c. c = CHR ''.'') (co_lower mask_console ''A*.x?l''))"
    unfolding runs_pattern_def lower mask_results(1) by (simp add: mask_console_def)
  have console: "co_host mask_console = Windows" "co_file_name mask_console ''d/A*.x?l'' = Some ''A*.x?l''"
    "co_parent mask_console ''d/A*.x?l'' = Some ''d''" "escapes mask_console (\<lambda>c. c = CHR ''.'')"
    "co_read_dir mask_console ''d'' = Inr (map Inr mask_entries)"
    by (simp_all add: mask_console_def escapes_def)
  have ok: "list_all (\<lambda>e. case fst e of None \<Rightarrow> True | Some name \<Rightarrow> name_ok mask_console name) mask_entries"
    using names unfolding mask_entries_def by simp
  have "map snd (filter (entry_matches mask_console ''A*.x?l'') mask_entries) = [''d/ab.XML'', ''d/a..xil'']"
    using mask_results(2-5) unfolding entry_matches_def lower mask_entries_def
    by (simp del: list.map) (simp only: list.map snd_conv)
  then show ?thesis
    using expand_files_mask [OF console(1-3) _ console(4) runs names console(5) ok, of "[''f'']"] by simp
qed

section \<open>The unit test\<close>

definition test_is_flag :: "(string \<Rightarrow> bool) \<Rightarrow> bool" where
  "test_is_flag f \<longleftrightarrow>
     f ''/Wait'' = True \<and> f ''/out=/foo/bar'' = True \<and> f ''/out/foo/bar'' = False \<and> f ''foo/bar'' = False \<and>
     f ''/Wait.xml'' = False \<and> f ''/Wait/foo=bar'' = False \<and> f ''/WaitFoo=bar'' = True \<and> f ''/Wait.Foo=bar'' = False \<and>
     f ''/Wait=/foo/bar'' = True"

lemma is_flag_test_passes:
  assumes "runs_pattern co flag_pattern"
  shows "test_is_flag (is_flag co)"
proof -
  have "test_is_flag (is_match flag_pattern)" by code_simp
  moreover have "is_flag co s = is_match flag_pattern s" if "list_all is_ascii s" for s
    using assms that by (simp add: flag_pattern_text runs_pattern_def)
  ultimately show ?thesis by (simp add: test_is_flag_def is_ascii_def)
qed

end
