(* ===== verification/Clang_Patterns.thy ===== *)
theory Clang_Patterns
  imports Clang_Compiler Regex
begin

text \<open>
  The patterns of \<open>src/clang/compiler.rs\<close>: which file names are taken for Clang, and what of the output of \<open>clang --version\<close>
  becomes the identifier of the toolchain.
\<close>

section \<open>The names of the compiler\<close>

abbreviation clang_base_regex :: regex where
  "clang_base_regex \<equiv> Then (plain_text ''clang'') (Maybe (Group 2 (regex_seq
     [Maybe (Literal False (CHR '':'')), Literal True (CHR ''+''), Literal True (CHR ''+'')])))"

abbreviation clang_suffix_regex :: regex where
  "clang_suffix_regex \<equiv> regex_seq
     ([Maybe (Group 3 (regex_seq [Literal False (CHR ''-''), Some_Of Digit, Literal True (CHR ''.''), Some_Of Digit])),
       Maybe (Group_Plain (Then (Class Dot) (plain_text ''exe'')))] @ [Text_End])"

definition RE_CLANG :: pattern where
  "RE_CLANG = \<lparr>pt_multi_line = False, pt_any_case = True,
     pt_regex = Then Text_Start (Then (Group 1 clang_base_regex) clang_suffix_regex)\<rparr>"

lemma RE_CLANG_simps:
  "pt_regex RE_CLANG = Then Text_Start (Then (Group 1 clang_base_regex) clang_suffix_regex)"
  "\<not> pt_multi_line RE_CLANG" "pt_any_case RE_CLANG"
  by (simp_all add: RE_CLANG_def)

lemma RE_CLANG_text:
  "pattern_text RE_CLANG = source_pattern ''(?i)^(clang(:?#+#+)?)(-#d+#.#d+)?(?:.exe)?$''"
  "group_numbers (pt_regex RE_CLANG) = [1, 2, 3]"
  by code_simp+

definition clang_name :: "string \<Rightarrow> string option" where
  "clang_name name = capture RE_CLANG name 1"

section \<open>The version\<close>

abbreviation clang_version_parts :: "regex list" where
  "clang_version_parts \<equiv>
     [Many Dot, plain_text ''clang'', Many_Lazy Dot, Literal True (CHR ''(''), Group 1 (Some_Of Not_Blank), Literal True (CHR '')''),
      Many Dot, Literal True newline, plain_text ''Target:'', Many Blank, Group 2 (Some_Of Not_Blank)]"

definition clang_version_pattern :: pattern where
  "clang_version_pattern = plain_pattern (Then Text_Start (regex_seq clang_version_parts))"

lemma clang_version_pattern_text:
  "pattern_text clang_version_pattern = source_pattern ''^.*clang.*?#((#S+)#).*#nTarget:#s*(#S+)''"
  "group_numbers (pt_regex clang_version_pattern) = [1, 2]"
  by code_simp+

definition clang_version :: "string \<Rightarrow> (string \<times> string) option" where
  "clang_version out =
     (case capture clang_version_pattern out 1 of
        None \<Rightarrow> None
      | Some version \<Rightarrow> map_option (Pair version) (capture clang_version_pattern out 2))"

text \<open>What the crate is relied on for.\<close>

definition clang_patterns :: "clang_host \<Rightarrow> bool" where
  "clang_patterns h \<longleftrightarrow>
     (\<forall>s. list_all is_ascii s \<longrightarrow> clh_name h s = clang_name s \<and> clh_version h s = clang_version s)"

section \<open>Names\<close>

text \<open>The typing error in the pattern, \<open>:?\<close> for \<open>?:\<close>, makes \<open>clang:++\<close> a name of the compiler, and the dot before \<open>exe\<close>
  stands for any character.\<close>

definition clang_base :: "string \<Rightarrow> bool" where
  "clang_base u \<longleftrightarrow> (\<exists>c p. u = c @ p \<and> map lower_char c = ''clang'' \<and> p \<in> {[], ''++'', '':++''})"

definition clang_suffix :: "string \<Rightarrow> bool" where
  "clang_suffix v \<longleftrightarrow>
     (\<exists>version ext. v = version @ ext \<and>
        (version = [] \<or> (\<exists>d e. version = CHR ''-'' # d @ CHR ''.'' # e \<and> d \<noteq> [] \<and> e \<noteq> [] \<and>
           list_all is_digit_char d \<and> list_all is_digit_char e)) \<and>
        (ext = [] \<or> (\<exists>c e. ext = c # e \<and> c \<noteq> newline \<and> map lower_char e = ''exe'')))"

lemma plain_signs:
  "lower_char x = lower_char (CHR '':'') \<longleftrightarrow> x = CHR '':''" "lower_char x = lower_char (CHR ''+'') \<longleftrightarrow> x = CHR ''+''"
  "lower_char x = lower_char (CHR ''-'') \<longleftrightarrow> x = CHR ''-''" "lower_char x = lower_char (CHR ''.'') \<longleftrightarrow> x = CHR ''.''"
proof -
  have "\<not> is_word_char (CHR '':'')" "\<not> is_word_char (CHR ''+'')" "\<not> is_word_char (CHR ''-'')" "\<not> is_word_char (CHR ''.'')"
    by code_simp+
  then show "lower_char x = lower_char (CHR '':'') \<longleftrightarrow> x = CHR '':''" "lower_char x = lower_char (CHR ''+'') \<longleftrightarrow> x = CHR ''+''"
    "lower_char x = lower_char (CHR ''-'') \<longleftrightarrow> x = CHR ''-''" "lower_char x = lower_char (CHR ''.'') \<longleftrightarrow> x = CHR ''.''"
    by (metis lower_char_same)+
qed

text \<open>A sign in a pattern, whatever its flags.\<close>

lemma sign_spans:
  "spans m True (Literal e (CHR '':'')) b w a \<longleftrightarrow> w = '':''" "spans m True (Literal e (CHR ''+'')) b w a \<longleftrightarrow> w = ''+''"
  "spans m True (Literal e (CHR ''-'')) b w a \<longleftrightarrow> w = ''-''" "spans m True (Literal e (CHR ''.'')) b w a \<longleftrightarrow> w = ''.''"
  by (auto simp: plain_signs)

lemma plain_words: "map lower_char ''clang'' = ''clang''" "map lower_char ''exe'' = ''exe''"
  by code_simp+

lemma plain_word_spans:
  "spans m True (plain_text ''clang'') b w a \<longleftrightarrow> map lower_char w = ''clang''"
  "spans m True (plain_text ''exe'') b w a \<longleftrightarrow> map lower_char w = ''exe''"
  by (simp_all only: spans_plain_text plain_words)

lemma clang_base_span: "spans False True clang_base_regex b w a \<longleftrightarrow> clang_base w"
proof -
  have sign: "spans False True (regex_seq [Maybe (Literal False (CHR '':'')), Literal True (CHR ''+''), Literal True (CHR ''+'')]) b v a \<longleftrightarrow>
      v \<in> {''++'', '':++''}" for b v a
    unfolding regex_seq.simps spans.simps(9,12) sign_spans by auto
  show ?thesis unfolding clang_base_def spans.simps plain_word_spans sign by simp
qed

lemma clang_suffix_span: "spans False True clang_suffix_regex b v [] \<longleftrightarrow> clang_suffix v"
proof -
  have version: "spans False True (regex_seq [Literal False (CHR ''-''), Some_Of Digit, Literal True (CHR ''.''), Some_Of Digit]) b v a \<longleftrightarrow>
      (\<exists>d e. v = CHR ''-'' # d @ CHR ''.'' # e \<and> d \<noteq> [] \<and> e \<noteq> [] \<and> list_all is_digit_char d \<and> list_all is_digit_char e)" for b v a
    unfolding regex_seq.simps spans.simps(8,12) sign_spans by auto
  have ext: "spans False True (Then (Class Dot) (plain_text ''exe'')) b v a \<longleftrightarrow>
      (\<exists>c e. v = c # e \<and> c \<noteq> newline \<and> map lower_char e = ''exe'')" for b v a
    unfolding spans_one plain_word_spans by auto
  have parts: "spans False True (regex_seq ([Maybe (Group 3 R), Maybe (Group_Plain E)] @ [Text_End])) b v [] \<longleftrightarrow>
      (\<exists>version ext. v = version @ ext \<and> (version = [] \<or> spans False True R b version ext) \<and>
         (ext = [] \<or> spans False True E (rev version @ b) ext []))" for R E
    by auto
  show ?thesis unfolding parts clang_suffix_def version ext by (rule refl)
qed

text \<open>The base name is the only one: what follows it does not start with the signs of another.\<close>

lemma clang_suffix_signs:
  assumes "clang_suffix v"
  shows "v \<noteq> ''++'' @ x" "v \<noteq> '':++'' @ x"
proof -
  have plus: "lower_char (CHR ''+'') \<noteq> CHR ''e''" by code_simp
  show "v \<noteq> ''++'' @ x" "v \<noteq> '':++'' @ x"
    using assms plus unfolding clang_suffix_def by (auto simp: append_eq_Cons_conv Cons_eq_append_conv)
qed

lemma clang_base_unique:
  assumes "u @ v = u' @ v'" "clang_base u" "clang_base u'" "clang_suffix v" "clang_suffix v'"
  shows "u = u'"
proof -
  obtain c p where u: "u = c @ p" "map lower_char c = ''clang''" "p \<in> {[], ''++'', '':++''}"
    using assms(2) unfolding clang_base_def by (elim exE conjE) (rule that)
  obtain c' p' where u': "u' = c' @ p'" "map lower_char c' = ''clang''" "p' \<in> {[], ''++'', '':++''}"
    using assms(3) unfolding clang_base_def by (elim exE conjE) (rule that)
  have "length c = length c'" using u(2) u'(2) by (metis length_map)
  then have "c = c'" "p @ v = p' @ v'" using assms(1) unfolding u(1) u'(1) by auto
  moreover have "p = p'"
    using u(3) u'(3) \<open>p @ v = p' @ v'\<close> clang_suffix_signs [OF assms(4), of v'] clang_suffix_signs [OF assms(5), of v]
    by auto
  ultimately show ?thesis by (simp add: u(1) u'(1))
qed

lemma clang_name_result:
  assumes "(b', a', g') \<in> set (results False True (Then (Group 1 clang_base_regex) clang_suffix_regex) ([], name, []))"
  obtains u v where "map_of g' 1 = Some u" "name = u @ v" "clang_base u" "clang_suffix v"
proof -
  have "1 \<notin> set (group_numbers clang_suffix_regex)" by (simp add: plain_text_def)
  then obtain u v where u: "name = u @ v @ a'" "map_of g' 1 = Some u" "spans False True clang_base_regex [] u (v @ a')"
    "spans False True clang_suffix_regex (rev u @ []) v a'"
    using group_then [OF assms] by metis
  have "a' = []" using spans_end [OF u(4)] .
  then show ?thesis using u(1,4) that [OF u(2) _ clang_base_span [THEN iffD1, OF u(3)]] clang_suffix_span by (metis append_Nil2)
qed

text \<open>The names in full: \<open>clang\<close> in any case, with or without the signs of the C++ compiler (and, by the typing error, with a
  colon before them), then a version of two numbers or none, then any character and \<open>exe\<close>, or nothing. So \<open>clang-10\<close> is not a
  name of the compiler.\<close>

lemma clang_name_iff: "clang_name name = Some u \<longleftrightarrow> (\<exists>v. name = u @ v \<and> clang_base u \<and> clang_suffix v)"
proof
  assume "clang_name name = Some u"
  then obtain b' a' g' where
    "(b', a', g') \<in> set (results False True (Then (Group 1 clang_base_regex) clang_suffix_regex) ([], name, []))" "map_of g' 1 = Some u"
    using capture_start [OF RE_CLANG_simps(2,1)] RE_CLANG_simps(3) unfolding clang_name_def by metis
  then show "\<exists>v. name = u @ v \<and> clang_base u \<and> clang_suffix v" using clang_name_result by (metis option.inject)
next
  assume "\<exists>v. name = u @ v \<and> clang_base u \<and> clang_suffix v"
  then obtain v where v: "name = u @ v" "clang_base u" "clang_suffix v" by blast
  have "spans False True (Then (Group 1 clang_base_regex) clang_suffix_regex) [] name []"
    unfolding spans_group clang_base_span clang_suffix_span using v by blast
  then have "reached (results False True (Then (Group 1 clang_base_regex) clang_suffix_regex) ([], name, [])) \<noteq> {}"
    unfolding results_spans by blast
  then obtain b' a' g' ps where
    p: "results False True (Then (Group 1 clang_base_regex) clang_suffix_regex) ([], name, []) = (b', a', g') # ps"
    unfolding reached_Nil [symmetric] by (metis neq_Nil_conv prod_cases3)
  then obtain u' v' where u': "map_of g' 1 = Some u'" "name = u' @ v'" "clang_base u'" "clang_suffix v'"
    using clang_name_result [of b' a' g' name] by (metis list.set_intros(1))
  have "clang_name name = Some u'"
    using p u'(1) RE_CLANG_simps(3) by (simp add: clang_name_def capture_def search_start [OF RE_CLANG_simps(2,1)])
  moreover have "u' = u" by (rule clang_base_unique [OF _ u'(3) v(2) u'(4) v(3)]) (metis u'(2) v(1))
  ultimately show "clang_name name = Some u" by simp
qed

section \<open>The output of \<open>clang --version\<close>\<close>

text \<open>The version stands in parentheses behind the name in the first line, the target in the second.\<close>

definition version_output :: "string \<Rightarrow> string \<Rightarrow> string \<Rightarrow> bool" where
  "version_output out version target \<longleftrightarrow>
     (\<exists>pre mid post blanks rest.
        out = pre @ ''clang'' @ mid @ ''('' @ version @ '')'' @ post @ [newline] @ ''Target:'' @ blanks @ target @ rest \<and>
        newline \<notin> set pre \<and> newline \<notin> set mid \<and> newline \<notin> set post \<and>
        version \<noteq> [] \<and> list_all (\<lambda>c. \<not> is_white c) version \<and> list_all is_white blanks \<and>
        target \<noteq> [] \<and> list_all (\<lambda>c. \<not> is_white c) target)"

lemma clang_version_output:
  assumes "clang_version out = Some (version, target)"
  shows "version_output out version target"
proof -
  have regex: "\<not> pt_multi_line clang_version_pattern" "pt_regex clang_version_pattern = Then Text_Start (regex_seq clang_version_parts)"
    and flag: "pt_any_case clang_version_pattern = False"
    by (simp_all add: clang_version_pattern_def plain_pattern_def)
  obtain b' a' g' where p: "search clang_version_pattern [] out = Some (b', a', g')" and g: "map_of g' 1 = Some version" "map_of g' 2 = Some target"
    using assms by (auto simp: clang_version_def capture_def split: option.splits)
  have flat: "\<forall>r \<in> set clang_version_parts. flat_part r" by (simp add: plain_text_def)
  obtain us rest where out: "out = concat us @ rest"
    and parts: "list_all2 (\<lambda>r u. \<exists>b a. spans False False r b u a) clang_version_parts us"
    and groups: "g' = rev (concat (map2 part_group clang_version_parts us)) @ []"
    using seq_result [OF search_start_result [OF regex p, unfolded flag] flat] by (elim exE conjE) (rule that, assumption+, simp only: prod.inject)
  obtain pre c mid p1 v p2 post nl t blanks target' where us: "us = [pre, c, mid, p1, v, p2, post, nl, t, blanks, target']"
    using parts by (auto simp: list_all2_Cons1)
  have "c = ''clang''" "p1 = ''(''" "p2 = '')''" "nl = [newline]" "t = ''Target:''" "newline \<notin> set pre" "newline \<notin> set mid" "newline \<notin> set post"
    "v \<noteq> []" "list_all (\<lambda>c. \<not> is_white c) v" "list_all is_white blanks" "target' \<noteq> []" "list_all (\<lambda>c. \<not> is_white c) target'"
    using parts unfolding us by auto
  moreover have "part_group (plain_text ''clang'') c = []" "part_group (plain_text ''Target:'') t = []" by (simp_all add: plain_text_def)
  then have "v = version" "target' = target" using g unfolding groups us by simp_all
  ultimately show ?thesis
    unfolding version_output_def out us
    by (intro exI [of _ pre] exI [of _ mid] exI [of _ post] exI [of _ blanks] exI [of _ rest]) simp
qed

text \<open>The identifier of a toolchain: the base name of the compiler, the version and the target.\<close>

lemma identifier_parts:
  assumes "clang_patterns h" "file_name clang = Some name" "list_all is_ascii name"
    "clh_version_output h clang = Inr out" "list_all is_ascii (map (\<lambda>b. char_of (unat b)) (oi_stdout out))"
    "tc_identifier (clang_toolchain h clang) = Some i"
  shows "success out \<and> (\<exists>base suff version target. name = base @ suff \<and> clang_base base \<and> clang_suffix suff \<and>
      version_output (map (\<lambda>b. char_of (unat b)) (oi_stdout out)) version target \<and> i = base @ '' '' @ version @ '' '' @ target)"
proof -
  let ?text = "map (\<lambda>b. char_of (unat b)) (oi_stdout out) :: string"
  have re: "clh_name h name = clang_name name" "clh_version h ?text = clang_version ?text"
    using assms(1,3,5) by (simp_all add: clang_patterns_def)
  obtain base version target where "clang_name name = Some base" "success out" "clang_version ?text = Some (version, target)"
    "i = base @ '' '' @ version @ '' '' @ target"
    using assms(2,4,6) re
    by (auto simp: clang_toolchain_def clang_identifier_def clang_parse_version_def bind_eq_Some_conv split: if_splits)
  then show ?thesis using clang_version_output unfolding clang_name_iff by blast
qed

text \<open>Newer versions of Clang print no parentheses in the first line. They get no identifier.\<close>

lemma clang_without_revision:
  assumes "CHR ''('' \<notin> set (takeWhile (\<lambda>c. c \<noteq> newline) out)"
  shows "clang_version out = None"
proof (rule ccontr)
  assume "clang_version out \<noteq> None"
  then obtain version target where "clang_version out = Some (version, target)" by auto
  then have "version_output out version target" by (rule clang_version_output)
  then obtain u w where out: "out = u @ CHR ''('' # w" and u: "newline \<notin> set u"
  proof -
    assume *: "\<And>u w. out = u @ CHR ''('' # w \<Longrightarrow> newline \<notin> set u \<Longrightarrow> thesis"
    show thesis
      using \<open>version_output out version target\<close> unfolding version_output_def
    proof (elim exE conjE)
      fix pre mid post blanks rest
      assume "out = pre @ ''clang'' @ mid @ ''('' @ version @ '')'' @ post @ [newline] @ ''Target:'' @ blanks @ target @ rest"
        "newline \<notin> set pre" "newline \<notin> set mid"
      then show thesis
        by (intro * [of "pre @ ''clang'' @ mid" "version @ '')'' @ post @ [newline] @ ''Target:'' @ blanks @ target @ rest"]) auto
    qed
  qed
  have "takeWhile (\<lambda>c. c \<noteq> newline) out = u @ takeWhile (\<lambda>c. c \<noteq> newline) (CHR ''('' # w)"
    unfolding out using u by (intro takeWhile_append2) auto
  then show False using assms by simp
qed

section \<open>Toolchains with the same identifier\<close>

text \<open>A compiler called \<open>name\<close> that answers \<open>--version\<close> with a text, both in ASCII.\<close>

definition answers :: "clang_host \<Rightarrow> path \<Rightarrow> string \<Rightarrow> string \<Rightarrow> bool" where
  "answers h clang name out \<longleftrightarrow>
     clang_patterns h \<and> file_name clang = Some name \<and> list_all is_ascii name \<and> list_all is_ascii out \<and>
     (case clh_version_output h clang of Inl _ \<Rightarrow> False | Inr o1 \<Rightarrow> map (\<lambda>b. char_of (unat b)) (oi_stdout o1) = out)"

lemma no_white_blank: "list_all (\<lambda>c. \<not> is_white c) w \<Longrightarrow> CHR '' '' \<notin> set w"
  by (induction w) (auto simp: is_white_def)

lemma clang_base_blank: "clang_base u \<Longrightarrow> CHR '' '' \<notin> set u"
proof -
  have "lower_char (CHR '' '') = CHR '' ''" by code_simp
  then show "clang_base u \<Longrightarrow> CHR '' '' \<notin> set u" unfolding clang_base_def by (auto simp: map_eq_Cons_conv)
qed

lemma first_word:
  assumes "u @ '' '' @ x = u' @ '' '' @ x'" "CHR '' '' \<notin> set u" "CHR '' '' \<notin> set u'"
  shows "u = u' \<and> x = x'"
proof -
  have "u = takeWhile (\<lambda>c. c \<noteq> CHR '' '') (u @ '' '' @ x)" "u' = takeWhile (\<lambda>c. c \<noteq> CHR '' '') (u' @ '' '' @ x')"
    using assms(2,3) by (auto simp: takeWhile_append)
  then have "u = u'" using assms(1) by metis
  then show ?thesis using assms(1) by simp
qed

lemma answers_identifier:
  assumes "answers h clang name out" "tc_identifier (clang_toolchain h clang) = Some i"
  obtains base suff version target where "name = base @ suff" "clang_base base" "clang_suffix suff" "version_output out version target"
    "i = base @ '' '' @ version @ '' '' @ target"
  using identifier_parts [of h clang name _ i] assms
  by (cases "clh_version_output h clang") (auto simp: answers_def)

text \<open>C28: Two Clang compilers with the same identifier, one of the client and one of a builder say, have the same base name (up
  to the version in the file name, which is left out), and the outputs of both with \<open>--version\<close> show the same revision in
  parentheses in the first line and the same target.\<close>

theorem clang_identifiers_agree:
  assumes "answers h clang name out" "tc_identifier (clang_toolchain h clang) = Some i"
    "answers h' clang' name' out'" "tc_identifier (clang_toolchain h' clang') = Some i"
  shows "\<exists>base version target. i = base @ '' '' @ version @ '' '' @ target \<and> clang_base base \<and>
    (\<exists>suff. clang_suffix suff \<and> name = base @ suff) \<and> (\<exists>suff. clang_suffix suff \<and> name' = base @ suff) \<and>
    version_output out version target \<and> version_output out' version target"
proof -
  obtain base suff version target where a: "name = base @ suff" "clang_base base" "clang_suffix suff" "version_output out version target"
    "i = base @ '' '' @ version @ '' '' @ target"
    by (rule answers_identifier [OF assms(1,2)])
  obtain base' suff' version' target' where b: "name' = base' @ suff'" "clang_base base'" "clang_suffix suff'" "version_output out' version' target'"
    "i = base' @ '' '' @ version' @ '' '' @ target'"
    by (rule answers_identifier [OF assms(3,4)])
  have "base = base'" and rest: "version @ '' '' @ target = version' @ '' '' @ target'"
    using first_word [of base _ base'] a(2,5) b(2,5) clang_base_blank by metis+
  moreover have "CHR '' '' \<notin> set version" "CHR '' '' \<notin> set version'"
    using a(4) b(4) no_white_blank unfolding version_output_def by blast+
  then have "version = version' \<and> target = target'" by (rule first_word [OF rest])
  ultimately show ?thesis using a b by metis
qed

definition pattern_clang_host :: clang_host where
  "pattern_clang_host = \<lparr>clh_run = (\<lambda>_ _ fs. (Inl not_found, fs)), clh_junk = (\<lambda>_. 0), clh_name = clang_name, clh_version = clang_version,
     clh_version_output = (\<lambda>_. Inr \<lparr>oi_status = Some 0,
       oi_stdout = ascii (''clang version 3.8 (r1/final)'' @ [newline] @ ''Target: x86''), oi_stderr = []\<rparr>),
     clh_debug = (\<lambda>_. [])\<rparr>"

lemma clang_identifiers_agree_witness:
  "\<exists>base version target. ''clang r1/final x86'' = base @ '' '' @ version @ '' '' @ target \<and> clang_base base \<and>
     (\<exists>suff. clang_suffix suff \<and> ''clang-3.8'' = base @ suff) \<and> (\<exists>suff. clang_suffix suff \<and> ''clang.exe'' = base @ suff) \<and>
     version_output (''clang version 3.8 (r1/final)'' @ [newline] @ ''Target: x86'') version target"
proof -
  let ?out = "''clang version 3.8 (r1/final)'' @ [newline] @ ''Target: x86''"
  have patterns: "clang_patterns pattern_clang_host" by (simp add: clang_patterns_def pattern_clang_host_def)
  have evals: "file_name ''/b/clang-3.8'' = Some ''clang-3.8''" "file_name ''/c/clang.exe'' = Some ''clang.exe''"
    "list_all is_ascii ''clang-3.8''" "list_all is_ascii ''clang.exe''" "list_all is_ascii ?out"
    "map (\<lambda>b. char_of (unat b)) (ascii ?out) = ?out" "clang_name ''clang-3.8'' = Some ''clang''" "clang_name ''clang.exe'' = Some ''clang''"
    "clang_version ?out = Some (''r1/final'', ''x86'')"
    by code_simp+
  have "answers pattern_clang_host ''/b/clang-3.8'' ''clang-3.8'' ?out" "answers pattern_clang_host ''/c/clang.exe'' ''clang.exe'' ?out"
    using patterns evals by (simp_all only: answers_def) (simp_all add: pattern_clang_host_def)
  moreover have "tc_identifier (clang_toolchain pattern_clang_host ''/b/clang-3.8'') = Some ''clang r1/final x86''"
    "tc_identifier (clang_toolchain pattern_clang_host ''/c/clang.exe'') = Some ''clang r1/final x86''"
    using evals by (simp_all add: clang_toolchain_def clang_identifier_def clang_parse_version_def pattern_clang_host_def success_def del: list.map append.simps)
  ultimately show ?thesis using clang_identifiers_agree by blast
qed

section \<open>The unit tests\<close>

definition version_test :: "(string \<Rightarrow> (string \<times> string) option) \<Rightarrow> string list \<Rightarrow> string \<Rightarrow> bool" where
  "version_test re ls identifier \<longleftrightarrow>
     clang_parse_version re ''prefix'' (concat (map (\<lambda>l. l @ [newline]) ls)) = Some identifier"

definition test_ubuntu_14_04_clang_3_5 :: "(string \<Rightarrow> (string \<times> string) option) \<Rightarrow> bool" where
  "test_ubuntu_14_04_clang_3_5 re \<longleftrightarrow> version_test re
     [''Ubuntu clang version 3.5.0-4ubuntu2~trusty2 (tags/RELEASE_350/final) (based on LLVM 3.5.0)'',
      ''Target: x86_64-pc-linux-gnu'', ''Thread model: posix'']
     ''prefix tags/RELEASE_350/final x86_64-pc-linux-gnu''"

definition test_ubuntu_14_04_clang_3_6 :: "(string \<Rightarrow> (string \<times> string) option) \<Rightarrow> bool" where
  "test_ubuntu_14_04_clang_3_6 re \<longleftrightarrow> version_test re
     [''Ubuntu clang version 3.6.0-2ubuntu1~trusty1 (tags/RELEASE_360/final) (based on LLVM 3.6.0)'',
      ''Target: x86_64-pc-linux-gnu'', ''Thread model: posix'']
     ''prefix tags/RELEASE_360/final x86_64-pc-linux-gnu''"

definition test_ubuntu_16_04_clang_3_5 :: "(string \<Rightarrow> (string \<times> string) option) \<Rightarrow> bool" where
  "test_ubuntu_16_04_clang_3_5 re \<longleftrightarrow> version_test re
     [''Ubuntu clang version 3.5.2-3ubuntu1 (tags/RELEASE_352/final) (based on LLVM 3.5.2)'',
      ''Target: x86_64-pc-linux-gnu'', ''Thread model: posix'']
     ''prefix tags/RELEASE_352/final x86_64-pc-linux-gnu''"

definition test_ubuntu_16_04_clang_3_6 :: "(string \<Rightarrow> (string \<times> string) option) \<Rightarrow> bool" where
  "test_ubuntu_16_04_clang_3_6 re \<longleftrightarrow> version_test re
     [''Ubuntu clang version 3.6.2-3ubuntu2 (tags/RELEASE_362/final) (based on LLVM 3.6.2)'',
      ''Target: x86_64-pc-linux-gnu'', ''Thread model: posix'']
     ''prefix tags/RELEASE_362/final x86_64-pc-linux-gnu''"

definition test_ubuntu_16_04_clang_3_7 :: "(string \<Rightarrow> (string \<times> string) option) \<Rightarrow> bool" where
  "test_ubuntu_16_04_clang_3_7 re \<longleftrightarrow> version_test re
     [''Ubuntu clang version 3.7.1-2ubuntu2 (tags/RELEASE_371/final) (based on LLVM 3.7.1)'',
      ''Target: x86_64-pc-linux-gnu'', ''Thread model: posix'']
     ''prefix tags/RELEASE_371/final x86_64-pc-linux-gnu''"

definition test_ubuntu_16_04_clang_3_8 :: "(string \<Rightarrow> (string \<times> string) option) \<Rightarrow> bool" where
  "test_ubuntu_16_04_clang_3_8 re \<longleftrightarrow> version_test re
     [''clang version 3.8.0-2ubuntu3 (tags/RELEASE_380/final)'',
      ''Target: x86_64-pc-linux-gnu'', ''Thread model: posix'', ''InstalledDir: /usr/bin'']
     ''prefix tags/RELEASE_380/final x86_64-pc-linux-gnu''"

text \<open>They pass with every implementation of regular expressions that does what the crate documents.\<close>

lemma test_ubuntu_14_04_clang_3_5_passes: "test_ubuntu_14_04_clang_3_5 clang_version"
  by code_simp

lemma test_ubuntu_14_04_clang_3_6_passes: "test_ubuntu_14_04_clang_3_6 clang_version"
  by code_simp

lemma test_ubuntu_16_04_clang_3_5_passes: "test_ubuntu_16_04_clang_3_5 clang_version"
  by code_simp

lemma test_ubuntu_16_04_clang_3_6_passes: "test_ubuntu_16_04_clang_3_6 clang_version"
  by code_simp

lemma test_ubuntu_16_04_clang_3_7_passes: "test_ubuntu_16_04_clang_3_7 clang_version"
  by code_simp

lemma test_ubuntu_16_04_clang_3_8_passes: "test_ubuntu_16_04_clang_3_8 clang_version"
  by code_simp

end
