(* ===== verification/Vs_Patterns.thy ===== *)
theory Vs_Patterns
  imports Vs_Compiler_Correct Vs_Identifier Vs_Prepare Unit_Tests Regex
begin

text \<open>
  The patterns of \<open>src/vs/compiler.rs\<close>: the versions in the registry, and the warning C4628 that is removed from the output of
  the compiler.
\<close>

section \<open>Versions in the registry\<close>

definition version_pattern :: pattern where
  "version_pattern = plain_pattern (Then Text_Start (regex_seq ([Some_Of Digit, Literal True (CHR ''.''), Some_Of Digit] @ [Text_End])))"

lemma version_pattern_text: "pattern_text version_pattern = source_pattern ''^#d+#.#d+$''"
  by code_simp

lemma version_pattern_match:
  "is_match version_pattern v \<longleftrightarrow>
     (\<exists>d e. v = d @ CHR ''.'' # e \<and> d \<noteq> [] \<and> e \<noteq> [] \<and> list_all is_digit_char d \<and> list_all is_digit_char e)"
proof -
  have "\<not> pt_multi_line version_pattern"
    "pt_regex version_pattern = Then Text_Start (regex_seq ([Some_Of Digit, Literal True (CHR ''.''), Some_Of Digit] @ [Text_End]))"
    by (simp_all add: version_pattern_def plain_pattern_def)
  then have "is_match version_pattern v \<longleftrightarrow>
      spans False (pt_any_case version_pattern) (regex_seq ([Some_Of Digit, Literal True (CHR ''.''), Some_Of Digit] @ [Text_End])) [] v []"
    by (rule is_match_whole)
  also have "... \<longleftrightarrow> (\<exists>d e. v = d @ CHR ''.'' # e \<and> d \<noteq> [] \<and> e \<noteq> [] \<and> list_all is_digit_char d \<and> list_all is_digit_char e)"
    by (auto simp: version_pattern_def plain_pattern_def)
  finally show ?thesis .
qed

text \<open>The directories a key of the registry gives: those of its values that are named by a major and a minor version.\<close>

lemma key_installations_versions:
  assumes "\<forall>s. list_all is_ascii s \<longrightarrow> wh_version_re w s = is_match version_pattern s"
    "\<forall>name. Inr name \<in> set (rk_values key) \<longrightarrow> list_all is_ascii name"
  shows "p \<in> set (key_installations w key) \<longleftrightarrow>
    (\<exists>d e. Inr (d @ CHR ''.'' # e) \<in> set (rk_values key) \<and> d \<noteq> [] \<and> e \<noteq> [] \<and>
       list_all is_digit_char d \<and> list_all is_digit_char e \<and> rk_get key (d @ CHR ''.'' # e) = Some p)"
proof -
  have names: "name \<in> set (ok_values (rk_values key)) \<longleftrightarrow> Inr name \<in> set (rk_values key)" for name
    by (force simp: ok_values_def map_filter_def split: sum.splits)
  have "p \<in> set (key_installations w key) \<longleftrightarrow>
      (\<exists>name. Inr name \<in> set (rk_values key) \<and> wh_version_re w name \<and> rk_get key name = Some p)"
    by (auto simp: key_installations_def map_filter_def names intro!: image_eqI)
  also have "... \<longleftrightarrow> (\<exists>name. Inr name \<in> set (rk_values key) \<and> is_match version_pattern name \<and> rk_get key name = Some p)"
    using assms by blast
  finally show ?thesis unfolding version_pattern_match by blast
qed

section \<open>The warning C4628\<close>

abbreviation warning_head :: "regex list" where
  "warning_head \<equiv> [Some_Of Not_Blank, Many (None_Of (CHR '':'')), Literal True (CHR ''(''), Some_Of Digit, Literal True (CHR '')''),
     plain_text '' : warning C4628: '']"

abbreviation warning_tail :: "regex list" where
  "warning_tail \<equiv> [Many Dot, Text_End, Maybe (Literal True newline)]"

definition warning_pattern :: pattern where
  "warning_pattern = \<lparr>pt_multi_line = True, pt_any_case = False, pt_regex = Then Text_Start (regex_seq (warning_head @ warning_tail))\<rparr>"

lemma warning_pattern_text:
  "pattern_text warning_pattern = source_pattern ''(?m)^#S+[^:]*#(#d+#) : warning C4628: .*$#n?''"
  by code_simp

text \<open>A line with the warning.\<close>

definition warning_line :: "string \<Rightarrow> bool" where
  "warning_line l \<longleftrightarrow>
     (\<exists>u v d w. l = u @ v @ ''('' @ d @ '')'' @ '' : warning C4628: '' @ w \<and> u \<noteq> [] \<and> list_all (\<lambda>c. \<not> is_white c) u \<and>
        CHR '':'' \<notin> set v \<and> d \<noteq> [] \<and> list_all is_digit_char d)"

text \<open>A line no match can start in that goes on in a later line: it is empty, or starts with a blank, or has a colon behind its
  first word.\<close>

definition closed_line :: "string \<Rightarrow> bool" where
  "closed_line l \<longleftrightarrow> l = [] \<or> is_white (hd l) \<or> CHR '':'' \<in> set (dropWhile (\<lambda>c. \<not> is_white c) l)"

text \<open>The lines of a text, each with its end, and the text without the lines a predicate holds of.\<close>

function lines_of :: "string \<Rightarrow> (string \<times> string) list" where
  "lines_of a =
     (if a = [] then []
      else (takeWhile (\<lambda>c. c \<noteq> newline) a, take 1 (dropWhile (\<lambda>c. c \<noteq> newline) a)) #
        lines_of (drop 1 (dropWhile (\<lambda>c. c \<noteq> newline) a)))"
  by pat_completeness auto

lemma rest_shorter: "a \<noteq> [] \<Longrightarrow> length (drop 1 (dropWhile P a)) < length a"
  using length_dropWhile_le [of P a] by (cases a) (auto simp: less_Suc_eq_le le_diff_conv)

termination lines_of
  by (relation "measure length") (simp, metis rest_shorter in_measure)

declare lines_of.simps [simp del]

definition drop_lines :: "(string \<Rightarrow> bool) \<Rightarrow> string \<Rightarrow> string" where
  "drop_lines P a = concat (map (\<lambda>(l, e). l @ e) (filter (\<lambda>(l, e). \<not> P l) (lines_of a)))"

section \<open>Where the pattern matches\<close>

lemma warning_head_spans:
  "spans True False (regex_seq warning_head) b w a \<longleftrightarrow>
     (\<exists>u v d. w = u @ v @ ''('' @ d @ '')'' @ '' : warning C4628: '' \<and> u \<noteq> [] \<and> list_all (\<lambda>c. \<not> is_white c) u \<and>
        CHR '':'' \<notin> set v \<and> d \<noteq> [] \<and> list_all is_digit_char d)"
  by simp blast

lemma warning_line_head: "warning_line l \<longleftrightarrow> (\<exists>w l2. l = w @ l2 \<and> spans True False (regex_seq warning_head) b w a)"
proof
  assume "warning_line l"
  then obtain u v d w where "l = (u @ v @ ''('' @ d @ '')'' @ '' : warning C4628: '') @ w" "u \<noteq> []" "list_all (\<lambda>c. \<not> is_white c) u"
    "CHR '':'' \<notin> set v" "d \<noteq> []" "list_all is_digit_char d"
    unfolding warning_line_def by auto
  then show "\<exists>w l2. l = w @ l2 \<and> spans True False (regex_seq warning_head) b w a"
    unfolding warning_head_spans by blast
next
  assume "\<exists>w l2. l = w @ l2 \<and> spans True False (regex_seq warning_head) b w a"
  then obtain u v d l2 where "l = (u @ v @ ''('' @ d @ '')'' @ '' : warning C4628: '') @ l2" "u \<noteq> []" "list_all (\<lambda>c. \<not> is_white c) u"
    "CHR '':'' \<notin> set v" "d \<noteq> []" "list_all is_digit_char d"
    unfolding warning_head_spans by blast
  then show "warning_line l" unfolding warning_line_def by auto
qed

text \<open>In a closed line the head of the pattern ends before the line does.\<close>

lemma digits_no_newline: "list_all is_digit_char d \<Longrightarrow> newline \<notin> set d"
  by (induction d) (auto simp: is_digit_char_def)

lemma no_white_newline: "list_all (\<lambda>c. \<not> is_white c) u \<Longrightarrow> newline \<notin> set u"
  by (induction u) (auto simp: is_white_def)

lemma head_inside:
  assumes "closed_line l" "newline \<notin> set l" "r = [] \<or> hd r = newline" "l @ r = w @ a'"
    "spans True False (regex_seq warning_head) b w a'"
  shows "\<exists>l2. l = w @ l2"
proof (rule ccontr)
  assume outside: "\<not> (\<exists>l2. l = w @ l2)"
  then obtain us where us: "w = l @ us" "r = us @ a'" using assms(4) by (auto simp: append_eq_append_conv2)
  then have "us \<noteq> []" using outside by auto
  then obtain us' where w: "w = l @ newline # us'" using us assms(3) by (cases us) auto
  obtain u v d where s: "w = u @ v @ ''('' @ d @ '')'' @ '' : warning C4628: ''" "u \<noteq> []" "list_all (\<lambda>c. \<not> is_white c) u"
    "CHR '':'' \<notin> set v" "list_all is_digit_char d"
    using assms(5) unfolding warning_head_spans by blast
  have "newline \<in> set w" by (simp add: w)
  then have "newline \<in> set v" using digits_no_newline [OF s(5)] no_white_newline [OF s(3)] by (simp add: s(1))
  then obtain v1 v2 where v: "v = v1 @ newline # v2" "newline \<notin> set v1" using split_list_first by metis
  have "takeWhile (\<lambda>c. c \<noteq> newline) (l @ newline # us') = l" using assms(2) by (subst takeWhile_append2) auto
  moreover have "takeWhile (\<lambda>c. c \<noteq> newline) ((u @ v1) @ newline # v2 @ ''('' @ d @ '')'' @ '' : warning C4628: '') = u @ v1"
    using v(2) no_white_newline [OF s(3)] by (subst takeWhile_append2) auto
  ultimately have l: "l = u @ v1" using w s(1) v(1) by simp
  have "dropWhile (\<lambda>c. \<not> is_white c) (u @ v1) = dropWhile (\<lambda>c. \<not> is_white c) v1"
    using s(3) by (simp add: dropWhile_append2 list_all_iff)
  moreover have "\<not> is_white (hd l)" using l s(2,3) by (cases u) auto
  ultimately have "CHR '':'' \<in> set v1" using assms(1) l s(2) set_dropWhileD unfolding closed_line_def by fastforce
  then show False using s(4) v(1) by simp
qed

text \<open>What follows the head is the rest of the line, with its end.\<close>

lemma tail_first:
  assumes "newline \<notin> set l" "r = [] \<or> hd r = newline"
  shows "\<exists>ps. results True False (regex_seq warning_tail) (b, l @ r, g) = (rev (l @ take 1 r) @ b, drop 1 r, g) # ps"
proof -
  have dot: "in_class Dot = (\<lambda>c. c \<noteq> newline)" by (rule ext) simp
  have "\<forall>c \<in> set l. c \<noteq> newline" using assms(1) by blast
  then have "takeWhile (in_class Dot) (l @ r) = l \<and> dropWhile (in_class Dot) (l @ r) = r"
    using assms(2) unfolding dot by (cases r) (simp_all add: takeWhile_append2 dropWhile_append2)
  then obtain ps where "rev (runs Dot (b, l @ r, g)) = (rev l @ b, r, g) # ps"
    using runs_longest [of Dot b "l @ r" g] by auto
  then show ?thesis using assms(2) by (cases r) auto
qed

lemma warning_matches:
  assumes "closed_line l" "newline \<notin> set l" "r = [] \<or> hd r = newline" "b = [] \<or> hd b = newline"
  shows "if warning_line l then \<exists>ps g. matches_at warning_pattern b (l @ r) = (rev (l @ take 1 r) @ b, drop 1 r, g) # ps
    else matches_at warning_pattern b (l @ r) = []"
proof -
  let ?head = "results True False (regex_seq warning_head) (b, l @ r, [])"
  have m: "matches_at warning_pattern b (l @ r) = concat (map (results True False (regex_seq warning_tail)) ?head)"
    using assms(4) results_append [of warning_head warning_tail True False "(b, l @ r, [])"]
    by (simp add: matches_at_def warning_pattern_def del: regex_seq.simps append_Cons append_Nil)
  show ?thesis
  proof (cases ?head)
    case Nil
    have "\<not> warning_line l"
    proof
      assume "warning_line l"
      then obtain w l2 where l: "l = w @ l2" and h: "spans True False (regex_seq warning_head) b w []"
        unfolding warning_line_head [of l b "[]"] by blast
      from h have w: "spans True False (regex_seq warning_head) b w (l2 @ r)" unfolding warning_head_spans .
      have "(rev w @ b, l2 @ r) \<in> reached ?head"
        unfolding results_spans by (rule CollectI, rule exI [of _ w], rule exI [of _ "l2 @ r"]) (use w in \<open>simp only: l append.assoc simp_thms\<close>)
      then show False using Nil by (simp add: reached_def)
    qed
    then show ?thesis using m Nil by simp
  next
    case (Cons p ps)
    obtain b' a' g' where p: "p = (b', a', g')" by (cases p)
    obtain w where w: "l @ r = w @ a'" "b' = rev w @ b" "spans True False (regex_seq warning_head) b w a'"
      using results_span Cons p by (metis list.set_intros(1))
    then obtain l2 where l: "l = w @ l2" using head_inside [OF assms(1-3)] by blast
    then have "warning_line l" using w(3) warning_line_head by blast
    moreover have "newline \<notin> set l2" "a' = l2 @ r" using assms(2) l w(1) by auto
    then obtain qs where "results True False (regex_seq warning_tail) p = (rev (l2 @ take 1 r) @ b', drop 1 r, g') # qs"
      using tail_first [of l2 r b' g'] assms(3) p by auto
    ultimately show ?thesis using m Cons l w(2) by simp
  qed
qed

section \<open>What is removed\<close>

lemma inside_line: "b \<noteq> [] \<Longrightarrow> hd b \<noteq> newline \<Longrightarrow> matches_at warning_pattern b a = []"
  by (simp add: matches_at_def warning_pattern_def)

lemma delete_Nil [simp]: "delete_from t b [] = []"
  by (simp add: delete_from.simps [of t b "[]"] split: list.split)

lemma delete_none: "matches_at t b (c # a) = [] \<Longrightarrow> delete_from t b (c # a) = c # delete_from t (c # b) a"
  by (simp add: delete_from.simps [of t b "c # a"])

lemma delete_inside:
  "b \<noteq> [] \<Longrightarrow> hd b \<noteq> newline \<Longrightarrow> newline \<notin> set l \<Longrightarrow> r = [] \<or> hd r = newline \<Longrightarrow>
     \<exists>b'. delete_from warning_pattern b (l @ r) = l @ take 1 r @ delete_from warning_pattern (take 1 r @ b') (drop 1 r)"
proof (induction l arbitrary: b)
  case Nil
  then show ?case by (cases r) (auto simp: delete_none inside_line intro!: exI [of _ b])
next
  case (Cons c l)
  then show ?case using Cons.IH [of "c # b"] by (auto simp: delete_none inside_line)
qed

lemma delete_warnings:
  "b = [] \<or> hd b = newline \<Longrightarrow> \<forall>(l, e) \<in> set (lines_of a). closed_line l \<Longrightarrow>
     delete_from warning_pattern b a = drop_lines warning_line a"
proof (induction a arbitrary: b rule: lines_of.induct)
  case (1 a)
  show ?case
  proof (cases a)
    case (Cons c cs)
    define l where "l = takeWhile (\<lambda>c. c \<noteq> newline) a"
    define r where "r = dropWhile (\<lambda>c. c \<noteq> newline) a"
    have a: "a = l @ r" by (simp add: l_def r_def)
    have l: "newline \<notin> set l" by (auto simp: l_def dest: set_takeWhileD)
    have r: "r = [] \<or> hd r = newline" using hd_dropWhile unfolding r_def by blast
    have lines: "lines_of a = (l, take 1 r) # lines_of (drop 1 r)" 
      unfolding l_def r_def by (subst lines_of.simps) (simp only: Cons list.distinct(2) if_False)
    then have closed: "closed_line l" using "1.prems"(2) by simp
    have rest: "delete_from warning_pattern b' (drop 1 r) = drop_lines warning_line (drop 1 r)"
      if "drop 1 r = [] \<or> b' \<noteq> [] \<and> hd b' = newline" for b'
    proof (cases "drop 1 r = []")
      case True
      then show ?thesis by (simp add: drop_lines_def lines_of.simps [of "[]"])
    next
      case False
      then show ?thesis using "1.IH" [of b'] that "1.prems"(2) lines Cons unfolding r_def by simp
    qed
    have drop: "drop_lines warning_line a = (if warning_line l then [] else l @ take 1 r) @ drop_lines warning_line (drop 1 r)"
      by (simp add: drop_lines_def lines)
    show ?thesis
    proof (cases "warning_line l")
      case True
      then obtain ps g where "matches_at warning_pattern b a = (rev (l @ take 1 r) @ b, drop 1 r, g) # ps"
        using warning_matches [OF closed l r "1.prems"(1)] a by auto
      moreover have "length (drop 1 r) < length a" unfolding r_def by (rule rest_shorter) (simp add: Cons)
      ultimately have "delete_from warning_pattern b a = delete_from warning_pattern (rev (l @ take 1 r) @ b) (drop 1 r)"
        by (simp add: delete_from.simps [of warning_pattern b a])
      also have "... = drop_lines warning_line (drop 1 r)" by (rule rest) (use r in \<open>cases r; auto\<close>)
      finally show ?thesis using drop True by simp
    next
      case False
      then have none: "matches_at warning_pattern b a = []" using warning_matches [OF closed l r "1.prems"(1)] a by simp
      obtain b' where "delete_from warning_pattern b a = l @ take 1 r @ delete_from warning_pattern (take 1 r @ b') (drop 1 r)"
      proof (cases l)
        case Nil
        then show ?thesis using that [of b] none a Cons r by (cases r) (auto simp: delete_none)
      next
        case (Cons d l')
        then show ?thesis using that none a l r delete_inside [of "d # b" l' r] by (auto simp: delete_none)
      qed
      moreover have "delete_from warning_pattern (take 1 r @ b') (drop 1 r) = drop_lines warning_line (drop 1 r)"
        by (rule rest) (use r in \<open>cases r; auto\<close>)
      ultimately show ?thesis using drop False by simp
    qed
  qed (simp add: drop_lines_def lines_of.simps [of "[]"])
qed

lemma delete_all_warnings:
  "\<forall>(l, e) \<in> set (lines_of a). closed_line l \<Longrightarrow> delete_all warning_pattern a = drop_lines warning_line a"
  by (simp add: delete_all_def delete_warnings)

section \<open>The output of the compiler\<close>

text \<open>What is relied on in the crate \<open>regex\<close>, for texts in ASCII.\<close>

definition removes_warnings :: "(bytes \<Rightarrow> bytes) \<Rightarrow> bool" where
  "removes_warnings re \<longleftrightarrow> (\<forall>s. list_all is_ascii s \<longrightarrow> re (ascii s) = ascii (delete_all warning_pattern s))"


definition sample_removal :: "bytes \<Rightarrow> bytes" where
  "sample_removal d = ascii (delete_all warning_pattern (text_of d))"

lemma char_byte: "char_of (unat (of_char c :: byte)) = c"
proof -
  have "unat (of_nat (of_char c) :: byte) = take_bit 8 (of_char c)" by (simp only: unsigned_of_nat) simp
  also have "... = of_char c" by (rule take_bit_nat_eq_self) (use nat_of_char_less_256 [of c] in simp)
  finally show ?thesis unfolding of_nat_of_char by simp
qed

lemma text_of_ascii: "text_of (ascii s) = s"
  by (simp add: text_of_def ascii_def char_byte comp_def)

lemma sample_removal_removes: "removes_warnings sample_removal"
  by (simp add: removes_warnings_def sample_removal_def text_of_ascii)

definition sample_lines :: string where
  "sample_lines = ''a.c(1) : warning C4411: foo'' @ [newline] @ ''b.c(42) : warning C4628: bar'' @ [newline] @ ''a.c(3) : note''"


text \<open>The second line is gone.\<close>

lemma sample_lines_left:
  "drop_lines warning_line sample_lines = ''a.c(1) : warning C4411: foo'' @ [newline] @ ''a.c(3) : note''"
proof -
  have "\<forall>(l, e) \<in> set (lines_of sample_lines). closed_line l" by code_simp
  then have "drop_lines warning_line sample_lines = delete_all warning_pattern sample_lines" by (simp add: delete_all_warnings)
  also have "... = ''a.c(1) : warning C4411: foo'' @ [newline] @ ''a.c(3) : note''" by code_simp
  finally show ?thesis .
qed

text \<open>\<open>[^:]*\<close> also matches line ends: a line without a colon before a warning C4628 goes with it.\<close>

lemma note_removed_too:
  "delete_all warning_pattern (''Creating library'' @ [newline] @ ''foo.c(42) : warning C4628: x'' @ [newline] @ ''done'') = ''done''"
  by code_simp

section \<open>The unit tests\<close>

lemma prepare_output_tests_pass_here:
  "test_prepare_output_simple sample_removal" "test_prepare_output_c4628_remove sample_removal"
  "test_prepare_output_c4628_keep sample_removal"
proof -
  show "test_prepare_output_simple sample_removal" by (rule prepare_output_tests_pass(1)) code_simp
  show "test_prepare_output_c4628_remove sample_removal" by (rule prepare_output_tests_pass(2)) code_simp
  show "test_prepare_output_c4628_keep sample_removal" by (rule prepare_output_tests_pass(3))
qed

end
