(* ===== verification/Spec2Isabelle.thy ===== *)
theory Spec2Isabelle
  imports Postprocess_Filter Counters Vs_Compiler_Correct Xg_Schedule Cluster_Correct Remote_Vs Simple
    Services Entry_Points Filter_Tests Stream_Tests Unit_Tests Worker_Tests Xg_Patterns Clang_Patterns Vs_Patterns
begin

text \<open>
  Verification of octobuild, a compiler driver that caches and distributes C++ compilations.

  \<^bold>\<open>The program.\<close> A front end (\<open>octo_cl\<close>, \<open>octo_clang\<close>, \<open>xgConsole\<close>) turns a command line, or the tasks of
  an XGE file, into compilation tasks. An executor runs the tasks in worker threads in an order that respects their
  dependencies. A task is preprocessed by the real compiler, the preprocessed source is filtered where a precompiled
  header is involved, and the result is compiled: from the cache when the key of the step is known, by a builder of the
  cluster when one has the same compiler, by the local compiler otherwise. Builders announce themselves to a coordinator,
  which clients ask for the list of builders.

  \<^bold>\<open>Conventions\<close> (theory \<open>Octo_Prelude\<close>). A Rust function that can fail returns \<open>failure + 'a\<close>; a panic is the
  value \<open>Inl (Panic msg)\<close>, so that "returns \<open>Inr\<close>" excludes panics. State that a function changes is returned
  updated. Threads are step relations over a record of the shared state. All loops are total functions with a measure;
  no definition of the program uses fuel (only \<open>check_read\<close> of the tests does, and \<open>check_stream_any\<close> shows that its
  bound is enough). Machine integers are words where they can wrap (sizes and counters of \<open>Binary\<close> and \<open>Counters\<close>,
  the limits of \<open>Config\<close> and \<open>File_Cache\<close>, the fields of an executable), lengths in memory are \<open>nat\<close>. Strings are
  lists of bytes in UTF-8. Paths are those of Unix, except where Windows is modelled by name.

  \<^bold>\<open>Parameters.\<close> Third-party code is an argument of the definitions that use it, mostly a field of a host record:
  LZ4, SHA-256 and hexadecimal text, the engine of regular expressions, the ANSI code page, YAML, XML events, URLs and addresses as
  text, the network, the registry and the version resources of Windows, child processes, random names and numbers, and
  the clock. What a property needs of them is a named hypothesis (\<open>graph_view\<close>, \<open>hex_ok\<close>, \<open>texts_ok\<close>,
  \<open>xg_host_ok\<close> and so on), and each such property has a witness with concrete functions.

  \<^bold>\<open>Theories and sources\<close>, from the bottom up.

  Streams. \<open>Io_Stream\<close> (readers as lists of pieces and errors, the locale \<open>byte_sink\<close> of writers, with the vector as its
  first instance), \<open>MemStream\<close> (\<open>src/io/memstream.rs\<close>: the blocks hold exactly the bytes written, in order, and reading
  gives them back), \<open>Binary\<close> (\<open>src/io/binary.rs\<close>), \<open>Counters\<close> (\<open>src/io/counter.rs\<close>, \<open>src/io/statistic.rs\<close>).

  The filter. \<open>Postprocess\<close> models \<open>src/vs/postprocess.rs\<close> as it is written, a scanner with a buffer, three pointers
  and refills. \<open>Postprocess_Correct\<close> and \<open>Postprocess_Filter\<close> give a specification on lists of bytes and a simulation:
  for every reader and every sink the filter writes \<open>filter_output\<close> of the input. From the specification follow what is
  inserted, the absence of panics, and the departures from the intent at the end of the file.

  Commands and caches. \<open>Os_Path\<close> (paths and files), \<open>Command\<close> and \<open>Toolchain\<close> (\<open>src/compiler.rs\<close>: arguments,
  environment, search of executables, the key of a step, the run through the cache, the table of toolchains),
  \<open>Slow_Ops\<close> (the shared state and its semaphore), \<open>Memo\<close> (\<open>src/lazy.rs\<close>), \<open>File_Cache\<close> with \<open>File_Cache_Correct\<close>
  (\<open>src/io/filecache.rs\<close>: entries round-trip, cleanup keeps the newest files), \<open>Cache\<close> (\<open>src/cache.rs\<close>,
  \<open>src/io/memcache.rs\<close>: file hashes are current), \<open>Config\<close> (\<open>src/config.rs\<close>), \<open>Temp_File\<close> (\<open>src/io/tempfile.rs\<close>),
  \<open>Process\<close> (child processes). The key determines source, arguments and precompiled header; a cached step replays
  the first run.

  Compilers. \<open>Cmd_Parse\<close> (\<open>src/cmd\<close>: quoting and parsing are inverse), \<open>Text_Encoding\<close>, \<open>Prepare\<close>,
  \<open>Vs_Prepare\<close> and \<open>Clang_Prepare\<close> with their \<open>_Correct\<close> theories (\<open>src/vs/prepare.rs\<close>, \<open>src/clang/prepare.rs\<close>: which
  tasks a command line gives), \<open>Vs_Compiler\<close>, \<open>Vs_Compiler_Correct\<close> and \<open>Clang_Compiler\<close> (\<open>src/vs/compiler.rs\<close>,
  \<open>src/clang/compiler.rs\<close>: what the compiler is called with, on which bytes, and that parsing the arguments it gets
  returns the arguments of the call), \<open>Vs_Identifier\<close> (the Windows part of \<open>src/vs/compiler.rs\<close>: the identifier read
  from the executable, and the installed compilers).

  Execution. \<open>Petgraph\<close> (the crate's graphs as a log of insertions seen through a view), \<open>Worker\<close> and
  \<open>Worker_Correct\<close> (\<open>src/worker.rs\<close>: validation accepts the acyclic graphs; in every interleaving of the workers,
  the channels and the main loop tasks start once and in order, executions end, do not hang, and return 0 only if all
  tasks succeeded), \<open>Worker_Reports\<close> (what the progress callback sees along a run), \<open>Xg_Parser\<close>, \<open>Xg_Console\<close>, their \<open>_Correct\<close>
  theories and \<open>Xg_Schedule\<close> (\<open>src/xg/parser.rs\<close>,
  \<open>src/bin/xgConsole.rs\<close>: the graph of a task file, the expansion of variables, the order of the actions),
  \<open>Simple\<close> (\<open>src/simple.rs\<close>), \<open>Startup\<close> and \<open>Entry_Points\<close> (the programs from their arguments to their exit code;
  \<open>src/bin/octo_cl.rs\<close>, \<open>src/bin/octo_clang.rs\<close>, \<open>src/bin/filter_cl.rs\<close>, \<open>src/version.rs\<close>, the descriptions of errors).

  Patterns. \<open>Regex\<close> holds the syntax of the regular expressions of the program, their text, and the meaning the crate
  documents for them: the places a backtracking search reaches, the first one first. What a pattern matches is then a
  statement on lists of characters. \<open>Xg_Patterns\<close>: the expression built from a mask with \<open>?\<close> and \<open>*\<close> matches what a direct
  matcher of the mask does, and which arguments of \<open>xgConsole\<close> are flags. \<open>Clang_Patterns\<close>: what the identifier of a Clang
  compiler is made of, and that it can be taken apart. \<open>Vs_Patterns\<close>: which lines of the output of cl are removed. Each states
  the use of the crate as a hypothesis for texts in ASCII, which the reference meaning itself satisfies in the witness.

  The cluster. \<open>Coordinator\<close> (\<open>src/cluster/common.rs\<close>, \<open>src/bin/octo_coordinator.rs\<close>: the list is that of the builders
  heard of in the last five seconds), \<open>Remote_Client\<close> (\<open>src/cluster/client.rs\<close>, \<open>src/cluster/builder.rs\<close>),
  \<open>Builder_Service\<close> (\<open>src/bin/octo_builder.rs\<close>: both handlers), \<open>Cluster_Correct\<close> (client and builder together: a
  remote step gives the file the compiler of the builder writes), \<open>Remote_Vs\<close> (the same for a Visual Studio compiler,
  whose object file goes through a temporary file), \<open>Services\<close> (the services with their announcing
  thread and the signals of the daemon: a builder that announces itself is listed, and an announced Visual Studio
  compiler is the one the client means).

  The tests. \<open>Test_Text\<close>, \<open>Filter_Tests\<close>, \<open>Stream_Tests\<close> and \<open>Unit_Tests\<close> run the unit tests of the program
  on the model; those of regular expressions are run in the theories of the patterns, with the meaning of \<open>Regex\<close>. The test of the memory stream is proved for all sizes and data, and those of the
  executor in \<open>Worker_Tests\<close> for every interleaving.

  \<^bold>\<open>Interfaces.\<close> A locale states what one part relies on in another: \<open>byte_sink\<close> (a writer appends to its contents;
  interpreted on the vector and on the memory stream, so that the filter and the copying are proved once for both),
  \<open>transition_system\<close> (theory \<open>Transition\<close>: an invariant and a descent, from which runs are good and finite; interpreted on the
  executor and on the semaphore of slow operations),
  \<open>memo\<close> (a value is computed once and shared by all threads; interpreted on lazy values and on the table of toolchains) and
  \<open>memory_toolchain\<close> (what the service of a builder needs of the toolchain it runs, and with it the answer the client gets;
  interpreted on the Clang toolchain, on the Visual Studio toolchain and on the one with the identifier of Windows).

  \<^bold>\<open>Not modelled.\<close> Logging, what is printed besides the outputs of compilers and the lines of \<open>xgConsole\<close>, the parsing of
  the command line of \<open>filter_cl\<close> (crate \<open>clap\<close>), the components of Windows paths, poisoned
  locks, the daemon library and the web server themselves, \<open>ToolchainHolder::to_vec\<close> and
  \<open>Config::get_coordinator_addrs\<close> (never called), benchmarks, samples, packaging and the C# task for MSBuild. The tests of SHA-256 and of the large XML file belong to code
  that is a parameter here.
\<close>

end
